(* ===== verification/Rain_Prelude.thy ===== *)
theory Rain_Prelude
  imports Main "HOL-Library.Word"
begin

text \<open>
  Shared vocabulary of the development: the machine types of \<^verbatim>\<open>src/core/types.hpp\<close>,
  the lemma collections the component theories fill, and the generic facts on lists, options
  and words that several components use.
\<close>

unbundle bit_operations_syntax

section \<open>Machine types\<close>

type_synonym u8 = "8 word"
type_synonym u16 = "16 word"
type_synonym u32 = "32 word"
type_synonym u64 = "64 word"

section \<open>Lemma collections\<close>

named_theorems slotmap_simps \<open>rewrite rules for the dense slot table of the timer wheel\<close>
named_theorems wheel_simps \<open>frame and projection rules for the timer wheel\<close>
named_theorems reactor_simps \<open>frame and projection rules for the epoll reactor\<close>
named_theorems chan_simps \<open>rewrite rules for the channel operations\<close>
named_theorems loop_simps \<open>frame and projection rules for the event loop\<close>

section \<open>Lists\<close>

lemma set_list_update_subset:
  "x \<in> set (xs[i := y]) \<Longrightarrow> x = y \<or> x \<in> set xs"
  using set_update_subset_insert [of xs i y] by auto

lemma nth_list_update_if:
  "i < length xs \<Longrightarrow> xs[j := y] ! i = (if i = j then y else xs ! i)"
  by (cases "i = j") auto

lemma nth_list_update_proj:
  assumes "l < length xs \<Longrightarrow> f y = f (xs ! l)"
  shows "f (xs[l := y] ! l') = f (xs ! l')"
proof (cases "l < length xs")
  case True
  with assms show ?thesis by (cases "l = l'") auto
next
  case False
  then show ?thesis by (simp add: list_update_beyond)
qed

lemma length_filter_list_update:
  "i < length xs \<Longrightarrow>
     length (filter P (xs[i := y])) + (if P (xs ! i) then 1 else 0)
       = length (filter P xs) + (if P y then 1 else 0)"
proof (induction xs arbitrary: i)
  case Nil
  then show ?case by simp
next
  case (Cons x xs)
  then show ?case
    by (cases i) auto
qed

lemma length_filter_pos:
  "i < length xs \<Longrightarrow> P (xs ! i) \<Longrightarrow> 0 < length (filter P xs)"
  using nth_mem [of i xs] by (metis filter_empty_conv length_greater_0_conv)

lemma butlast_snoc_last: "xs \<noteq> [] \<Longrightarrow> butlast xs @ [last xs] = xs"
  by simp

lemma distinct_butlast_last:
  "distinct xs \<Longrightarrow> xs \<noteq> [] \<Longrightarrow> last xs \<notin> set (butlast xs)"
  by (metis append_butlast_last_id distinct_butlast not_distinct_conv_prefix)

lemma set_butlast_distinct:
  assumes "distinct xs" "xs \<noteq> []"
  shows "set (butlast xs) = set xs - {last xs}"
proof -
  have "set xs = insert (last xs) (set (butlast xs))"
    using assms(2) by (metis append_butlast_last_id insert_is_Un list.set(1) list.simps(15)
        set_append sup_commute)
  then show ?thesis
    using distinct_butlast_last [OF assms] by auto
qed

section \<open>Arithmetic\<close>

lemma nat_and_255: "(n :: nat) AND 255 = n mod 256"
proof -
  have "n AND mask 8 = take_bit 8 n"
    by (simp only: take_bit_eq_mask)
  then show ?thesis
    by (simp add: mask_eq_exp_minus_1 take_bit_eq_mod)
qed

lemma nat_and_63: "(n :: nat) AND 63 = n mod 64"
proof -
  have "n AND mask 6 = take_bit 6 n"
    by (simp only: take_bit_eq_mask)
  then show ?thesis
    by (simp add: mask_eq_exp_minus_1 take_bit_eq_mod)
qed

lemma bit_flag: "bit (push_bit n 1 :: u32) m \<longleftrightarrow> m < 32 \<and> m = n"
  unfolding bit_push_bit_iff bit_1_iff by auto

text \<open>A pair or triple is made of its components; the form in which witnesses name results.\<close>

lemma pair_eta: "x = (fst x, snd x)"
  by simp

lemma triple_eta: "x = (fst x, fst (snd x), snd (snd x))"
  by simp

end
