(* ===== verification/Core.thy ===== *)
theory Core
  imports Rain_Prelude
begin

text \<open>
  The foundation layer: \<^verbatim>\<open>src/core/result.hpp\<close> (system errors and results) and
  \<^verbatim>\<open>src/core/diagnostics.hpp\<close> (structured events, the installed sink, the per-core
  counters and the registry a scraper reads them through).

  A \<open>SystemError\<close> is its error code (category and value) and its message; the
  \<open>source_location\<close> it also carries is a compile-time constant of the place that raised it
  and is not modelled. The text \<open>std::system_category().message(e)\<close> belongs to the C
  library, so a message is either a literal of the source or that text for a given errno.
\<close>

section \<open>Errors and results (core/result.hpp)\<close>

datatype category = generic_category | system_category

datatype err_msg = Text string | StrError int

record system_error =
  err_category :: category
  err_value :: int
  err_message :: err_msg

type_synonym 'a result = "system_error + 'a"

abbreviation Ok :: "'a \<Rightarrow> 'a result" where
  "Ok \<equiv> Inr"

abbreviation Err :: "system_error \<Rightarrow> 'a result" where
  "Err \<equiv> Inl"

definition is_ok :: "'a result \<Rightarrow> bool" where
  "is_ok r = (case r of Inl _ \<Rightarrow> False | Inr _ \<Rightarrow> True)"

lemma is_ok_simps [simp]: "is_ok (Ok x)" "\<not> is_ok (Err e)"
  by (simp_all add: is_ok_def)

text \<open>The Linux error numbers the source names, directly or through \<open>std::errc\<close>.\<close>

abbreviation (input) EPERM :: int where "EPERM \<equiv> 1"
abbreviation (input) ENOENT :: int where "ENOENT \<equiv> 2"
abbreviation (input) EINTR :: int where "EINTR \<equiv> 4"
abbreviation (input) EIO :: int where "EIO \<equiv> 5"
abbreviation (input) EBADF :: int where "EBADF \<equiv> 9"
abbreviation (input) EAGAIN :: int where "EAGAIN \<equiv> 11"
abbreviation (input) EBUSY :: int where "EBUSY \<equiv> 16"
abbreviation (input) EINVAL :: int where "EINVAL \<equiv> 22"
abbreviation (input) EPIPE :: int where "EPIPE \<equiv> 32"
abbreviation (input) EMSGSIZE :: int where "EMSGSIZE \<equiv> 90"
abbreviation (input) ETIMEDOUT :: int where "ETIMEDOUT \<equiv> 110"
abbreviation (input) EINPROGRESS :: int where "EINPROGRESS \<equiv> 115"
abbreviation (input) ECANCELED :: int where "ECANCELED \<equiv> 125"

definition from_errno :: "int \<Rightarrow> system_error" where
  "from_errno e = \<lparr>err_category = system_category, err_value = e, err_message = StrError e\<rparr>"

definition make_error :: "int \<Rightarrow> string \<Rightarrow> system_error" where
  "make_error c msg = \<lparr>err_category = generic_category, err_value = c, err_message = Text msg\<rparr>"

lemma err_fields [simp]:
  "err_value (from_errno e) = e" "err_category (from_errno e) = system_category"
  "err_value (make_error c m) = c" "err_category (make_error c m) = generic_category"
  "err_message (make_error c m) = Text m"
  by (simp_all add: from_errno_def make_error_def)

lemma make_error_inject [simp]: "make_error c m = make_error c' m' \<longleftrightarrow> c = c' \<and> m = m'"
  by (simp add: make_error_def)

lemma make_error_neq_from_errno [simp]:
  "make_error c m \<noteq> from_errno e" "from_errno e \<noteq> make_error c m"
  by (simp_all add: make_error_def from_errno_def)

section \<open>Structured events (core/diagnostics.hpp)\<close>

datatype severity = Trace | Debug | Info | Warn | Error

datatype field_kind = I64 | U64 | Str

record field =
  f_key :: string
  f_kind :: field_kind
  f_ival :: "64 word"
  f_sval :: string

definition field_i :: "string \<Rightarrow> 64 word \<Rightarrow> field" where
  "field_i k v = \<lparr>f_key = k, f_kind = I64, f_ival = v, f_sval = []\<rparr>"

definition field_u :: "string \<Rightarrow> u64 \<Rightarrow> field" where
  "field_u k v = \<lparr>f_key = k, f_kind = U64, f_ival = v, f_sval = []\<rparr>"

definition field_s :: "string \<Rightarrow> string \<Rightarrow> field" where
  "field_s k v = \<lparr>f_key = k, f_kind = Str, f_ival = 0, f_sval = v\<rparr>"

record event =
  ev_code :: string
  ev_severity :: severity
  ev_error :: "system_error option"
  ev_fields :: "field list"

text \<open>
  The global sink is a pointer that may be null; a sink's \<open>emit\<close> is what it does to its own
  state (\<open>'s\<close>). Without a sink, \<open>emit\<close> returns at once.
\<close>

type_synonym 's sink = "('s \<Rightarrow> event \<Rightarrow> 's) option"

definition install_sink :: "('s \<Rightarrow> event \<Rightarrow> 's) \<Rightarrow> 's sink \<Rightarrow> 's sink" where
  "install_sink f g_sink = Some f"

definition reset_sink :: "'s sink \<Rightarrow> 's sink" where
  "reset_sink g_sink = None"

definition sink_enabled :: "'s sink \<Rightarrow> bool" where
  "sink_enabled g_sink = (g_sink \<noteq> None)"

definition emit :: "'s sink \<Rightarrow> event \<Rightarrow> 's \<Rightarrow> 's" where
  "emit g_sink e s = (case g_sink of None \<Rightarrow> s | Some f \<Rightarrow> f s e)"

section \<open>Per-core counters\<close>

record core_metrics =
  accept_failed :: u64
  inflight_connections :: u64
  coroutine_exceptions :: u64
  blocking_exceptions :: u64
  reactor_rearm_failed :: u64
  loop_run_errors :: u64

definition zero_metrics :: core_metrics where
  "zero_metrics = \<lparr>accept_failed = 0, inflight_connections = 0, coroutine_exceptions = 0,
     blocking_exceptions = 0, reactor_rearm_failed = 0, loop_run_errors = 0\<rparr>"

datatype counter =
    AcceptFailed | InflightConnections | CoroutineExceptions
  | BlockingExceptions | ReactorRearmFailed | LoopRunErrors

fun read_counter :: "counter \<Rightarrow> core_metrics \<Rightarrow> u64" where
  "read_counter AcceptFailed m = accept_failed m"
| "read_counter InflightConnections m = inflight_connections m"
| "read_counter CoroutineExceptions m = coroutine_exceptions m"
| "read_counter BlockingExceptions m = blocking_exceptions m"
| "read_counter ReactorRearmFailed m = reactor_rearm_failed m"
| "read_counter LoopRunErrors m = loop_run_errors m"

fun fetch_add :: "counter \<Rightarrow> u64 \<Rightarrow> core_metrics \<Rightarrow> core_metrics" where
  "fetch_add AcceptFailed n m = m\<lparr>accept_failed := accept_failed m + n\<rparr>"
| "fetch_add InflightConnections n m = m\<lparr>inflight_connections := inflight_connections m + n\<rparr>"
| "fetch_add CoroutineExceptions n m = m\<lparr>coroutine_exceptions := coroutine_exceptions m + n\<rparr>"
| "fetch_add BlockingExceptions n m = m\<lparr>blocking_exceptions := blocking_exceptions m + n\<rparr>"
| "fetch_add ReactorRearmFailed n m = m\<lparr>reactor_rearm_failed := reactor_rearm_failed m + n\<rparr>"
| "fetch_add LoopRunErrors n m = m\<lparr>loop_run_errors := loop_run_errors m + n\<rparr>"

text \<open>The thread-local \<open>g_metrics\<close> is null until the runtime installs it.\<close>

definition count :: "counter \<Rightarrow> u64 \<Rightarrow> core_metrics option \<Rightarrow> core_metrics option" where
  "count field n g_metrics = (case g_metrics of None \<Rightarrow> None | Some m \<Rightarrow> Some (fetch_add field n m))"

definition inflight_enter :: "core_metrics option \<Rightarrow> core_metrics option" where
  "inflight_enter g_metrics = count InflightConnections 1 g_metrics"

definition inflight_exit :: "core_metrics option \<Rightarrow> core_metrics option" where
  "inflight_exit g_metrics =
     (case g_metrics of None \<Rightarrow> None
      | Some m \<Rightarrow> Some (m\<lparr>inflight_connections := inflight_connections m - 1\<rparr>))"

lemma read_fetch_add:
  "read_counter c (fetch_add c' n m) = (if c = c' then read_counter c m + n else read_counter c m)"
  by (cases c; cases c') simp_all

section \<open>The scrape registry\<close>

text \<open>The registry keeps the addresses of the live cores' counters, in registration order.\<close>

type_synonym metrics_registry = "nat list"

definition registry_add :: "nat \<Rightarrow> metrics_registry \<Rightarrow> metrics_registry" where
  "registry_add m cores = cores @ [m]"

definition registry_remove :: "nat \<Rightarrow> metrics_registry \<Rightarrow> metrics_registry" where
  "registry_remove m cores = filter (\<lambda>x. x \<noteq> m) cores"

definition registry_for_each :: "(nat \<Rightarrow> 's \<Rightarrow> 's) \<Rightarrow> metrics_registry \<Rightarrow> 's \<Rightarrow> 's" where
  "registry_for_each f cores s = fold f cores s"

end
