(* ===== verification/Concepts.thy ===== *)
theory Concepts
  imports Core
begin

text \<open>
  The vocabulary of the async layer, \<^verbatim>\<open>src/async/concepts.hpp\<close>: clock readings and
  durations in the nanoseconds of \<open>std::chrono::steady_clock\<close>, the wait states that the
  reactor, the timer wheel and the cancellation callbacks compete to set, and the I/O event
  flags. A coroutine handle is the number of its frame, a null handle is \<open>None\<close>; a
  \<open>WaitState*\<close> is an address of the memory that holds the awaiters' wait states.
\<close>

section \<open>Time\<close>

type_synonym time_point = int
type_synonym duration = int
type_synonym timer_id = u64

definition ns_per_ms :: int where
  "ns_per_ms = 1000000"

definition duration_cast_ms :: "duration \<Rightarrow> int" where
  "duration_cast_ms ns = (if 0 \<le> ns then ns div ns_per_ms else - ((- ns) div ns_per_ms))"

lemma duration_cast_ms_neg: "ns < 0 \<Longrightarrow> duration_cast_ms ns \<le> 0"
  by (simp add: duration_cast_ms_def ns_per_ms_def pos_imp_zdiv_nonneg_iff)

section \<open>Handles and wait states\<close>

type_synonym coro = nat
type_synonym handle = "coro option"

datatype wait_state = Pending | Ready | TimedOut | Cancelled

type_synonym state_ptr = "nat option"
type_synonym wait_mem = "nat \<Rightarrow> wait_state"

section \<open>I/O event flags\<close>

type_synonym io_event = u32

definition IoNone :: io_event where "IoNone = 0"
definition IoRead :: io_event where "IoRead = push_bit 0 1"
definition IoWrite :: io_event where "IoWrite = push_bit 1 1"
definition IoError :: io_event where "IoError = push_bit 2 1"
definition IoHangUp :: io_event where "IoHangUp = push_bit 3 1"
definition IoEdgeTrig :: io_event where "IoEdgeTrig = push_bit 4 1"
definition IoOneShot :: io_event where "IoOneShot = push_bit 5 1"

lemmas io_flag_defs = IoNone_def IoRead_def IoWrite_def IoError_def IoHangUp_def
  IoEdgeTrig_def IoOneShot_def

definition io_or :: "io_event \<Rightarrow> io_event \<Rightarrow> io_event" where
  "io_or lhs rhs = lhs OR rhs"

definition io_and :: "io_event \<Rightarrow> io_event \<Rightarrow> io_event" where
  "io_and lhs rhs = lhs AND rhs"

definition io_not :: "io_event \<Rightarrow> io_event" where
  "io_not v = NOT v"

definition has_flag :: "io_event \<Rightarrow> io_event \<Rightarrow> bool" where
  "has_flag flags flag = (io_and flags flag = flag)"

lemma has_flag_single_bit:
  fixes x :: io_event
  assumes "n < 32"
  shows "has_flag x (push_bit n 1) \<longleftrightarrow> bit x n"
proof
  assume "has_flag x (push_bit n 1)"
  then have "bit (x AND push_bit n 1) n = bit (push_bit n 1 :: io_event) n"
    unfolding has_flag_def io_and_def by (rule arg_cong)
  with assms show "bit x n"
    unfolding bit_and_iff bit_flag by simp
next
  assume "bit x n"
  then have "bit (x AND push_bit n 1) m = bit (push_bit n 1 :: io_event) m" for m
    unfolding bit_and_iff bit_flag by auto
  then show "has_flag x (push_bit n 1)"
    unfolding has_flag_def io_and_def by (rule bit_eqI)
qed

lemma has_flag_IoRead: "has_flag x IoRead \<longleftrightarrow> bit x 0"
  and has_flag_IoWrite: "has_flag x IoWrite \<longleftrightarrow> bit x 1"
  and has_flag_IoError: "has_flag x IoError \<longleftrightarrow> bit x 2"
  and has_flag_IoHangUp: "has_flag x IoHangUp \<longleftrightarrow> bit x 3"
  and has_flag_IoEdgeTrig: "has_flag x IoEdgeTrig \<longleftrightarrow> bit x 4"
  and has_flag_IoOneShot: "has_flag x IoOneShot \<longleftrightarrow> bit x 5"
  unfolding io_flag_defs by (simp_all only: has_flag_single_bit)

lemmas has_flag_bits = has_flag_IoRead has_flag_IoWrite has_flag_IoError has_flag_IoHangUp
  has_flag_IoEdgeTrig has_flag_IoOneShot

lemma bit_io_or: "bit (io_or a b) n \<longleftrightarrow> bit a n \<or> bit b n"
  by (simp add: io_or_def bit_or_iff)

lemma bit_io_flags:
  "bit IoRead n \<longleftrightarrow> n = 0" "bit IoWrite n \<longleftrightarrow> n = 1"
  "bit IoEdgeTrig n \<longleftrightarrow> n = 4" "bit IoOneShot n \<longleftrightarrow> n = 5"
  unfolding io_flag_defs bit_flag by auto

end
