(* ===== verification/Timer_Slotmap.thy ===== *)
theory Timer_Slotmap
  imports Concepts
begin

text \<open>
  The dense slot table of \<^verbatim>\<open>src/async/timer.hpp\<close>: the part of
  \<open>HierarchicalTimerWheel\<close> that stores the timer entries. An entry lives at an index; a
  free index is reused (last in, first out) and every reuse bumps the index's generation, so
  that a \<open>TimerId\<close>, which packs 40 bits of generation over 24 bits of index, names one
  occupant only. The record \<open>slot_table\<close> holds the fields \<open>slotmap_\<close>,
  \<open>free_indices_\<close> and \<open>active_count_\<close>; the wheel extends it.

  The locale \<open>timer_table\<close> is the contract the rest of the wheel and its clients rely on,
  interpreted here on the model's own operations. Its lemma \<open>stale_forever\<close> is the ABA
  guarantee: an id that has been released is never resolved again, whatever is allocated and
  released afterwards.
\<close>

section \<open>Timer entries and the table\<close>

record timer_entry =
  e_id :: timer_id
  e_deadline :: time_point
  e_handle :: handle
  e_state :: state_ptr
  e_completion :: wait_state

record table_slot =
  s_entry :: timer_entry
  s_generation :: u64
  s_active :: bool

definition default_slot :: table_slot where
  "default_slot = \<lparr>s_entry = \<lparr>e_id = 0, e_deadline = 0, e_handle = None, e_state = None,
     e_completion = TimedOut\<rparr>, s_generation = 0, s_active = False\<rparr>"

record slot_table =
  slotmap :: "table_slot list"
  free_indices :: "u32 list"
  active_count :: nat

section \<open>Timer ids\<close>

definition kIndexBits :: nat where
  "kIndexBits = 24"

definition kIndexMask :: u32 where
  "kIndexMask = push_bit kIndexBits 1 - 1"

definition encode_id :: "u32 \<Rightarrow> u64 \<Rightarrow> timer_id" where
  "encode_id index gen = push_bit kIndexBits gen OR ucast index"

definition id_index :: "timer_id \<Rightarrow> u32" where
  "id_index tid = ucast (tid AND ucast kIndexMask)"

definition id_gen :: "timer_id \<Rightarrow> u64" where
  "id_gen tid = drop_bit kIndexBits tid"

section \<open>Operations\<close>

definition lookup :: "timer_id \<Rightarrow> 'a slot_table_scheme \<Rightarrow> timer_entry option" where
  "lookup tid t =
     (let idx = unat (id_index tid)
      in if length (slotmap t) \<le> idx then None
         else let s = slotmap t ! idx
              in if \<not> s_active s \<or> s_generation s \<noteq> id_gen tid then None
                 else Some (s_entry s))"

text \<open>The head of \<open>schedule_at\<close>: take an index, write the entry, return its id.\<close>

definition take_index :: "'a slot_table_scheme \<Rightarrow> u32 \<times> 'a slot_table_scheme" where
  "take_index t =
     (if free_indices t \<noteq> []
      then (last (free_indices t), t\<lparr>free_indices := butlast (free_indices t)\<rparr>)
      else (of_nat (length (slotmap t)), t\<lparr>slotmap := slotmap t @ [default_slot]\<rparr>))"

definition alloc_entry ::
  "time_point \<Rightarrow> handle \<Rightarrow> state_ptr \<Rightarrow> wait_state \<Rightarrow> 'a slot_table_scheme
     \<Rightarrow> timer_id \<times> 'a slot_table_scheme" where
  "alloc_entry deadline h st completion t =
     (let (index, t1) = take_index t;
          gen = s_generation (slotmap t1 ! unat index) + 1;
          tid = encode_id index gen;
          entry = \<lparr>e_id = tid, e_deadline = deadline, e_handle = h, e_state = st,
                   e_completion = completion\<rparr>;
          slot = \<lparr>s_entry = entry, s_generation = gen, s_active = True\<rparr>
      in (tid, t1\<lparr>slotmap := (slotmap t1)[unat index := slot],
                 active_count := active_count t1 + 1\<rparr>))"

definition deactivate :: "u32 \<Rightarrow> 'a slot_table_scheme \<Rightarrow> 'a slot_table_scheme" where
  "deactivate idx t =
     t\<lparr>slotmap := (slotmap t)[unat idx := (slotmap t ! unat idx)\<lparr>s_active := False\<rparr>],
       free_indices := free_indices t @ [idx],
       active_count := active_count t - 1\<rparr>"

definition cancel :: "timer_id \<Rightarrow> 'a slot_table_scheme \<Rightarrow> bool \<times> 'a slot_table_scheme" where
  "cancel tid t =
     (let idx = id_index tid
      in if length (slotmap t) \<le> unat idx then (False, t)
         else let s = slotmap t ! unat idx
              in if \<not> s_active s \<or> s_generation s \<noteq> id_gen tid then (False, t)
                 else (True, deactivate idx t))"

definition release :: "timer_id \<Rightarrow> 'a slot_table_scheme \<Rightarrow> 'a slot_table_scheme" where
  "release tid t =
     (let idx = id_index tid
      in if unat idx < length (slotmap t) \<and> s_active (slotmap t ! unat idx)
            \<and> s_generation (slotmap t ! unat idx) = id_gen tid
         then deactivate idx t else t)"

section \<open>Id encoding\<close>

lemma bit_unat_less:
  fixes x :: "'a::len word"
  assumes "unat x < 2 ^ n" and "bit x m"
  shows "m < n"
proof (rule ccontr)
  assume "\<not> m < n"
  with assms(1) have "unat x < 2 ^ m"
    by (meson leI less_le_trans one_le_numeral power_increasing)
  then have "unat x div 2 ^ m = 0" by simp
  then have "\<not> bit (unat x) m"
    by (simp add: bit_iff_odd)
  with assms(2) show False
    by (simp add: bit_unsigned_iff)
qed

lemma kIndexMask_eq: "kIndexMask = mask 24"
  by (simp add: kIndexMask_def kIndexBits_def mask_eq_exp_minus_1)

lemma bit_index_mask: "bit kIndexMask n \<longleftrightarrow> n < 24"
  by (auto simp: kIndexMask_eq bit_mask_iff)

lemma id_index_encode:
  assumes "unat index < 2 ^ 24"
  shows "id_index (encode_id index gen) = index"
proof (rule bit_word_eqI)
  fix n assume "n < LENGTH(32)"
  then show "bit (id_index (encode_id index gen)) n = bit index n"
    using bit_unat_less [OF assms, of n]
    by (auto simp: id_index_def encode_id_def bit_unsigned_iff bit_and_iff bit_or_iff
        bit_push_bit_iff bit_index_mask kIndexBits_def)
qed

lemma id_gen_encode:
  assumes "unat index < 2 ^ 24" and "unat gen < 2 ^ 40"
  shows "id_gen (encode_id index gen) = gen"
proof (rule bit_word_eqI)
  fix n assume "n < LENGTH(64)"
  then show "bit (id_gen (encode_id index gen)) n = bit gen n"
    using bit_unat_less [OF assms(1), of "24 + n"] bit_unat_less [OF assms(2), of n]
    by (auto simp: id_gen_def encode_id_def bit_drop_bit_eq bit_or_iff
        bit_push_bit_iff bit_unsigned_iff kIndexBits_def)
qed

lemma unat_id_index_bound: "unat (id_index tid) < 2 ^ 24"
proof -
  have "bit (id_index tid) n \<Longrightarrow> n < 24" for n
    by (auto simp: id_index_def bit_unsigned_iff bit_and_iff bit_index_mask)
  then have "take_bit 24 (id_index tid) = id_index tid"
    by (auto intro!: bit_word_eqI simp: bit_take_bit_iff)
  then have "take_bit 24 (unat (id_index tid)) = unat (id_index tid)"
    by (metis unsigned_take_bit_eq)
  then show ?thesis
    by (simp add: take_bit_nat_eq_self_iff)
qed

lemma unat_id_gen_bound: "unat (id_gen tid) < 2 ^ 40"
proof -
  have "unat (id_gen tid) = unat tid div 2 ^ 24"
    by (simp add: id_gen_def kIndexBits_def drop_bit_eq_div unat_div)
  moreover have "unat tid < 2 ^ 64"
    using unsigned_less [of tid] by simp
  ultimately show ?thesis
    by (simp add: less_mult_imp_div_less)
qed

lemma encode_id_split: "encode_id (id_index tid) (id_gen tid) = tid"
proof (rule bit_word_eqI)
  fix n assume "n < LENGTH(64)"
  then show "bit (encode_id (id_index tid) (id_gen tid)) n = bit tid n"
    by (cases "n < 24") (auto simp: not_less encode_id_def id_index_def id_gen_def kIndexBits_def bit_or_iff bit_and_iff
        bit_push_bit_iff bit_drop_bit_eq bit_unsigned_iff bit_index_mask)
qed

lemma id_eqI: "id_index a = id_index b \<Longrightarrow> id_gen a = id_gen b \<Longrightarrow> a = b"
  by (metis encode_id_split)

section \<open>The table invariant\<close>

definition table_inv :: "'a slot_table_scheme \<Rightarrow> bool" where
  "table_inv t \<longleftrightarrow>
     length (slotmap t) \<le> 2 ^ 24
     \<and> (\<forall>s \<in> set (slotmap t). unat (s_generation s) < 2 ^ 40)
     \<and> (\<forall>i < length (slotmap t). s_active (slotmap t ! i) \<longrightarrow>
          e_id (s_entry (slotmap t ! i)) = encode_id (of_nat i) (s_generation (slotmap t ! i)))
     \<and> distinct (free_indices t)
     \<and> unat ` set (free_indices t) = {i. i < length (slotmap t) \<and> \<not> s_active (slotmap t ! i)}
     \<and> active_count t = length (filter s_active (slotmap t))"

text \<open>
  The documented limits of the id format: at most \<open>2 ^ 24\<close> timers at a time, and fewer than
  \<open>2 ^ 40\<close> uses of one index.
\<close>

definition can_alloc :: "'a slot_table_scheme \<Rightarrow> bool" where
  "can_alloc t =
     (if free_indices t \<noteq> []
      then unat (s_generation (slotmap t ! unat (last (free_indices t)))) + 1 < 2 ^ 40
      else length (slotmap t) < 2 ^ 24)"

text \<open>An id is stale when its index has moved past its generation, or has been vacated.\<close>

definition stale :: "timer_id \<Rightarrow> 'a slot_table_scheme \<Rightarrow> bool" where
  "stale tid t \<longleftrightarrow>
     unat (id_index tid) < length (slotmap t)
     \<and> (let s = slotmap t ! unat (id_index tid)
        in unat (id_gen tid) < unat (s_generation s)
           \<or> (s_generation s = id_gen tid \<and> \<not> s_active s))"

lemma lookup_Some_iff:
  "lookup tid t = Some e \<longleftrightarrow>
     unat (id_index tid) < length (slotmap t)
     \<and> s_active (slotmap t ! unat (id_index tid))
     \<and> s_generation (slotmap t ! unat (id_index tid)) = id_gen tid
     \<and> s_entry (slotmap t ! unat (id_index tid)) = e"
  by (auto simp: lookup_def Let_def)

lemma lookup_id: "table_inv t \<Longrightarrow> lookup tid t = Some e \<Longrightarrow> e_id e = tid"
  using encode_id_split [of tid] by (auto simp: table_inv_def lookup_Some_iff)

lemma lookup_stale: "stale tid t \<Longrightarrow> lookup tid t = None"
  by (auto simp: stale_def lookup_def Let_def)

section \<open>Allocation\<close>

text \<open>The table between taking an index and filling it: the index is in no list.\<close>

definition index_taken :: "u32 \<Rightarrow> 'a slot_table_scheme \<Rightarrow> bool" where
  "index_taken i t \<longleftrightarrow>
     unat i < length (slotmap t)
     \<and> \<not> s_active (slotmap t ! unat i)
     \<and> unat (s_generation (slotmap t ! unat i)) + 1 < 2 ^ 40
     \<and> length (slotmap t) \<le> 2 ^ 24
     \<and> (\<forall>s \<in> set (slotmap t). unat (s_generation s) < 2 ^ 40)
     \<and> (\<forall>j < length (slotmap t). s_active (slotmap t ! j) \<longrightarrow>
          e_id (s_entry (slotmap t ! j)) = encode_id (of_nat j) (s_generation (slotmap t ! j)))
     \<and> distinct (free_indices t)
     \<and> unat ` set (free_indices t)
           = {j. j < length (slotmap t) \<and> \<not> s_active (slotmap t ! j)} - {unat i}
     \<and> active_count t = length (filter s_active (slotmap t))"

lemma take_index_taken:
  assumes inv: "table_inv t" and can: "can_alloc t" and ti: "take_index t = (i, t1)"
  shows "index_taken i t1"
proof -
  consider (reuse) "free_indices t \<noteq> []" "i = last (free_indices t)"
      "t1 = t\<lparr>free_indices := butlast (free_indices t)\<rparr>"
    | (fresh) "free_indices t = []" "i = of_nat (length (slotmap t))"
      "t1 = t\<lparr>slotmap := slotmap t @ [default_slot]\<rparr>"
    using ti by (auto simp: take_index_def split: if_splits)
  then show ?thesis
  proof cases
    case reuse
    have "unat i \<in> unat ` set (free_indices t)"
      using reuse by simp
    moreover have "unat ` set (butlast (free_indices t)) = unat ` set (free_indices t) - {unat i}"
      using inv reuse set_butlast_distinct [of "free_indices t"]
      by (auto simp: table_inv_def word_unat_eq_iff)
    ultimately show ?thesis
      using inv can reuse
      by (auto simp: table_inv_def can_alloc_def index_taken_def distinct_butlast)
  next
    case fresh
    with can have len: "length (slotmap t) < 2 ^ 24"
      by (simp add: can_alloc_def)
    then have ui: "unat i = length (slotmap t)"
      using fresh by (simp add: unat_of_nat)
    show ?thesis
      using inv fresh ui len
      by (auto simp: table_inv_def index_taken_def default_slot_def nth_append less_Suc_eq)
  qed
qed

lemma take_index_lookup:
  "take_index t = (i, t1) \<Longrightarrow> lookup tid t1 = lookup tid t"
  by (auto simp: take_index_def lookup_def Let_def nth_append default_slot_def less_Suc_eq
      split: if_splits)

lemma take_index_stale:
  "take_index t = (i, t1) \<Longrightarrow> stale tid t \<Longrightarrow> stale tid t1"
  by (auto simp: take_index_def stale_def Let_def nth_append split: if_splits)

text \<open>What \<open>alloc_entry\<close> writes, once the index is taken.\<close>

definition new_entry ::
  "timer_id \<Rightarrow> time_point \<Rightarrow> handle \<Rightarrow> state_ptr \<Rightarrow> wait_state \<Rightarrow> timer_entry" where
  "new_entry tid deadline h st completion =
     \<lparr>e_id = tid, e_deadline = deadline, e_handle = h, e_state = st, e_completion = completion\<rparr>"

lemma alloc_entry_cases:
  assumes "table_inv t" "can_alloc t" "alloc_entry dl h st c t = (tid, t')"
  obtains i t1 where "take_index t = (i, t1)" "index_taken i t1"
    "id_index tid = i" "unat (id_gen tid) = unat (s_generation (slotmap t1 ! unat i)) + 1"
    "t' = t1\<lparr>slotmap := (slotmap t1)[unat i := \<lparr>s_entry = new_entry tid dl h st c,
              s_generation = id_gen tid, s_active = True\<rparr>], active_count := active_count t1 + 1\<rparr>"
proof -
  obtain i t1 where ti: "take_index t = (i, t1)" by (cases "take_index t")
  define g where "g = s_generation (slotmap t1 ! unat i)"
  have tk: "index_taken i t1" by (rule take_index_taken [OF assms(1,2) ti])
  then have i: "unat i < 2 ^ 24" and g: "unat g + 1 < 2 ^ 40"
    by (auto simp: index_taken_def g_def)
  then have g1: "unat (g + 1) = unat g + 1"
    by (simp add: unat_word_ariths)
  have tid: "tid = encode_id i (g + 1)"
    and t': "t' = t1\<lparr>slotmap := (slotmap t1)[unat i := \<lparr>s_entry = new_entry tid dl h st c,
              s_generation = g + 1, s_active = True\<rparr>], active_count := active_count t1 + 1\<rparr>"
    using assms(3) ti
    by (auto simp: alloc_entry_def Let_def g_def new_entry_def split: prod.splits)
  have "id_index tid = i" "id_gen tid = g + 1"
    using i g g1 by (simp_all add: tid id_index_encode id_gen_encode)
  with that [OF ti tk] t' g1 show thesis
    by (simp add: g_def)
qed

lemma alloc_entry_inv:
  assumes "table_inv t" "can_alloc t" "alloc_entry dl h st c t = (tid, t')"
  shows "table_inv t'"
  using assms
proof (rule alloc_entry_cases)
  fix i t1
  assume tk: "index_taken i t1" and i: "id_index tid = i"
    and g: "unat (id_gen tid) = unat (s_generation (slotmap t1 ! unat i)) + 1"
    and t': "t' = t1\<lparr>slotmap := (slotmap t1)[unat i := \<lparr>s_entry = new_entry tid dl h st c,
              s_generation = id_gen tid, s_active = True\<rparr>], active_count := active_count t1 + 1\<rparr>"
  have "length (filter s_active (slotmap t')) = length (filter s_active (slotmap t1)) + 1"
    using tk length_filter_list_update [of "unat i" "slotmap t1" s_active]
    by (auto simp: t' index_taken_def)
  moreover have "encode_id (of_nat (unat i)) (id_gen tid) = tid"
    using i encode_id_split [of tid] by simp
  moreover have "\<forall>s \<in> set (slotmap t'). unat (s_generation s) < 2 ^ 40"
    using tk g by (auto simp: t' index_taken_def dest!: set_list_update_subset)
  ultimately show "table_inv t'"
    using tk
    by (auto simp: table_inv_def index_taken_def t' nth_list_update_if new_entry_def
        split: if_splits)
qed

lemma alloc_entry_lookup:
  assumes "table_inv t" "can_alloc t" "alloc_entry dl h st c t = (tid, t')"
  shows "lookup tid' t' = (if tid' = tid then Some (new_entry tid dl h st c) else lookup tid' t)"
  using assms
proof (rule alloc_entry_cases)
  fix i t1
  assume ti: "take_index t = (i, t1)" and tk: "index_taken i t1" and i: "id_index tid = i"
    and t': "t' = t1\<lparr>slotmap := (slotmap t1)[unat i := \<lparr>s_entry = new_entry tid dl h st c,
              s_generation = id_gen tid, s_active = True\<rparr>], active_count := active_count t1 + 1\<rparr>"
  have "lookup tid' t' = (if tid' = tid then Some (new_entry tid dl h st c) else lookup tid' t1)"
    using tk i id_eqI [of tid' tid]
    by (auto simp: lookup_def Let_def t' index_taken_def nth_list_update_if
        word_unat_eq_iff [symmetric])
  then show ?thesis
    by (simp add: take_index_lookup [OF ti])
qed

lemma alloc_entry_fresh:
  assumes "table_inv t" "can_alloc t" "alloc_entry dl h st c t = (tid, t')"
  shows "lookup tid t = None" and "\<not> stale tid t"
proof -
  from assms obtain i t1 where ti: "take_index t = (i, t1)" and tk: "index_taken i t1"
    and i: "id_index tid = i"
    and g: "unat (id_gen tid) = unat (s_generation (slotmap t1 ! unat i)) + 1"
    by (rule alloc_entry_cases)
  have "lookup tid t1 = None"
    using tk i by (auto simp: lookup_def Let_def index_taken_def)
  then show "lookup tid t = None"
    by (simp add: take_index_lookup [OF ti])
  have "\<not> stale tid t1"
    using tk i g by (auto simp: stale_def Let_def index_taken_def)
  then show "\<not> stale tid t"
    using take_index_stale [OF ti] by blast
qed

lemma alloc_entry_stale:
  assumes "table_inv t" "can_alloc t" "alloc_entry dl h st c t = (tid, t')" "stale tid' t"
  shows "stale tid' t'"
  using assms(1-3)
proof (rule alloc_entry_cases)
  fix i t1
  assume ti: "take_index t = (i, t1)"
    and g: "unat (id_gen tid) = unat (s_generation (slotmap t1 ! unat i)) + 1"
    and t': "t' = t1\<lparr>slotmap := (slotmap t1)[unat i := \<lparr>s_entry = new_entry tid dl h st c,
              s_generation = id_gen tid, s_active = True\<rparr>], active_count := active_count t1 + 1\<rparr>"
  have "stale tid' t1" by (rule take_index_stale [OF ti assms(4)])
  then show ?thesis
    using g by (auto simp: stale_def Let_def t' nth_list_update_if)
qed

section \<open>Release and cancellation\<close>

lemma release_eq:
  "release tid t = (if lookup tid t = None then t else deactivate (id_index tid) t)"
  by (auto simp: release_def lookup_def Let_def)

lemma cancel_eq: "cancel tid t = (lookup tid t \<noteq> None, release tid t)"
  by (auto simp: cancel_def release_def lookup_def Let_def)

lemma release_inv:
  assumes "table_inv t"
  shows "table_inv (release tid t)"
proof (cases "lookup tid t")
  case None
  with assms show ?thesis by (simp add: release_eq)
next
  case (Some e)
  let ?i = "id_index tid"
  have i: "unat ?i < length (slotmap t)" and act: "s_active (slotmap t ! unat ?i)"
    using Some by (auto simp: lookup_Some_iff)
  have "?i \<notin> set (free_indices t)"
    using assms i act unfolding table_inv_def by blast
  moreover have "length (filter s_active (slotmap (deactivate ?i t))) + 1
      = length (filter s_active (slotmap t))"
    using i act length_filter_list_update [of "unat ?i" "slotmap t" s_active]
    by (auto simp: deactivate_def)
  moreover have "\<forall>s \<in> set (slotmap (deactivate ?i t)). unat (s_generation s) < 2 ^ 40"
    using assms i
    by (auto simp: table_inv_def deactivate_def dest!: set_list_update_subset)
  ultimately have "table_inv (deactivate ?i t)"
    using assms i act
    by (auto simp: table_inv_def deactivate_def nth_list_update_if split: if_splits)
  then show ?thesis
    using Some by (simp add: release_eq)
qed

lemma release_lookup:
  "lookup tid' (release tid t) = (if tid' = tid then None else lookup tid' t)"
proof (cases "lookup tid t")
  case None
  then show ?thesis by (simp add: release_eq)
next
  case (Some e)
  then show ?thesis
    using id_eqI [of tid' tid]
    by (auto simp: release_eq deactivate_def lookup_def Let_def nth_list_update_if
        word_unat_eq_iff [symmetric] split: if_splits)
qed

lemma release_stale_self: "lookup tid t \<noteq> None \<Longrightarrow> stale tid (release tid t)"
  by (auto simp: release_eq stale_def Let_def deactivate_def lookup_Some_iff)

lemma release_stale: "stale tid' t \<Longrightarrow> stale tid' (release tid t)"
  by (auto simp: release_eq stale_def Let_def deactivate_def nth_list_update_if)

lemma release_active_count:
  "lookup tid t = Some e \<Longrightarrow> table_inv t \<Longrightarrow> active_count t = active_count (release tid t) + 1"
  using length_filter_pos [of "unat (id_index tid)" "slotmap t" s_active]
  by (auto simp: release_eq deactivate_def table_inv_def lookup_Some_iff)

lemma alloc_entry_active_count:
  "alloc_entry dl h st c t = (tid, t') \<Longrightarrow> active_count t' = active_count t + 1"
  by (auto simp: alloc_entry_def take_index_def Let_def split: if_splits prod.splits)

section \<open>The contract of the table\<close>

text \<open>
  A history of the table is a list of allocations (\<open>Inl\<close>, with the entry's data) and
  releases (\<open>Inr\<close>, with the id); \<open>history_ok\<close> says that every allocation of it stays
  within the limits of the id format.
\<close>

fun run_history ::
  "('arg \<Rightarrow> 't \<Rightarrow> 'i \<times> 't) \<Rightarrow> ('i \<Rightarrow> 't \<Rightarrow> 't) \<Rightarrow> ('arg + 'i) list \<Rightarrow> 't \<Rightarrow> 't" where
  "run_history alloc free [] t = t"
| "run_history alloc free (Inl a # ops) t = run_history alloc free ops (snd (alloc a t))"
| "run_history alloc free (Inr i # ops) t = run_history alloc free ops (free i t)"

fun history_ok ::
  "('t \<Rightarrow> bool) \<Rightarrow> ('arg \<Rightarrow> 't \<Rightarrow> 'i \<times> 't) \<Rightarrow> ('i \<Rightarrow> 't \<Rightarrow> 't) \<Rightarrow> ('arg + 'i) list \<Rightarrow> 't \<Rightarrow> bool"
where
  "history_ok can alloc free [] t = True"
| "history_ok can alloc free (Inl a # ops) t
     = (can t \<and> history_ok can alloc free ops (snd (alloc a t)))"
| "history_ok can alloc free (Inr i # ops) t = history_ok can alloc free ops (free i t)"

locale timer_table =
  fixes inv :: "'t \<Rightarrow> bool"
    and can :: "'t \<Rightarrow> bool"
    and find :: "'i \<Rightarrow> 't \<Rightarrow> 'e option"
    and alloc :: "'arg \<Rightarrow> 't \<Rightarrow> 'i \<times> 't"
    and free :: "'i \<Rightarrow> 't \<Rightarrow> 't"
    and entry :: "'i \<Rightarrow> 'arg \<Rightarrow> 'e"
    and dead :: "'i \<Rightarrow> 't \<Rightarrow> bool"
  assumes inv_alloc: "inv t \<Longrightarrow> can t \<Longrightarrow> inv (snd (alloc a t))"
    and inv_free: "inv t \<Longrightarrow> inv (free i t)"
    and find_alloc: "inv t \<Longrightarrow> can t \<Longrightarrow> find j (snd (alloc a t))
      = (if j = fst (alloc a t) then Some (entry j a) else find j t)"
    and find_free: "find j (free i t) = (if j = i then None else find j t)"
    and fresh: "inv t \<Longrightarrow> can t \<Longrightarrow> find (fst (alloc a t)) t = None \<and> \<not> dead (fst (alloc a t)) t"
    and dead_free: "find i t \<noteq> None \<Longrightarrow> dead i (free i t)"
    and dead_find: "dead i t \<Longrightarrow> find i t = None"
    and dead_alloc: "inv t \<Longrightarrow> can t \<Longrightarrow> dead i t \<Longrightarrow> dead i (snd (alloc a t))"
    and dead_release: "dead i t \<Longrightarrow> dead i (free j t)"
begin

lemma inv_history:
  "inv t \<Longrightarrow> history_ok can alloc free ops t \<Longrightarrow> inv (run_history alloc free ops t)"
proof (induction ops arbitrary: t)
  case (Cons op ops)
  then show ?case by (cases op) (auto intro: inv_alloc inv_free)
qed simp

lemma dead_history:
  "inv t \<Longrightarrow> dead i t \<Longrightarrow> history_ok can alloc free ops t \<Longrightarrow> dead i (run_history alloc free ops t)"
proof (induction ops arbitrary: t)
  case (Cons op ops)
  then show ?case by (cases op) (auto intro: inv_alloc inv_free dead_alloc dead_release)
qed simp

text \<open>A released id is resolved by no later table.\<close>

lemma stale_forever:
  assumes "inv t" "find i t \<noteq> None" "history_ok can alloc free ops (free i t)"
  shows "find i (run_history alloc free ops (free i t)) = None"
  using dead_history [OF inv_free [OF assms(1)] dead_free [OF assms(2)] assms(3)]
  by (rule dead_find)

text \<open>An entry nobody releases stays, with the data it was given.\<close>

lemma live_until_released:
  assumes "inv t" "find i t = Some e" "history_ok can alloc free ops t" "Inr i \<notin> set ops"
  shows "find i (run_history alloc free ops t) = Some e"
  using assms
proof (induction ops arbitrary: t)
  case (Cons op ops)
  show ?case
  proof (cases op)
    case (Inl a)
    with Cons.prems have "find i (snd (alloc a t)) = Some e"
      using fresh [of t a] by (auto simp: find_alloc)
    with Inl Cons show ?thesis by (auto intro: inv_alloc)
  next
    case (Inr j)
    with Cons.prems have "find i (free j t) = Some e"
      by (simp add: find_free)
    with Inr Cons show ?thesis by (auto intro: inv_free)
  qed
qed simp

end

type_synonym entry_args = "time_point \<times> handle \<times> state_ptr \<times> wait_state"

definition alloc_args :: "entry_args \<Rightarrow> 'a slot_table_scheme \<Rightarrow> timer_id \<times> 'a slot_table_scheme" where
  "alloc_args a t = (case a of (dl, h, st, c) \<Rightarrow> alloc_entry dl h st c t)"

definition entry_of_args :: "timer_id \<Rightarrow> entry_args \<Rightarrow> timer_entry" where
  "entry_of_args tid a = (case a of (dl, h, st, c) \<Rightarrow> new_entry tid dl h st c)"

interpretation tbl: timer_table table_inv can_alloc lookup alloc_args release entry_of_args stale
proof
  fix t :: "'a slot_table_scheme" and a :: entry_args and i j :: timer_id
  obtain dl h st c where a: "a = (dl, h, st, c)" by (cases a) auto
  obtain tid t' where al: "alloc_entry dl h st c t = (tid, t')"
    by (cases "alloc_entry dl h st c t")
  note alloc = alloc_args_def entry_of_args_def a al
  show "table_inv (snd (alloc_args a t))" if "table_inv t" "can_alloc t"
    using alloc_entry_inv [OF that al] by (simp add: alloc)
  show "lookup j (snd (alloc_args a t))
      = (if j = fst (alloc_args a t) then Some (entry_of_args j a) else lookup j t)"
    if "table_inv t" "can_alloc t"
    using alloc_entry_lookup [OF that al, of j] by (simp add: alloc)
  show "lookup (fst (alloc_args a t)) t = None \<and> \<not> stale (fst (alloc_args a t)) t"
    if "table_inv t" "can_alloc t"
    using alloc_entry_fresh [OF that al] by (simp add: alloc)
  show "stale i (snd (alloc_args a t))" if "table_inv t" "can_alloc t" "stale i t"
    using alloc_entry_stale [OF that(1,2) al that(3)] by (simp add: alloc)
qed (auto simp: release_lookup intro: release_inv release_stale_self lookup_stale release_stale)

end
