(* ===== verification/Timer_Wheel.thy ===== *)
theory Timer_Wheel
  imports Timer_Slotmap
begin

text \<open>
  The hierarchical timer wheel of \<^verbatim>\<open>src/async/timer.hpp\<close>: four levels of slots (256,
  then three times 64), the absolute tick of a deadline deciding the slot, and a cascade that
  hands the timers of a coarse slot down when its turn comes. The record \<open>wheel\<close> extends
  the slot table with \<open>levels_\<close>, \<open>start_time_\<close>, \<open>current_time_\<close> and
  \<open>ready_\<close>.

  Two things the wheel reads belong to others and are arguments: \<open>done\<close>, which says of a
  coroutine frame whether it has finished, and the memory of wait states the entries point into.
\<close>

section \<open>Geometry\<close>

definition kLevel0Bits :: nat where "kLevel0Bits = 8"
definition kLevel0Size :: nat where "kLevel0Size = push_bit kLevel0Bits 1"
definition kLevelNBits :: nat where "kLevelNBits = 6"
definition kLevelNSize :: nat where "kLevelNSize = push_bit kLevelNBits 1"
definition kNumLevels :: nat where "kNumLevels = 4"
definition kTickDuration :: duration where "kTickDuration = ns_per_ms"

definition kLevel1Threshold :: nat where "kLevel1Threshold = kLevel0Size"
definition kLevel2Threshold :: nat where "kLevel2Threshold = kLevel0Size * kLevelNSize"
definition kLevel3Threshold :: nat where
  "kLevel3Threshold = kLevel0Size * kLevelNSize * kLevelNSize"

lemma geometry:
  "kLevel0Bits = 8" "kLevel0Size = 256" "kLevelNBits = 6" "kLevelNSize = 64" "kNumLevels = 4"
  "kTickDuration = 1000000" "kLevel1Threshold = 256" "kLevel2Threshold = 16384"
  "kLevel3Threshold = 1048576"
  by (simp_all add: kLevel0Bits_def kLevel0Size_def kLevelNBits_def kLevelNSize_def kNumLevels_def
      kTickDuration_def kLevel1Threshold_def kLevel2Threshold_def kLevel3Threshold_def ns_per_ms_def)

record level =
  slots :: "timer_id list list"
  current_slot :: nat

definition new_level :: "nat \<Rightarrow> level" where
  "new_level num_slots = \<lparr>slots = replicate num_slots [], current_slot = 0\<rparr>"

definition slot_count :: "level \<Rightarrow> nat" where
  "slot_count l = length (slots l)"

record wheel = slot_table +
  levels :: "level list"
  start_time :: time_point
  current_time :: time_point
  ready :: "coro list"

definition new_wheel :: "time_point \<Rightarrow> wheel" where
  "new_wheel now =
     \<lparr>slotmap = [], free_indices = [], active_count = 0,
      levels = [new_level kLevel0Size, new_level kLevelNSize, new_level kLevelNSize,
                new_level kLevelNSize],
      start_time = now, current_time = now, ready = []\<rparr>"

section \<open>Slots\<close>

definition slot_ids :: "wheel \<Rightarrow> nat \<Rightarrow> nat \<Rightarrow> timer_id list" where
  "slot_ids w lvl s = slots (levels w ! lvl) ! s"

definition set_slot :: "nat \<Rightarrow> nat \<Rightarrow> timer_id list \<Rightarrow> wheel \<Rightarrow> wheel" where
  "set_slot lvl s ids w =
     w\<lparr>levels := (levels w)[lvl := (levels w ! lvl)\<lparr>slots := (slots (levels w ! lvl))[s := ids]\<rparr>]\<rparr>"

definition push_slot :: "nat \<Rightarrow> nat \<Rightarrow> timer_id \<Rightarrow> wheel \<Rightarrow> wheel" where
  "push_slot lvl s tid w = set_slot lvl s (slot_ids w lvl s @ [tid]) w"

definition set_current_slot :: "nat \<Rightarrow> nat \<Rightarrow> wheel \<Rightarrow> wheel" where
  "set_current_slot lvl c w =
     w\<lparr>levels := (levels w)[lvl := (levels w ! lvl)\<lparr>current_slot := c\<rparr>]\<rparr>"

section \<open>Operations\<close>

definition place :: "timer_id \<Rightarrow> time_point \<Rightarrow> wheel \<Rightarrow> wheel" where
  "place tid deadline w =
     (let delay = duration_cast_ms (deadline - current_time w);
          delay = (if delay < 0 then 0 else delay);
          diff = nat delay;
          abs = duration_cast_ms (deadline - start_time w);
          abs = (if abs < 0 then 0 else abs);
          dticks = nat abs
      in if diff < kLevel1Threshold then
           push_slot 0 (dticks AND (kLevel0Size - 1)) tid w
         else if diff < kLevel2Threshold then
           push_slot 1 (drop_bit kLevel0Bits dticks AND (kLevelNSize - 1)) tid w
         else if diff < kLevel3Threshold then
           push_slot 2 (drop_bit (kLevel0Bits + kLevelNBits) dticks AND (kLevelNSize - 1)) tid w
         else
           push_slot 3 (drop_bit (kLevel0Bits + 2 * kLevelNBits) dticks AND (kLevelNSize - 1)) tid w)"

definition schedule_at ::
  "time_point \<Rightarrow> handle \<Rightarrow> state_ptr \<Rightarrow> wait_state \<Rightarrow> wheel \<Rightarrow> timer_id \<times> wheel" where
  "schedule_at deadline h st completion w =
     (let (tid, w1) = alloc_entry deadline h st completion w
      in (tid, place tid deadline w1))"

definition schedule ::
  "duration \<Rightarrow> handle \<Rightarrow> state_ptr \<Rightarrow> wait_state \<Rightarrow> wheel \<Rightarrow> timer_id \<times> wheel" where
  "schedule delay h st completion w =
     (let deadline = current_time w + delay in schedule_at deadline h st completion w)"

text \<open>The cascade of one slot: every id that still resolves is placed again.\<close>

definition replace_id :: "timer_id \<Rightarrow> wheel \<Rightarrow> wheel" where
  "replace_id tid w =
     (case lookup tid w of None \<Rightarrow> w | Some entry \<Rightarrow> place tid (e_deadline entry) w)"

definition cascade_slot :: "nat \<Rightarrow> wheel \<Rightarrow> wheel" where
  "cascade_slot lvl w =
     (let c = current_slot (levels w ! lvl);
          ids = slot_ids w lvl c;
          w1 = fold replace_id ids (set_slot lvl c [] w)
      in set_current_slot lvl
           ((current_slot (levels w1 ! lvl) + 1) mod slot_count (levels w1 ! lvl)) w1)"

function cascade :: "nat \<Rightarrow> wheel \<Rightarrow> wheel" where
  "cascade lvl w =
     (if kNumLevels \<le> lvl then w
      else let w1 = (if current_slot (levels w ! lvl) = 0 \<and> lvl + 1 < kNumLevels
                     then cascade (lvl + 1) w else w)
           in cascade_slot lvl w1)"
  by pat_completeness auto
termination
  by (relation "measure (\<lambda>(lvl, w). kNumLevels - lvl)") auto

declare cascade.simps [simp del]

text \<open>
  The body of the firing loop. The accumulator is the number fired so far, the memory of wait
  states and the wheel.
\<close>

definition push_ready :: "(coro \<Rightarrow> bool) \<Rightarrow> handle \<Rightarrow> wheel \<Rightarrow> nat \<times> wheel" where
  "push_ready done h w =
     (case h of
        Some c \<Rightarrow> if \<not> done c then (1, w\<lparr>ready := ready w @ [c]\<rparr>) else (0, w)
      | None \<Rightarrow> (0, w))"

definition process_id ::
  "(coro \<Rightarrow> bool) \<Rightarrow> timer_id \<Rightarrow> nat \<times> wait_mem \<times> wheel \<Rightarrow> nat \<times> wait_mem \<times> wheel" where
  "process_id done tid acc =
     (let (fired, mem, w) = acc
      in case lookup tid w of
           None \<Rightarrow> (fired, mem, w)
         | Some entry \<Rightarrow>
             if (case e_state entry of None \<Rightarrow> False | Some p \<Rightarrow> mem p \<noteq> Pending)
             then (fired, mem, release tid w)
             else let mem1 = (case e_state entry of None \<Rightarrow> mem
                                | Some p \<Rightarrow> mem(p := e_completion entry));
                      (n, w1) = push_ready done (e_handle entry) w
                  in (fired + n, mem1, release tid w1))"

definition process_current_slot ::
  "(coro \<Rightarrow> bool) \<Rightarrow> wait_mem \<Rightarrow> wheel \<Rightarrow> nat \<times> wait_mem \<times> wheel" where
  "process_current_slot done mem w =
     (let w1 = (if current_slot (levels w ! 0) = 0 then cascade 1 w else w);
          c = current_slot (levels w1 ! 0);
          ids = slot_ids w1 0 c;
          (fired, mem1, w2) = fold (process_id done) ids (0, mem, set_slot 0 c [] w1)
      in (fired, mem1,
          set_current_slot 0 ((current_slot (levels w2 ! 0) + 1) mod kLevel0Size) w2))"

definition tick :: "(coro \<Rightarrow> bool) \<Rightarrow> wait_mem \<Rightarrow> wheel \<Rightarrow> nat \<times> wait_mem \<times> wheel" where
  "tick done mem w =
     process_current_slot done mem (w\<lparr>current_time := current_time w + kTickDuration\<rparr>)"

text \<open>The reading side: the next deadline, the ready queue.\<close>

fun first_some :: "('a \<Rightarrow> 'b option) \<Rightarrow> 'a list \<Rightarrow> 'b option" where
  "first_some f [] = None"
| "first_some f (x # xs) = (case f x of Some y \<Rightarrow> Some y | None \<Rightarrow> first_some f xs)"

definition scan_order :: "level \<Rightarrow> nat list" where
  "scan_order l = map (\<lambda>i. (current_slot l + i) mod slot_count l) [0..<slot_count l]"

definition first_deadline :: "wheel \<Rightarrow> timer_id list \<Rightarrow> time_point option" where
  "first_deadline w ids = first_some (\<lambda>tid. map_option e_deadline (lookup tid w)) ids"

definition earliest_deadline :: "wheel \<Rightarrow> timer_id list \<Rightarrow> time_point option" where
  "earliest_deadline w ids =
     fold (\<lambda>tid earliest.
             case lookup tid w of
               None \<Rightarrow> earliest
             | Some entry \<Rightarrow>
                 (case earliest of
                    None \<Rightarrow> Some (e_deadline entry)
                  | Some t \<Rightarrow> if e_deadline entry < t then Some (e_deadline entry) else earliest))
          ids None"

definition next_deadline :: "wheel \<Rightarrow> time_point option" where
  "next_deadline w =
     (if active_count w = 0 then None
      else case first_some (\<lambda>s. first_deadline w (slot_ids w 0 s)) (scan_order (levels w ! 0)) of
             Some t \<Rightarrow> Some t
           | None \<Rightarrow>
               first_some
                 (\<lambda>lvl. first_some (\<lambda>s. earliest_deadline w (slot_ids w lvl s))
                                    (scan_order (levels w ! lvl)))
                 [1..<kNumLevels])"

definition drain_ready :: "wheel \<Rightarrow> coro list \<times> wheel" where
  "drain_ready w = (ready w, w\<lparr>ready := []\<rparr>)"

definition drain_ready_into :: "coro list \<Rightarrow> wheel \<Rightarrow> coro list \<times> wheel" where
  "drain_ready_into out w = (out @ ready w, w\<lparr>ready := []\<rparr>)"

definition wake :: "coro \<Rightarrow> wheel \<Rightarrow> wheel" where
  "wake h w = w\<lparr>ready := ready w @ [h]\<rparr>"

section \<open>Frame properties\<close>

lemma lookup_cong: "slotmap t = slotmap t' \<Longrightarrow> lookup tid t = lookup tid t'"
  by (simp add: lookup_def Let_def)

lemma table_inv_cong:
  "slotmap t = slotmap t' \<Longrightarrow> free_indices t = free_indices t' \<Longrightarrow> active_count t = active_count t'
     \<Longrightarrow> table_inv t = table_inv t'"
  by (simp add: table_inv_def)

lemma set_slot_frame [wheel_simps]:
  "slotmap (set_slot l s ids w) = slotmap w" "free_indices (set_slot l s ids w) = free_indices w"
  "active_count (set_slot l s ids w) = active_count w" "start_time (set_slot l s ids w) = start_time w"
  "current_time (set_slot l s ids w) = current_time w" "ready (set_slot l s ids w) = ready w"
  "length (levels (set_slot l s ids w)) = length (levels w)"
  by (simp_all add: set_slot_def)

lemma set_current_slot_frame [wheel_simps]:
  "slotmap (set_current_slot l c w) = slotmap w"
  "free_indices (set_current_slot l c w) = free_indices w"
  "active_count (set_current_slot l c w) = active_count w"
  "start_time (set_current_slot l c w) = start_time w"
  "current_time (set_current_slot l c w) = current_time w"
  "ready (set_current_slot l c w) = ready w"
  "length (levels (set_current_slot l c w)) = length (levels w)"
  by (simp_all add: set_current_slot_def)

lemma push_slot_frame [wheel_simps]:
  "slotmap (push_slot l s tid w) = slotmap w" "free_indices (push_slot l s tid w) = free_indices w"
  "active_count (push_slot l s tid w) = active_count w"
  "start_time (push_slot l s tid w) = start_time w"
  "current_time (push_slot l s tid w) = current_time w" "ready (push_slot l s tid w) = ready w"
  "length (levels (push_slot l s tid w)) = length (levels w)"
  by (simp_all add: push_slot_def wheel_simps)

lemma place_frame [wheel_simps]:
  "slotmap (place tid dl w) = slotmap w" "free_indices (place tid dl w) = free_indices w"
  "active_count (place tid dl w) = active_count w" "start_time (place tid dl w) = start_time w"
  "current_time (place tid dl w) = current_time w" "ready (place tid dl w) = ready w"
  "length (levels (place tid dl w)) = length (levels w)"
  by (simp_all add: place_def Let_def wheel_simps)

lemma replace_id_frame [wheel_simps]:
  "slotmap (replace_id tid w) = slotmap w" "free_indices (replace_id tid w) = free_indices w"
  "active_count (replace_id tid w) = active_count w" "start_time (replace_id tid w) = start_time w"
  "current_time (replace_id tid w) = current_time w" "ready (replace_id tid w) = ready w"
  "length (levels (replace_id tid w)) = length (levels w)"
  by (simp_all add: replace_id_def wheel_simps split: option.split)

lemma fold_replace_frame [wheel_simps]:
  "slotmap (fold replace_id ids w) = slotmap w"
  "free_indices (fold replace_id ids w) = free_indices w"
  "active_count (fold replace_id ids w) = active_count w"
  "start_time (fold replace_id ids w) = start_time w"
  "current_time (fold replace_id ids w) = current_time w"
  "ready (fold replace_id ids w) = ready w"
  "length (levels (fold replace_id ids w)) = length (levels w)"
  by (induction ids arbitrary: w) (simp_all add: wheel_simps)

lemma cascade_slot_frame [wheel_simps]:
  "slotmap (cascade_slot l w) = slotmap w" "free_indices (cascade_slot l w) = free_indices w"
  "active_count (cascade_slot l w) = active_count w" "start_time (cascade_slot l w) = start_time w"
  "current_time (cascade_slot l w) = current_time w" "ready (cascade_slot l w) = ready w"
  "length (levels (cascade_slot l w)) = length (levels w)"
  by (simp_all add: cascade_slot_def Let_def wheel_simps)

lemma cascade_frame [wheel_simps]:
  "slotmap (cascade l w) = slotmap w" "free_indices (cascade l w) = free_indices w"
  "active_count (cascade l w) = active_count w" "start_time (cascade l w) = start_time w"
  "current_time (cascade l w) = current_time w" "ready (cascade l w) = ready w"
  "length (levels (cascade l w)) = length (levels w)"
proof (induction l w rule: cascade.induct)
  case (1 l w)
  { case 1 with "1.IH" show ?case by (subst cascade.simps) (simp add: Let_def wheel_simps) }
  { case 2 with "1.IH" show ?case by (subst cascade.simps) (simp add: Let_def wheel_simps) }
  { case 3 with "1.IH" show ?case by (subst cascade.simps) (simp add: Let_def wheel_simps) }
  { case 4 with "1.IH" show ?case by (subst cascade.simps) (simp add: Let_def wheel_simps) }
  { case 5 with "1.IH" show ?case by (subst cascade.simps) (simp add: Let_def wheel_simps) }
  { case 6 with "1.IH" show ?case by (subst cascade.simps) (simp add: Let_def wheel_simps) }
  { case 7 with "1.IH" show ?case by (subst cascade.simps) (simp add: Let_def wheel_simps) }
qed

lemma lookup_frame [wheel_simps]:
  "lookup t (set_slot l s ids w) = lookup t w"
  "lookup t (set_current_slot l c w) = lookup t w"
  "lookup t (push_slot l s tid w) = lookup t w"
  "lookup t (place tid dl w) = lookup t w"
  "lookup t (replace_id tid w) = lookup t w"
  "lookup t (fold replace_id ids w) = lookup t w"
  "lookup t (cascade_slot l w) = lookup t w"
  "lookup t (cascade l w) = lookup t w"
  "lookup t (w\<lparr>ready := r\<rparr>) = lookup t w"
  "lookup t (w\<lparr>current_time := now\<rparr>) = lookup t w"
  by (rule lookup_cong, simp add: wheel_simps)+

lemma table_inv_frame [wheel_simps]:
  "table_inv (set_slot l s ids w) = table_inv w"
  "table_inv (set_current_slot l c w) = table_inv w"
  "table_inv (place tid dl w) = table_inv w"
  "table_inv (replace_id tid w) = table_inv w"
  "table_inv (fold replace_id ids w) = table_inv w"
  "table_inv (cascade_slot l w) = table_inv w"
  "table_inv (cascade l w) = table_inv w"
  "table_inv (w\<lparr>ready := r\<rparr>) = table_inv w"
  "table_inv (w\<lparr>current_time := now\<rparr>) = table_inv w"
  by (rule table_inv_cong; simp add: wheel_simps)+

lemma stale_cong: "slotmap t = slotmap t' \<Longrightarrow> stale tid t = stale tid t'"
  by (simp add: stale_def)

lemma stale_frame [wheel_simps]:
  "stale t (set_slot l s ids w) = stale t w"
  "stale t (set_current_slot l c w) = stale t w"
  "stale t (push_slot l s tid w) = stale t w"
  "stale t (place tid dl w) = stale t w"
  "stale t (replace_id tid w) = stale t w"
  "stale t (fold replace_id ids w) = stale t w"
  "stale t (cascade_slot l w) = stale t w"
  "stale t (cascade l w) = stale t w"
  "stale t (w\<lparr>ready := r\<rparr>) = stale t w"
  "stale t (w\<lparr>current_time := now\<rparr>) = stale t w"
  by (rule stale_cong, simp add: wheel_simps)+

lemma release_frame [wheel_simps]:
  "levels (release tid w) = levels w" "start_time (release tid w) = start_time w"
  "current_time (release tid w) = current_time w" "ready (release tid w) = ready w"
  "slot_ids (release tid w) l s = slot_ids w l s"
  by (simp_all add: release_eq deactivate_def slot_ids_def)

lemma push_ready_frame [wheel_simps]:
  "levels (snd (push_ready done h w)) = levels w"
  "start_time (snd (push_ready done h w)) = start_time w"
  "current_time (snd (push_ready done h w)) = current_time w"
  "slotmap (snd (push_ready done h w)) = slotmap w"
  "free_indices (snd (push_ready done h w)) = free_indices w"
  "active_count (snd (push_ready done h w)) = active_count w"
  by (auto simp: push_ready_def split: option.split)

section \<open>Advancing to a time\<close>

lemma process_id_current_time:
  "current_time (snd (snd (process_id done tid acc))) = current_time (snd (snd acc))"
  by (auto simp: process_id_def Let_def wheel_simps push_ready_def split: prod.split option.split)

lemma process_fold_current_time:
  "current_time (snd (snd (fold (process_id done) ids acc))) = current_time (snd (snd acc))"
  by (induction ids arbitrary: acc) (simp_all add: process_id_current_time)

lemma tick_current_time: "current_time (snd (snd (tick done mem w))) = current_time w + kTickDuration"
  using process_fold_current_time [of "done"]
  by (simp add: tick_def process_current_slot_def Let_def wheel_simps case_prod_beta)

function advance_to ::
  "(coro \<Rightarrow> bool) \<Rightarrow> time_point \<Rightarrow> wait_mem \<Rightarrow> wheel \<Rightarrow> nat \<times> wait_mem \<times> wheel" where
  "advance_to done target mem w =
     (if current_time w < target
      then let (n, mem1, w1) = tick done mem w;
               (total, mem2, w2) = advance_to done target mem1 w1
           in (n + total, mem2, w2)
      else (0, mem, w))"
  by pat_completeness auto
termination
proof (relation "measure (\<lambda>(done, target, mem, w). nat (target - current_time w))", goal_cases)
  case (2 "done" target mem w x n y mem1 w1)
  then have "current_time w1 = current_time w + kTickDuration"
    using tick_current_time [of "done" mem w] by (metis snd_conv)
  with 2 show ?case by (auto simp: geometry)
qed simp

declare advance_to.simps [simp del]

end
