(* ===== verification/Wheel_Invariant.thy ===== *)
theory Wheel_Invariant
  imports Timer_Wheel
begin

text \<open>
  The invariant of the timer wheel and its preservation. Time is counted in ticks since
  \<open>start_time\<close>. Level \<open>l\<close> has slots of \<open>gran l\<close> ticks; its cursor after \<open>k\<close>
  ticks is \<open>k\<close> divided by \<open>gran l\<close>, rounded up. A live timer with deadline tick \<open>d\<close>
  sits in the slot its tick bits name, within one turn of the level's cursor (\<open>pos\<close>).
  While a tick runs, the coarse levels have turned and the fine ones have not: \<open>mid k L\<close>
  describes that state when the levels from \<open>L\<close> up have been cascaded.
\<close>

section \<open>Ticks and slots\<close>

definition level_size :: "nat \<Rightarrow> nat" where
  "level_size l = (if l = 0 then 256 else 64)"

definition gran :: "nat \<Rightarrow> nat" where
  "gran l = (if l = 0 then 1 else 256 * 64 ^ (l - 1))"

lemma gran_simps [simp]:
  "gran 0 = 1" "gran (Suc 0) = 256" "gran 1 = 256" "gran 2 = 16384" "gran 3 = 1048576"
  by (simp_all add: gran_def)

lemma level_size_simps [simp]:
  "level_size 0 = 256" "level_size (Suc l) = 64" "0 < l \<Longrightarrow> level_size l = 64" "0 < level_size l"
  by (simp_all add: level_size_def)

lemma gran_pos [simp]: "0 < gran l" "gran l \<noteq> 0"
  by (simp_all add: gran_def)

lemma gran_Suc: "gran (Suc l) = level_size l * gran l"
  by (cases l) (simp_all add: gran_def)

definition ticks :: "wheel \<Rightarrow> nat" where
  "ticks w = nat ((current_time w - start_time w) div ns_per_ms)"

definition dtick :: "wheel \<Rightarrow> time_point \<Rightarrow> nat" where
  "dtick w dl = nat ((dl - start_time w) div ns_per_ms)"

definition cursor :: "nat \<Rightarrow> nat \<Rightarrow> nat" where
  "cursor l k = (k + gran l - 1) div gran l"

definition wheel_shape :: "wheel \<Rightarrow> bool" where
  "wheel_shape w \<longleftrightarrow>
     length (levels w) = 4 \<and> (\<forall>l < 4. length (slots (levels w ! l)) = level_size l)"

lemma wheel_shape_cong: "levels w = levels w' \<Longrightarrow> wheel_shape w = wheel_shape w'"
  by (simp add: wheel_shape_def)

lemma slot_ids_set_slot:
  assumes "wheel_shape w" "l < 4" "s < level_size l" "l' < 4"
  shows "slot_ids (set_slot l s ids w) l' s' = (if l' = l \<and> s' = s then ids else slot_ids w l' s')"
  using assms by (auto simp: slot_ids_def set_slot_def wheel_shape_def nth_list_update_if)

lemma slots_set_current_slot [simp]:
  "slots (levels (set_current_slot l c w) ! l') = slots (levels w ! l')"
  unfolding set_current_slot_def by simp (rule nth_list_update_proj, simp)

lemma slot_ids_set_current_slot [simp]:
  "slot_ids (set_current_slot l c w) l' s' = slot_ids w l' s'"
  by (simp add: slot_ids_def)

lemma wheel_shape_set_current_slot [simp]: "wheel_shape (set_current_slot l c w) = wheel_shape w"
  by (simp add: wheel_shape_def wheel_simps)

lemma length_slots_set_slot [simp]:
  "length (slots (levels (set_slot l s ids w) ! l')) = length (slots (levels w ! l'))"
  unfolding set_slot_def by simp (rule nth_list_update_proj, simp)

lemma wheel_shape_set_slot [simp]: "wheel_shape (set_slot l s ids w) = wheel_shape w"
  by (simp add: wheel_shape_def wheel_simps)

lemma current_slot_set_slot [simp]:
  "current_slot (levels (set_slot l s ids w) ! l') = current_slot (levels w ! l')"
  unfolding set_slot_def by simp (rule nth_list_update_proj, simp)

lemma current_slot_set_current_slot:
  "l < length (levels w) \<Longrightarrow>
     current_slot (levels (set_current_slot l c w) ! l') = (if l' = l then c else current_slot (levels w ! l'))"
  by (auto simp: set_current_slot_def)

lemma slot_count_shape: "wheel_shape w \<Longrightarrow> l < 4 \<Longrightarrow> slot_count (levels w ! l) = level_size l"
  by (simp add: wheel_shape_def slot_count_def)

section \<open>Where a timer is placed\<close>

definition level_for :: "nat \<Rightarrow> nat" where
  "level_for diff = (if diff < 256 then 0 else if diff < 16384 then 1
                     else if diff < 1048576 then 2 else 3)"

definition slot_for :: "nat \<Rightarrow> nat \<Rightarrow> nat" where
  "slot_for l d = (d div gran l) mod level_size l"

lemma level_for_less [simp]: "level_for n < 4"
  by (simp add: level_for_def)

lemma slot_for_less [simp]: "slot_for l d < level_size l"
  by (simp add: slot_for_def)

lemma place_target:
  assumes cur: "current_time w = start_time w + ns_per_ms * int K" and dl: "start_time w \<le> dl"
  shows "place tid dl w = push_slot (level_for (dtick w dl - K)) (slot_for (level_for (dtick w dl - K)) (dtick w dl)) tid w"
proof -
  define d where "d = dtick w dl"
  have d: "int d = (dl - start_time w) div ns_per_ms"
    using dl by (simp add: d_def dtick_def ns_per_ms_def)
  have abs: "duration_cast_ms (dl - start_time w) = int d"
    using dl d by (simp add: duration_cast_ms_def)
  have "nat (if duration_cast_ms (dl - current_time w) < 0 then 0
             else duration_cast_ms (dl - current_time w)) = d - K"
  proof (cases "current_time w \<le> dl")
    case True
    have "(dl - current_time w) div ns_per_ms = (dl - start_time w) div ns_per_ms - int K"
      unfolding cur ns_per_ms_def by (simp add: algebra_simps) 
    with True d show ?thesis
      by (auto simp: duration_cast_ms_def ns_per_ms_def)
  next
    case False
    then have "int d \<le> int K"
      unfolding d cur ns_per_ms_def by linarith
    moreover have "duration_cast_ms (dl - current_time w) \<le> 0"
      using False by (intro duration_cast_ms_neg) simp
    ultimately show ?thesis by simp
  qed
  then show ?thesis
    using abs unfolding place_def Let_def geometry level_for_def slot_for_def d_def [symmetric]
    by (simp add: nat_and_255 nat_and_63 drop_bit_eq_div gran_def)
qed

section \<open>Placement of the live timers\<close>

definition placed_ok :: "(nat \<Rightarrow> nat \<Rightarrow> nat \<Rightarrow> bool) \<Rightarrow> wheel \<Rightarrow> bool" where
  "placed_ok P w \<longleftrightarrow>
     (\<forall>l < 4. \<forall>s < level_size l. \<forall>tid \<in> set (slot_ids w l s). \<forall>e.
        lookup tid w = Some e \<longrightarrow> P l s (dtick w (e_deadline e)))"

definition deadlines_ok :: "wheel \<Rightarrow> bool" where
  "deadlines_ok w \<longleftrightarrow> (\<forall>tid e. lookup tid w = Some e \<longrightarrow> start_time w \<le> e_deadline e)"

definition covered_or :: "timer_id list \<Rightarrow> wheel \<Rightarrow> bool" where
  "covered_or ids w \<longleftrightarrow>
     (\<forall>tid e. lookup tid w = Some e \<longrightarrow>
        tid \<in> set ids \<or> (\<exists>l < 4. \<exists>s < level_size l. tid \<in> set (slot_ids w l s)))"

text \<open>Every id in a slot has been handed out: it is live, or stale for ever.\<close>

definition known :: "timer_id \<Rightarrow> wheel \<Rightarrow> bool" where
  "known tid w \<longleftrightarrow> lookup tid w \<noteq> None \<or> stale tid w"

definition ids_known :: "wheel \<Rightarrow> bool" where
  "ids_known w \<longleftrightarrow> (\<forall>l < 4. \<forall>s < level_size l. \<forall>tid \<in> set (slot_ids w l s). known tid w)"

definition fits :: "(nat \<Rightarrow> nat \<Rightarrow> nat \<Rightarrow> bool) \<Rightarrow> nat \<Rightarrow> nat \<Rightarrow> bool" where
  "fits P K d \<longleftrightarrow> P (level_for (d - K)) (slot_for (level_for (d - K)) d) d"

lemma dtick_frame [simp]:
  "dtick (set_slot l s ids w) dl = dtick w dl" "dtick (set_current_slot l c w) dl = dtick w dl"
  "dtick (push_slot l s tid w) dl = dtick w dl" "dtick (replace_id tid w) dl = dtick w dl"
  "dtick (fold replace_id ids w) dl = dtick w dl" "dtick (cascade_slot l w) dl = dtick w dl"
  "dtick (w\<lparr>current_time := now\<rparr>) dl = dtick w dl" "dtick (release tid w) dl = dtick w dl"
  "dtick (w\<lparr>ready := r\<rparr>) dl = dtick w dl"
  by (simp_all add: dtick_def wheel_simps)

lemma slot_ids_frame [simp]:
  "slot_ids (w\<lparr>current_time := now\<rparr>) l s = slot_ids w l s"
  "slot_ids (w\<lparr>ready := r\<rparr>) l s = slot_ids w l s"
  by (simp_all add: slot_ids_def)

lemma wheel_shape_frame [simp]:
  "wheel_shape (w\<lparr>current_time := now\<rparr>) = wheel_shape w"
  "wheel_shape (w\<lparr>ready := r\<rparr>) = wheel_shape w"
  "wheel_shape (release tid w) = wheel_shape w"
  by (simp_all add: wheel_shape_def wheel_simps)

lemma placement_frame [simp]:
  "deadlines_ok (set_slot l s ids w) = deadlines_ok w"
  "deadlines_ok (set_current_slot l c w) = deadlines_ok w"
  "deadlines_ok (w\<lparr>current_time := now\<rparr>) = deadlines_ok w"
  "deadlines_ok (w\<lparr>ready := r\<rparr>) = deadlines_ok w"
  "placed_ok P (set_current_slot l c w) = placed_ok P w"
  "placed_ok P (w\<lparr>current_time := now\<rparr>) = placed_ok P w"
  "placed_ok P (w\<lparr>ready := r\<rparr>) = placed_ok P w"
  "covered_or js (set_current_slot l c w) = covered_or js w"
  "covered_or js (w\<lparr>current_time := now\<rparr>) = covered_or js w"
  "covered_or js (w\<lparr>ready := r\<rparr>) = covered_or js w"
  "ids_known (set_current_slot l c w) = ids_known w"
  "ids_known (w\<lparr>current_time := now\<rparr>) = ids_known w"
  by (simp_all add: deadlines_ok_def placed_ok_def covered_or_def ids_known_def known_def wheel_simps)

lemma known_frame [simp]:
  "known t (set_slot l s ids w) = known t w" "known t (push_slot l s tid w) = known t w"
  "known t (fold replace_id js w) = known t w" "known t (w\<lparr>ready := r\<rparr>) = known t w"
  "known t (set_current_slot l c w) = known t w"
  by (simp_all add: known_def wheel_simps)

lemma known_release: "known t w \<Longrightarrow> known t (release tid w)"
  using release_stale_self [of t w] by (auto simp: known_def release_lookup intro: release_stale)

lemma slot_ids_push_slot:
  assumes "wheel_shape w" "l < 4" "s < level_size l" "l' < 4"
  shows "slot_ids (push_slot l s tid w) l' s'
    = (if l' = l \<and> s' = s then slot_ids w l s @ [tid] else slot_ids w l' s')"
  using slot_ids_set_slot [OF assms] by (simp add: push_slot_def)

lemma replace_id_live:
  assumes "current_time w = start_time w + ns_per_ms * int K" "deadlines_ok w"
    and "lookup tid w = Some e" and "d = dtick w (e_deadline e)"
  shows "replace_id tid w = push_slot (level_for (d - K)) (slot_for (level_for (d - K)) d) tid w"
  using assms place_target [OF assms(1)] by (auto simp: replace_id_def deadlines_ok_def)

lemma replace_id_step:
  assumes shape: "wheel_shape w" and cur: "current_time w = start_time w + ns_per_ms * int K"
    and dl: "deadlines_ok w" and pl: "placed_ok P w"
    and fit: "\<And>e. lookup tid w = Some e \<Longrightarrow> fits P K (dtick w (e_deadline e))"
    and cov: "covered_or (tid # ids) w" and kn: "ids_known w"
  shows "wheel_shape (replace_id tid w) \<and> deadlines_ok (replace_id tid w) \<and> ids_known (replace_id tid w)
    \<and> placed_ok P (replace_id tid w) \<and> covered_or ids (replace_id tid w)
    \<and> (\<forall>l. current_slot (levels (replace_id tid w) ! l) = current_slot (levels w ! l))"
proof (cases "lookup tid w")
  case None
  then show ?thesis
    using assms by (auto simp: replace_id_def covered_or_def)
next
  case (Some e)
  define d where "d = dtick w (e_deadline e)"
  define l where "l = level_for (d - K)"
  define s where "s = slot_for l d"
  have ls: "l < 4" "s < level_size l" by (simp_all add: l_def s_def)
  have rw: "replace_id tid w = push_slot l s tid w"
    unfolding l_def s_def by (rule replace_id_live [OF cur dl Some d_def])
  have P: "P l s d"
    using fit [OF Some] by (simp add: fits_def d_def l_def s_def)
  have ids: "slot_ids (push_slot l s tid w) l' s'
      = (if l' = l \<and> s' = s then slot_ids w l s @ [tid] else slot_ids w l' s')"
    if "l' < 4" for l' s'
    using slot_ids_push_slot [OF shape ls that] .
  have "placed_ok P (push_slot l s tid w)"
    using pl P Some ids by (auto simp: placed_ok_def wheel_simps d_def)
  moreover have "covered_or ids (push_slot l s tid w)"
    unfolding covered_or_def
  proof (intro allI impI)
    fix t f
    assume "lookup t (push_slot l s tid w) = Some f"
    then have "t = tid \<or> t \<in> set ids \<or> (\<exists>l' < 4. \<exists>s' < level_size l'. t \<in> set (slot_ids w l' s'))"
      using cov by (auto simp: covered_or_def wheel_simps)
    moreover have "tid \<in> set (slot_ids (push_slot l s tid w) l s)"
      using ids [OF ls(1)] by simp
    moreover have "set (slot_ids w l' s') \<subseteq> set (slot_ids (push_slot l s tid w) l' s')" if "l' < 4" for l' s'
      using ids [OF that] by auto
    ultimately show "t \<in> set ids \<or>
        (\<exists>l' < 4. \<exists>s' < level_size l'. t \<in> set (slot_ids (push_slot l s tid w) l' s'))"
      using ls by blast
  qed
  moreover have "ids_known (push_slot l s tid w)"
    using kn Some ids by (auto simp: ids_known_def known_def wheel_simps)
  moreover have "deadlines_ok (push_slot l s tid w)"
    using dl by (simp add: deadlines_ok_def wheel_simps)
  ultimately show ?thesis
    using shape by (simp add: rw push_slot_def)
qed

lemma fold_replace_step:
  assumes "wheel_shape w" "current_time w = start_time w + ns_per_ms * int K"
    and "deadlines_ok w" "placed_ok P w"
    and "\<And>tid e. tid \<in> set ids \<Longrightarrow> lookup tid w = Some e \<Longrightarrow> fits P K (dtick w (e_deadline e))"
    and "covered_or ids w" "ids_known w"
  shows "wheel_shape (fold replace_id ids w) \<and> deadlines_ok (fold replace_id ids w)
    \<and> ids_known (fold replace_id ids w)
    \<and> placed_ok P (fold replace_id ids w) \<and> covered_or [] (fold replace_id ids w)
    \<and> (\<forall>l. current_slot (levels (fold replace_id ids w) ! l) = current_slot (levels w ! l))"
  using assms
proof (induction ids arbitrary: w)
  case Nil
  then show ?case by simp
next
  case (Cons tid ids)
  have fit: "fits P K (dtick w (e_deadline e))" if "lookup tid w = Some e" for e
    using Cons.prems(5) [OF _ that] by simp
  note step = replace_id_step [OF Cons.prems(1-4) fit Cons.prems(6,7)]
  have "wheel_shape (fold replace_id ids (replace_id tid w))
    \<and> deadlines_ok (fold replace_id ids (replace_id tid w))
    \<and> ids_known (fold replace_id ids (replace_id tid w))
    \<and> placed_ok P (fold replace_id ids (replace_id tid w))
    \<and> covered_or [] (fold replace_id ids (replace_id tid w))
    \<and> (\<forall>l. current_slot (levels (fold replace_id ids (replace_id tid w)) ! l)
         = current_slot (levels (replace_id tid w) ! l))"
    using step Cons.prems(2,5)
    by (intro Cons.IH) (auto simp: wheel_simps)
  then show ?case
    using step by simp
qed

end
