(* ===== verification/Wheel_Tick.thy ===== *)
theory Wheel_Tick
  imports Wheel_Invariant
begin

text \<open>
  One tick of the wheel keeps its invariant, and fires exactly the live timers that sit in the
  level 0 slot it processes. The proof follows the code: the cascade turns the coarse levels from
  the top down (\<open>cascade_mid\<close>), each of them handing its current slot down
  (\<open>cascade_slot_mid\<close>), then the firing loop empties the level 0 slot.
\<close>

section \<open>The invariant between ticks and within one\<close>

definition pos :: "nat \<Rightarrow> nat \<Rightarrow> nat \<Rightarrow> nat \<Rightarrow> bool" where
  "pos k l s d \<longleftrightarrow>
     s = slot_for l d \<and> cursor l k \<le> d div gran l \<and>
     (l < 3 \<longrightarrow> d div gran l < cursor l k + level_size l)"

definition mid :: "nat \<Rightarrow> nat \<Rightarrow> nat \<Rightarrow> nat \<Rightarrow> nat \<Rightarrow> bool" where
  "mid k L l s d \<longleftrightarrow>
     (if l < L
      then s = slot_for l d \<and> k \<le> d \<and> (l < 3 \<longrightarrow> d \<le> k + gran (Suc l)) \<and>
           (l = 0 \<longrightarrow> d = k + 256 \<longrightarrow> k mod 16384 = 0)
      else pos (Suc k) l s d)"

definition wheel_state ::
  "nat \<Rightarrow> (nat \<Rightarrow> nat) \<Rightarrow> (nat \<Rightarrow> nat \<Rightarrow> nat \<Rightarrow> bool) \<Rightarrow> wheel \<Rightarrow> bool" where
  "wheel_state K cur P w \<longleftrightarrow>
     table_inv w \<and> wheel_shape w \<and> current_time w = start_time w + ns_per_ms * int K \<and>
     (\<forall>l < 4. current_slot (levels w ! l) = cur l mod level_size l) \<and>
     deadlines_ok w \<and> placed_ok P w \<and> covered_or [] w \<and> ids_known w"

definition wheel_at :: "nat \<Rightarrow> wheel \<Rightarrow> bool" where
  "wheel_at k w \<longleftrightarrow> wheel_state k (\<lambda>l. cursor l k) (pos k) w"

definition wheel_mid :: "nat \<Rightarrow> nat \<Rightarrow> wheel \<Rightarrow> bool" where
  "wheel_mid k L w \<longleftrightarrow>
     wheel_state (Suc k) (\<lambda>l. cursor l (if l < L then k else Suc k)) (mid k L) w"

lemma placed_ok_mono:
  "placed_ok P w \<Longrightarrow>
     (\<And>l s d. l < 4 \<Longrightarrow> s < level_size l \<Longrightarrow> P l s d \<Longrightarrow> Q l s d) \<Longrightarrow> placed_ok Q w"
  unfolding placed_ok_def by blast

subsection \<open>The cursor\<close>

lemma cursor_dvd: "gran l dvd k \<Longrightarrow> cursor l k = k div gran l"
proof -
  assume "gran l dvd k"
  then obtain q where q: "k = gran l * q" by (rule dvdE)
  have "(gran l * q + gran l - 1) = (gran l - 1) + gran l * q"
    using gran_pos(1) [of l] by linarith
  also have "\<dots> div gran l = q"
    by (simp add: div_less)
  finally show ?thesis
    by (simp add: cursor_def q)
qed

lemma cursor_Suc: "cursor l (Suc k) = k div gran l + 1"
  by (simp add: cursor_def div_add_self2)

lemma cursor_Suc_not_dvd: "\<not> gran l dvd k \<Longrightarrow> cursor l (Suc k) = cursor l k"
proof -
  assume nd: "\<not> gran l dvd k"
  define g where "g = gran l"
  have g: "0 < g" by (simp add: g_def)
  have r: "0 < k mod g" "k mod g < g"
    using nd g by (auto simp: g_def dvd_eq_mod_eq_0)
  have "k + g - 1 = (k mod g - 1) + g * (k div g + 1)"
    using r mult_div_mod_eq [of g k] by simp
  also have "\<dots> div g = k div g + 1"
    using r g by (simp only: div_mult_self2) (simp add: div_less less_imp_diff_less)
  finally show ?thesis
    by (simp add: cursor_def g_def div_add_self2)
qed

lemma gran_dvd_mono: "l \<le> l' \<Longrightarrow> gran l dvd gran l'"
proof (induction l' rule: dec_induct)
  case (step n)
  then show ?case using gran_Suc [of n] by simp
qed simp

lemma gran_Suc_dvd: "gran l dvd k \<Longrightarrow> gran (Suc l) dvd k \<longleftrightarrow> cursor l k mod level_size l = 0"
proof -
  assume d: "gran l dvd k"
  then obtain q where q: "k = gran l * q" by (rule dvdE)
  have "gran (Suc l) dvd k \<longleftrightarrow> level_size l dvd q"
    by (simp add: q gran_Suc mult.commute [of "level_size l"])
  then show ?thesis
    using cursor_dvd [OF d] by (simp add: q dvd_eq_mod_eq_0)
qed

section \<open>Entering the cascade\<close>

lemma pos_mid:
  assumes "gran L dvd k" "L < 4" "\<And>l. L < l \<Longrightarrow> l < 4 \<Longrightarrow> \<not> gran l dvd k"
    and "l < 4" "pos k l s d"
  shows "mid k (Suc L) l s d"
proof (cases "l < Suc L")
  case False
  then have "cursor l (Suc k) = cursor l k"
    using assms by (intro cursor_Suc_not_dvd) auto
  then show ?thesis
    using False assms(5) by (simp add: mid_def pos_def)
next
  case True
  define g where "g = gran l"
  have g: "0 < g" by (simp add: g_def)
  have "gran l dvd k"
    using True assms(1) gran_dvd_mono [of l L] by (simp add: dvd_trans)
  then obtain q where q: "k = g * q" unfolding g_def by (rule dvdE)
  have c: "cursor l k = q"
    using cursor_dvd [OF \<open>gran l dvd k\<close>] q g by (simp add: g_def)
  have lo: "q \<le> d div g" and hi: "l < 3 \<Longrightarrow> d div g < q + level_size l"
    using assms(5) c by (simp_all add: pos_def g_def)
  have "g * q \<le> g * (d div g)" using lo by simp
  then have kd: "k \<le> d"
    using q by (metis le_trans times_div_less_eq_dividend)
  have ub: "d < k + gran (Suc l)" if "l < 3"
  proof -
    have "d < g * (q + level_size l)"
      using hi [OF that] g by (simp add: div_less_iff_less_mult mult.commute)
    then show ?thesis
      by (simp add: q gran_Suc g_def algebra_simps)
  qed
  have "d \<noteq> k + 256" if "l = 0"
    using ub that by simp
  then show ?thesis
    using True assms(5) kd ub by (auto simp: mid_def pos_def less_imp_le)
qed

lemma wheel_enter_mid:
  assumes "wheel_state (Suc k) (\<lambda>l. cursor l k) (pos k) w"
    and "gran L dvd k" "L < 4" "\<And>l. L < l \<Longrightarrow> l < 4 \<Longrightarrow> \<not> gran l dvd k"
  shows "wheel_mid k (Suc L) w"
proof -
  have "placed_ok (mid k (Suc L)) w"
    by (rule placed_ok_mono [of "pos k"])
      (use assms(1) pos_mid [OF assms(2-4)] in \<open>simp_all add: wheel_state_def\<close>)
  moreover have "cursor l (if l < Suc L then k else Suc k) = cursor l k" if "l < 4" for l
    using assms(4) [of l] that cursor_Suc_not_dvd [of l k] by (cases "l < Suc L") simp_all
  ultimately show ?thesis
    using assms(1) by (simp add: wheel_mid_def wheel_state_def)
qed

section \<open>The cascade of one level\<close>

lemma div_near:
  fixes g :: nat
  assumes "0 < g" "g dvd k" "k \<le> d" "d \<le> k + n * g"
  shows "k div g \<le> d div g" "d div g \<le> k div g + n" "k div g * g = k"
proof -
  show "k div g \<le> d div g" using assms(3) by (rule div_le_mono)
  have "d div g \<le> (k + n * g) div g" using assms(4) by (rule div_le_mono)
  also have "\<dots> = k div g + n" using assms(1) by simp
  finally show "d div g \<le> k div g + n" .
  show "k div g * g = k" using assms(2) by simp
qed

text \<open>A timer of level \<open>L\<close> that is not in the current slot is already where it belongs.\<close>

lemma mid_stays:
  assumes "gran L dvd k" "L < 4" "mid k (Suc L) L s d" "s \<noteq> cursor L k mod level_size L"
  shows "mid k L L s d"
proof -
  define q where "q = k div gran L"
  have s: "s = slot_for L d" and kd: "k \<le> d" and hi: "L < 3 \<Longrightarrow> d \<le> k + level_size L * gran L"
    using assms(3) by (simp_all add: mid_def gran_Suc)
  have "q \<le> d div gran L" using kd by (simp add: q_def div_le_mono)
  moreover have "q \<noteq> d div gran L"
    using assms(4) s by (auto simp: slot_for_def cursor_dvd [OF assms(1)] q_def)
  moreover have "d div gran L \<le> q + level_size L" if "L < 3"
    using div_near(2) [OF gran_pos(1) assms(1) kd hi [OF that]] by (simp add: q_def)
  ultimately show ?thesis
    using s by (auto simp: mid_def pos_def cursor_Suc q_def)
qed

text \<open>A timer of the current slot fits where \<open>place\<close> puts it again.\<close>

lemma level_for_bounds:
  "level_for n < 3 \<Longrightarrow> n < gran (Suc (level_for n))"
  "0 < level_for n \<Longrightarrow> gran (level_for n) \<le> n"
  by (auto simp: level_for_def gran_def split: if_splits)

lemma gran_mono: "l \<le> l' \<Longrightarrow> gran l \<le> gran l'"
  using gran_dvd_mono [of l l'] by (auto intro: dvd_imp_le)

lemma mid_fits_up:
  assumes dvd: "gran L dvd k" and L: "0 < L" "L < 4" and kd: "k \<le> d"
    and hi: "L < 3 \<Longrightarrow> d \<le> k + gran (Suc L)"
    and lv: "l = level_for (d - Suc k)" "L \<le> l"
  shows "mid k L l (slot_for l d) d"
proof -
  have l4: "l < 4" and l: "gran l \<le> d - Suc k"
    using lv L level_for_bounds(2) [of "d - Suc k"] by simp_all
  have "l = L"
  proof (rule ccontr)
    assume "l \<noteq> L"
    then have "Suc L \<le> l" "L < 3" using lv(2) l4 by simp_all
    then have "gran (Suc L) \<le> d - Suc k" using l gran_mono le_trans by blast
    with hi [OF \<open>L < 3\<close>] gran_pos(1) [of "Suc L"] show False by linarith
  qed
  moreover have "k div gran L + 1 \<le> d div gran L"
  proof -
    have "k + 1 * gran L \<le> d" using l [unfolded \<open>l = L\<close>] gran_pos(1) [of L] by linarith
    then have "(k + 1 * gran L) div gran L \<le> d div gran L" by (rule div_le_mono)
    then show ?thesis by (simp add: div_add_self2)
  qed
  moreover have "d div gran L \<le> k div gran L + level_size L" if "L < 3"
    using div_near(2) [OF gran_pos(1) dvd kd] hi [OF that] by (simp add: gran_Suc)
  ultimately show ?thesis
    by (auto simp: mid_def pos_def cursor_Suc)
qed

lemma mid_fits:
  assumes dvd: "gran L dvd k" and L: "0 < L" "L < 4"
    and m: "mid k (Suc L) L (cursor L k mod level_size L) d"
  shows "fits (mid k L) (Suc k) d"
proof -
  define l where "l = level_for (d - Suc k)"
  have kd: "k \<le> d" and hi: "L < 3 \<Longrightarrow> d \<le> k + gran (Suc L)"
    and s: "slot_for L d = k div gran L mod level_size L"
    using m by (simp_all add: mid_def cursor_dvd [OF dvd])
  show ?thesis
  proof (cases "L \<le> l")
    case True
    then show ?thesis
      using mid_fits_up [OF dvd L kd hi l_def] by (simp add: fits_def l_def)
  next
    case False
    then have lL: "l < L" by simp
    have "d \<le> k + gran (Suc l)"
      using level_for_bounds(1) [of "d - Suc k"] lL L by (simp add: l_def)
    moreover have "k mod 16384 = 0" if "d = k + 256"
    proof (cases "L = 1")
      case True
      have "(k div 256 + 1) mod 64 = k div 256 mod 64"
        using s that by (simp add: slot_for_def True div_add_self2)
      moreover have "(q + 1) mod 64 \<noteq> q mod 64" for q :: nat by (simp add: mod_Suc)
      ultimately show ?thesis by metis
    next
      case False
      then have "gran 2 dvd k" using L gran_dvd_mono [of 2 L] dvd dvd_trans by simp
      then show ?thesis by (simp add: dvd_eq_mod_eq_0)
    qed
    ultimately show ?thesis
      using lL kd unfolding fits_def l_def [symmetric] mid_def by simp
  qed
qed

lemma cascade_slot_mid:
  assumes w: "wheel_mid k (Suc L) w" and dvd: "gran L dvd k" and L: "0 < L" "L < 4"
  shows "wheel_mid k L (cascade_slot L w)"
proof -
  define c where "c = cursor L k mod level_size L"
  define w1 where "w1 = set_slot L c [] w"
  define w2 where "w2 = fold replace_id (slot_ids w L c) w1"
  note st = w [unfolded wheel_mid_def wheel_state_def]
  have c: "current_slot (levels w ! L) = c" "c < level_size L"
    using st L by (simp_all add: c_def)
  have shape: "wheel_shape w" and pl: "placed_ok (mid k (Suc L)) w" and cov: "covered_or [] w"
    using st by simp_all
  have ids: "slot_ids w1 l s = (if l = L \<and> s = c then [] else slot_ids w l s)" if "l < 4" for l s
    unfolding w1_def using slot_ids_set_slot [OF shape L(2) c(2) that] .
  have mid_eq: "mid k (Suc L) l s d \<Longrightarrow> l \<noteq> L \<Longrightarrow> mid k L l s d" for l s d
    by (simp add: mid_def split: if_splits)
  have pl1: "placed_ok (mid k L) w1"
    unfolding placed_ok_def
  proof (intro allI impI ballI)
    fix l s tid e
    assume a: "l < 4" "s < level_size l" "tid \<in> set (slot_ids w1 l s)" "lookup tid w1 = Some e"
    then have "\<not> (l = L \<and> s = c)" using ids [OF a(1), of s] by auto
    moreover from this have "tid \<in> set (slot_ids w l s)" using a ids [OF a(1), of s] by metis
    then have "mid k (Suc L) l s (dtick w (e_deadline e))"
      using a pl by (simp add: placed_ok_def w1_def wheel_simps)
    ultimately show "mid k L l s (dtick w1 (e_deadline e))"
      using mid_eq mid_stays [OF dvd L(2)] unfolding w1_def c_def by (cases "l = L") simp_all
  qed
  have fit1: "fits (mid k L) (Suc k) (dtick w1 (e_deadline e))"
    if "tid \<in> set (slot_ids w L c)" "lookup tid w1 = Some e" for tid e
    using that pl L c(2) mid_fits [OF dvd L]
    by (simp add: placed_ok_def w1_def wheel_simps c_def)
  have cov1: "covered_or (slot_ids w L c) w1"
    unfolding covered_or_def
  proof (intro allI impI)
    fix tid e
    assume "lookup tid w1 = Some e"
    then obtain l s where "l < 4" "s < level_size l" "tid \<in> set (slot_ids w l s)"
      using cov by (auto simp: covered_or_def w1_def wheel_simps)
    with ids [of l s] show "tid \<in> set (slot_ids w L c) \<or>
        (\<exists>l < 4. \<exists>s < level_size l. tid \<in> set (slot_ids w1 l s))"
      by (cases "l = L \<and> s = c") (auto 4 3)
  qed
  have base1: "wheel_shape w1" "current_time w1 = start_time w1 + ns_per_ms * int (Suc k)"
      "deadlines_ok w1" "\<And>l. current_slot (levels w1 ! l) = current_slot (levels w ! l)"
    using st by (simp_all add: w1_def wheel_simps)
  have kn1: "ids_known w1"
    using st ids by (auto simp: ids_known_def w1_def)
  note fold = fold_replace_step [OF base1(1-3) pl1 fit1 cov1 kn1, folded w2_def]
  have eq: "cascade_slot L w = set_current_slot L ((c + 1) mod level_size L) w2"
    unfolding cascade_slot_def Let_def c(1) w1_def [symmetric] w2_def [symmetric]
    using fold L c by (simp add: slot_count_shape base1(4))
  have cur: "(c + 1) mod level_size L = cursor L (Suc k) mod level_size L"
    by (simp add: c_def cursor_Suc cursor_dvd [OF dvd] mod_Suc_eq)
  have lev: "L < length (levels w2)" using fold L by (simp add: wheel_shape_def)
  have "current_slot (levels (cascade_slot L w) ! l)
      = cursor l (if l < L then k else Suc k) mod level_size l" if "l < 4" for l
    using st fold that cur
    by (cases "l = L") (simp_all add: eq current_slot_set_current_slot [OF lev] base1(4))
  then show ?thesis
    using st fold unfolding wheel_mid_def wheel_state_def
    by (simp add: eq wheel_simps) (simp add: w2_def w1_def wheel_simps)
qed

lemma cascade_mid:
  assumes "wheel_state (Suc k) (\<lambda>l. cursor l k) (pos k) w" "gran L dvd k" "0 < L" "L < 4"
  shows "wheel_mid k L (cascade L w)"
  using assms
proof (induction L w rule: cascade.induct)
  case (1 L w)
  define up where "up \<longleftrightarrow> current_slot (levels w ! L) = 0 \<and> L + 1 < kNumLevels"
  define w1 where "w1 = (if up then cascade (L + 1) w else w)"
  have up: "up \<longleftrightarrow> gran (Suc L) dvd k \<and> Suc L < 4"
    using "1.prems" gran_Suc_dvd [OF "1.prems"(2)] by (simp add: up_def wheel_state_def geometry)
  have "wheel_mid k (Suc L) w1"
  proof (cases up)
    case True
    then show ?thesis
      using "1.IH" [OF _ _ "1.prems"(1)] "1.prems"(4) up by (simp add: w1_def up_def geometry)
  next
    case False
    then have "\<not> gran l dvd k" if "L < l" "l < 4" for l
      using that up gran_dvd_mono [of "Suc L" l] dvd_trans by (metis Suc_leI le_less_trans)
    then show ?thesis
      using wheel_enter_mid [OF "1.prems"(1,2,4)] False by (simp add: w1_def)
  qed
  moreover have "cascade L w = cascade_slot L w1"
    using "1.prems"(4) by (subst cascade.simps) (simp add: w1_def up_def Let_def geometry)
  ultimately show ?case
    using cascade_slot_mid [OF _ "1.prems"(2-4)] by simp
qed

section \<open>The firing loop\<close>

definition pending_in :: "wait_mem \<Rightarrow> timer_entry \<Rightarrow> bool" where
  "pending_in mem e = (case e_state e of None \<Rightarrow> True | Some p \<Rightarrow> mem p = Pending)"

definition fired_by :: "(coro \<Rightarrow> bool) \<Rightarrow> wait_mem \<Rightarrow> timer_id \<Rightarrow> wheel \<Rightarrow> coro list" where
  "fired_by done mem tid w =
     (case lookup tid w of
        None \<Rightarrow> []
      | Some e \<Rightarrow> if pending_in mem e
                  then (case e_handle e of None \<Rightarrow> [] | Some c \<Rightarrow> if done c then [] else [c])
                  else [])"

definition mem_after :: "wait_mem \<Rightarrow> timer_id \<Rightarrow> wheel \<Rightarrow> wait_mem" where
  "mem_after mem tid w =
     (case lookup tid w of
        None \<Rightarrow> mem
      | Some e \<Rightarrow> if pending_in mem e
                  then (case e_state e of None \<Rightarrow> mem | Some p \<Rightarrow> mem(p := e_completion e))
                  else mem)"

lemma fired_by_cases:
  "fired_by done mem tid w = [] \<or>
     (\<exists>e c. lookup tid w = Some e \<and> e_handle e = Some c \<and> \<not> done c \<and> fired_by done mem tid w = [c])"
  by (auto simp: fired_by_def split: option.split)

lemma fired_by_live:
  "h \<in> set (fired_by done mem tid w) \<Longrightarrow>
     \<not> done h \<and> (\<exists>e. lookup tid w = Some e \<and> e_handle e = Some h)"
  using fired_by_cases [of "done" mem tid w] by auto

lemma fired_by_pending:
  "lookup tid w = Some e \<Longrightarrow> pending_in mem e \<Longrightarrow> e_handle e = Some h \<Longrightarrow> \<not> done h
     \<Longrightarrow> fired_by done mem tid w = [h]"
  by (simp add: fired_by_def)

lemma process_id_eq:
  "process_id done tid (n, mem, w) =
     (n + length (fired_by done mem tid w), mem_after mem tid w,
      release tid (w\<lparr>ready := ready w @ fired_by done mem tid w\<rparr>))"
  by (auto simp: process_id_def fired_by_def mem_after_def pending_in_def push_ready_def release_eq
      wheel_simps split: option.splits)

lemma process_id_step:
  assumes "process_id done tid (n, mem, w) = (n1, mem1, w1)"
  shows "n1 = n + length (fired_by done mem tid w)" "mem1 = mem_after mem tid w"
    "ready w1 = ready w @ fired_by done mem tid w"
    "lookup t w1 = (if t = tid then None else lookup t w)"
    "levels w1 = levels w" "start_time w1 = start_time w" "current_time w1 = current_time w"
    "table_inv w \<Longrightarrow> table_inv w1" "known t w \<Longrightarrow> known t w1"
  using assms
  by (auto simp: process_id_eq wheel_simps release_lookup intro!: release_inv known_release)

lemma process_fold_frame:
  assumes "fold (process_id done) ids (n, mem, w) = (n', mem', w')" "table_inv w"
  shows "table_inv w' \<and> levels w' = levels w \<and> start_time w' = start_time w \<and>
    current_time w' = current_time w \<and>
    (\<forall>t. lookup t w' = (if t \<in> set ids then None else lookup t w)) \<and>
    (\<forall>t. known t w \<longrightarrow> known t w')"
  using assms
proof (induction ids arbitrary: n mem w)
  case (Cons tid ids)
  obtain n1 mem1 w1 where st: "process_id done tid (n, mem, w) = (n1, mem1, w1)"
    by (cases "process_id done tid (n, mem, w)") auto
  show ?case
    using Cons.IH [of n1 mem1 w1] Cons.prems st process_id_step [OF st] by auto
qed simp

text \<open>What the loop appends to the ready queue, and what it writes into the wait states.\<close>

lemma process_fold_ready:
  assumes "fold (process_id done) ids (n, mem, w) = (n', mem', w')"
  shows "\<exists>hs. ready w' = ready w @ hs \<and> n' = n + length hs \<and>
    (\<forall>h \<in> set hs. \<not> done h \<and> (\<exists>tid \<in> set ids. \<exists>e. lookup tid w = Some e \<and> e_handle e = Some h))"
  using assms
proof (induction ids arbitrary: n mem w)
  case (Cons tid ids)
  obtain n1 mem1 w1 where st: "process_id done tid (n, mem, w) = (n1, mem1, w1)"
    by (cases "process_id done tid (n, mem, w)") auto
  note step = process_id_step [OF st]
  obtain hs where hs: "ready w' = ready w1 @ hs" "n' = n1 + length hs"
    and live: "\<forall>h \<in> set hs. \<not> done h \<and>
      (\<exists>t \<in> set ids. \<exists>e. lookup t w1 = Some e \<and> e_handle e = Some h)"
    using Cons.IH [of n1 mem1 w1] Cons.prems st by auto
  have "\<forall>h \<in> set (fired_by done mem tid w). \<not> done h \<and>
      (\<exists>e. lookup tid w = Some e \<and> e_handle e = Some h)"
    using fired_by_live by blast
  then have "\<forall>h \<in> set (fired_by done mem tid w @ hs). \<not> done h \<and>
      (\<exists>t \<in> set (tid # ids). \<exists>e. lookup t w = Some e \<and> e_handle e = Some h)"
    using live by (auto simp: step(4) split: if_splits)
  then show ?case
    using hs step(1,3) by (intro exI [of _ "fired_by done mem tid w @ hs"]) simp
qed simp

lemma process_fold_mem_settled:
  assumes "fold (process_id done) ids (n, mem, w) = (n', mem', w')" "mem p \<noteq> Pending"
  shows "mem' p = mem p"
  using assms
proof (induction ids arbitrary: n mem w)
  case (Cons tid ids)
  obtain n1 mem1 w1 where st: "process_id done tid (n, mem, w) = (n1, mem1, w1)"
    by (cases "process_id done tid (n, mem, w)") auto
  have "mem1 p = mem p"
    using Cons.prems(2) process_id_step(2) [OF st]
    by (auto simp: mem_after_def pending_in_def split: option.splits if_splits)
  then show ?case
    using Cons.IH [of n1 mem1 w1] Cons.prems st by auto
qed simp

lemma process_fold_mem_other:
  assumes "fold (process_id done) ids (n, mem, w) = (n', mem', w')"
    and "\<And>t e. t \<in> set ids \<Longrightarrow> lookup t w = Some e \<Longrightarrow> e_state e \<noteq> Some p"
  shows "mem' p = mem p"
  using assms
proof (induction ids arbitrary: n mem w)
  case (Cons tid ids)
  obtain n1 mem1 w1 where st: "process_id done tid (n, mem, w) = (n1, mem1, w1)"
    by (cases "process_id done tid (n, mem, w)") auto
  have "mem1 p = mem p"
    using Cons.prems(2) [of tid] process_id_step(2) [OF st]
    by (auto simp: mem_after_def split: option.splits)
  moreover have "mem' p = mem1 p"
    using Cons.prems st by (intro Cons.IH [of n1 mem1 w1]) (auto simp: process_id_step(4) [OF st] split: if_splits)
  ultimately show ?case by simp
qed simp

text \<open>
  A live timer of the slot is fired: its coroutine is queued unless it has finished, and the wait
  state it points to takes its completion, unless another party had settled that state before.
\<close>

lemma process_fold_fires:
  assumes "fold (process_id done) ids (n, mem, w) = (n', mem', w')"
    and "tid \<in> set ids" "lookup tid w = Some e" "pending_in mem e"
    and "\<And>t f p. t \<in> set ids \<Longrightarrow> t \<noteq> tid \<Longrightarrow> lookup t w = Some f \<Longrightarrow> e_state f = Some p \<Longrightarrow>
           e_state e \<noteq> Some p"
  shows "(\<forall>h. e_handle e = Some h \<longrightarrow> \<not> done h \<longrightarrow> h \<in> set (drop (length (ready w)) (ready w'))) \<and>
    (\<forall>p. e_state e = Some p \<longrightarrow> mem' p = e_completion e)"
  using assms
proof (induction ids arbitrary: n mem w)
  case (Cons i ids)
  obtain n1 mem1 w1 where st: "process_id done i (n, mem, w) = (n1, mem1, w1)"
    by (cases "process_id done i (n, mem, w)") auto
  note step = process_id_step [OF st]
  have fold: "fold (process_id done) ids (n1, mem1, w1) = (n', mem', w')"
    using Cons.prems(1) st by simp
  obtain hs where hs: "ready w' = ready w1 @ hs"
    using process_fold_ready [OF fold] by blast
  show ?case
  proof (cases "i = tid")
    case True
    have "mem' p = mem1 p" if "e_state e = Some p" for p
      using Cons.prems(5) that True
      by (intro process_fold_mem_other [OF fold]) (auto simp: step(4) split: if_splits)
    then show ?thesis
      using True Cons.prems(3,4) step(2,3) hs by (auto simp: fired_by_pending mem_after_def)
  next
    case False
    have "pending_in mem1 e"
      using Cons.prems(4,5) False step(2)
      by (auto simp: pending_in_def mem_after_def split: option.splits)
    then have IH: "(\<forall>h. e_handle e = Some h \<longrightarrow> \<not> done h \<longrightarrow> h \<in> set (drop (length (ready w1)) (ready w'))) \<and>
        (\<forall>p. e_state e = Some p \<longrightarrow> mem' p = e_completion e)"
      using False Cons.prems(2,3,5)
      by (intro Cons.IH [OF fold]) (auto simp: step(4) split: if_splits)
    then show ?thesis
      using hs step(3) by auto
  qed
qed simp

section \<open>One tick\<close>

lemma tick_mid:
  assumes "wheel_at k w"
  obtains w1 where "wheel_mid k 1 w1" "\<And>t. lookup t w1 = lookup t w" "ready w1 = ready w"
    "start_time w1 = start_time w" "\<And>t. known t w1 = known t w"
    "tick done mem w =
       (let (n, mem', w2) = fold (process_id done) (slot_ids w1 0 (k mod 256))
                              (0, mem, set_slot 0 (k mod 256) [] w1)
        in (n, mem', set_current_slot 0 (Suc k mod 256) w2))"
proof -
  define w0 where "w0 = w\<lparr>current_time := current_time w + kTickDuration\<rparr>"
  define w1 where "w1 = (if k mod 256 = 0 then cascade 1 w0 else w0)"
  have w0: "wheel_state (Suc k) (\<lambda>l. cursor l k) (pos k) w0"
    using assms by (simp add: wheel_at_def wheel_state_def w0_def wheel_simps kTickDuration_def
        algebra_simps)
  have c0: "current_slot (levels w0 ! 0) = k mod 256"
    using w0 by (simp add: wheel_state_def cursor_def)
  have mid: "wheel_mid k 1 w1"
  proof (cases "k mod 256 = 0")
    case True
    then show ?thesis
      using cascade_mid [OF w0, of 1] by (simp add: w1_def dvd_eq_mod_eq_0)
  next
    case False
    then have "\<not> gran l dvd k" if "0 < l" for l
      using that gran_dvd_mono [of 1 l] dvd_trans [of "gran 1" "gran l" k]
      by (auto simp: dvd_eq_mod_eq_0)
    then show ?thesis
      using wheel_enter_mid [OF w0, of 0] False by (simp add: w1_def)
  qed
  have c1: "current_slot (levels w1 ! 0) = k mod 256" and shape: "wheel_shape w1"
    using mid by (simp_all add: wheel_mid_def wheel_state_def cursor_def)
  have "tick done mem w =
       (let (n, mem', w2) = fold (process_id done) (slot_ids w1 0 (k mod 256))
                              (0, mem, set_slot 0 (k mod 256) [] w1)
        in (n, mem', set_current_slot 0 ((current_slot (levels w2 ! 0) + 1) mod 256) w2))"
    unfolding tick_def process_current_slot_def w0_def [symmetric] Let_def c0 w1_def [symmetric] c1
      geometry(2) ..
  moreover have "(current_slot (levels w2 ! 0) + 1) mod 256 = Suc k mod 256"
    if "fold (process_id done) ids (0, mem, set_slot 0 (k mod 256) [] w1) = (n, mem', w2)" for ids n mem' w2
    using process_fold_frame [OF that] mid c1
    by (simp add: wheel_mid_def wheel_state_def wheel_simps mod_Suc_eq)
  ultimately show ?thesis
    using mid that [of w1] by (simp add: w1_def w0_def known_def wheel_simps split: prod.splits)
qed

text \<open>The timers of the slot that a tick processes, and no others, are due.\<close>

lemma mid_slot_due:
  assumes "mid k 1 0 (k mod 256) d"
  shows "d = k \<or> (d = k + 256 \<and> k mod 16384 = 0)"
proof -
  have s: "k mod 256 = d mod 256" and d: "k \<le> d" "d \<le> k + 256"
    and e: "d = k + 256 \<Longrightarrow> k mod 16384 = 0"
    using assms by (auto simp: mid_def slot_for_def)
  from d have "d - k = 0 \<or> d - k = 256 \<or> (0 < d - k \<and> d - k < 256)" by linarith
  moreover have "256 dvd d - k" using mod_eq_dvd_iff_nat [OF d(1), of 256] s by simp
  ultimately have "d - k = 0 \<or> d - k = 256" by (auto dest: dvd_imp_le)
  then show ?thesis using d e by auto
qed

lemma mid_due_slot:
  assumes "mid k 1 l s k" "l < 4"
  shows "l = 0 \<and> s = k mod 256"
proof (cases "l = 0")
  case False
  then have "k div gran l + 1 \<le> k div gran l"
    using assms by (simp add: mid_def pos_def cursor_Suc)
  then show ?thesis by simp
qed (use assms in \<open>simp add: mid_def slot_for_def\<close>)

lemma mid_leaves_pos:
  assumes "mid k 1 l s d" "\<not> (l = 0 \<and> s = k mod 256)"
  shows "pos (Suc k) l s d"
proof (cases "l = 0")
  case True
  with assms have "k \<le> d" "d \<le> k + 256" "s = d mod 256" "s \<noteq> k mod 256"
    by (simp_all add: mid_def slot_for_def)
  moreover from this have "d \<noteq> k" "d \<noteq> k + 256" by auto
  ultimately show ?thesis
    using True by (simp add: pos_def slot_for_def cursor_def)
qed (use assms in \<open>simp add: mid_def\<close>)

text \<open>The slot a tick processes, as a list of ids, with what the tick leaves.\<close>

lemma tick_run:
  assumes "wheel_at k w" "tick done mem w = (n, mem', w')"
  obtains ids w0 w2 where "wheel_at (Suc k) w'" "start_time w' = start_time w"
    "\<And>t. lookup t w' = (if t \<in> set ids then None else lookup t w)"
    "\<And>t e. t \<in> set ids \<Longrightarrow> lookup t w = Some e \<Longrightarrow>
       dtick w (e_deadline e) = k \<or> (dtick w (e_deadline e) = k + 256 \<and> k mod 16384 = 0)"
    "\<And>t e. lookup t w = Some e \<Longrightarrow> dtick w (e_deadline e) = k \<Longrightarrow> t \<in> set ids"
    "fold (process_id done) ids (0, mem, w0) = (n, mem', w2)"
    "\<And>t. lookup t w0 = lookup t w" "ready w0 = ready w" "ready w2 = ready w'"
    "\<And>t. known t w \<Longrightarrow> known t w'"
proof -
  let ?c = "k mod 256"
  obtain w1 where m: "wheel_mid k 1 w1" and lk: "\<And>t. lookup t w1 = lookup t w"
    and rd: "ready w1 = ready w" and sta: "start_time w1 = start_time w"
    and kw: "\<And>t. known t w1 = known t w"
    and tk: "tick done mem w =
       (let (n, mem', w2) = fold (process_id done) (slot_ids w1 0 ?c) (0, mem, set_slot 0 ?c [] w1)
        in (n, mem', set_current_slot 0 (Suc k mod 256) w2))"
    using tick_mid [OF assms(1)] by metis
  define ids where "ids = slot_ids w1 0 ?c"
  define w0 where "w0 = set_slot 0 ?c [] w1"
  note st = m [unfolded wheel_mid_def wheel_state_def]
  obtain w2 where fold: "fold (process_id done) ids (0, mem, w0) = (n, mem', w2)"
    and w': "w' = set_current_slot 0 (Suc k mod 256) w2"
    using assms(2) tk unfolding ids_def w0_def by (auto simp: Let_def split: prod.splits)
  have fr: "table_inv w2" "levels w2 = levels w0" "start_time w2 = start_time w0"
    "current_time w2 = current_time w0"
    "\<And>t. lookup t w2 = (if t \<in> set ids then None else lookup t w)"
    "\<And>t. known t w1 \<Longrightarrow> known t w2"
    using process_fold_frame [OF fold] st lk by (simp_all add: w0_def wheel_simps)
  have dt: "dtick w2 dl = dtick w dl" "dtick w1 dl = dtick w dl" for dl
    using fr(3) sta by (simp_all add: dtick_def w0_def wheel_simps)
  have slots: "slot_ids w2 l s = (if l = 0 \<and> s = ?c then [] else slot_ids w1 l s)" if "l < 4" for l s
    using st that fr(2) slot_ids_set_slot [of w1 0 ?c l "[]" s] by (simp add: slot_ids_def w0_def)
  have due: "mid k 1 0 ?c (dtick w (e_deadline e))" if "t \<in> set ids" "lookup t w = Some e" for t e
    using st that by (simp add: placed_ok_def ids_def lk dt)
  have pl: "placed_ok (pos (Suc k)) w2"
    unfolding placed_ok_def
  proof (intro allI impI ballI)
    fix l s t e
    assume a: "l < 4" "s < level_size l" "t \<in> set (slot_ids w2 l s)" "lookup t w2 = Some e"
    then have ns: "\<not> (l = 0 \<and> s = ?c)" using slots [OF a(1), of s] by auto
    with a have "t \<in> set (slot_ids w1 l s)" "lookup t w1 = Some e"
      using slots [OF a(1), of s] by (auto simp: fr(5) lk split: if_splits)
    with a st have "mid k 1 l s (dtick w (e_deadline e))"
      by (simp add: placed_ok_def dt)
    with ns show "pos (Suc k) l s (dtick w2 (e_deadline e))"
      using mid_leaves_pos by (simp add: dt)
  qed
  have placed: "\<exists>l < 4. \<exists>s < level_size l. t \<in> set (slot_ids w1 l s) \<and> mid k 1 l s (dtick w (e_deadline e))"
    if "lookup t w = Some e" for t e
    using st that by (auto simp: covered_or_def placed_ok_def lk dt) blast
  have cov: "covered_or [] w2"
    unfolding covered_or_def
  proof (intro allI impI disjI2)
    fix t e
    assume "lookup t w2 = Some e"
    then have t: "t \<notin> set ids" "lookup t w = Some e" by (auto simp: fr(5) split: if_splits)
    then obtain l s where "l < 4" "s < level_size l" "t \<in> set (slot_ids w1 l s)"
      using placed by blast
    then show "\<exists>l < 4. \<exists>s < level_size l. t \<in> set (slot_ids w2 l s)"
      using t(1) slots [of l s] unfolding ids_def by (intro exI [of _ l] exI [of _ s]) auto
  qed
  have cs: "current_slot (levels w' ! l) = cursor l (Suc k) mod level_size l" if "l < 4" for l
    using that st fr(2) unfolding w'
    by (cases "l = 0") (simp_all add: current_slot_set_current_slot wheel_shape_def w0_def wheel_simps
        cursor_def)
  have "wheel_shape w2"
    using st wheel_shape_cong [OF fr(2)] by (simp add: w0_def)
  moreover have "ids_known w2"
    using st slots by (auto simp: ids_known_def intro!: fr(6))
  moreover have "deadlines_ok w2"
    using st fr(3,5) by (auto simp: deadlines_ok_def lk w0_def wheel_simps)
  ultimately have "wheel_at (Suc k) w'"
    using fr st pl cov cs unfolding wheel_at_def wheel_state_def
    by (simp add: w' wheel_simps) (simp add: w0_def wheel_simps)
  moreover have "t \<in> set ids" if "lookup t w = Some e" "dtick w (e_deadline e) = k" for t e
    using placed [OF that(1)] mid_due_slot that(2) unfolding ids_def by blast
  ultimately show ?thesis
    using that [of ids w0 w2] fold fr(3,5,6) due mid_slot_due sta lk rd kw
    by (simp add: w' w0_def wheel_simps)
qed

end
