(* ===== verification/Wheel_Run.thy ===== *)
theory Wheel_Run
  imports Wheel_Tick
begin

text \<open>
  The timer wheel over whole runs. Every operation keeps the invariant \<open>wheel_at\<close>, so over any
  sequence of \<open>schedule\<close>, \<open>cancel\<close> and \<open>tick\<close> a timer that nobody cancels is live until
  the tick of its deadline and is released by that tick (\<open>run_exact\<close>); \<open>advance_to\<close> and
  \<open>next_deadline\<close> are read off the same invariant. The one exception is a deadline
  tick that is 256 modulo 16384: such a timer can be released one turn of level 0 early
  (\<open>early_release\<close>).
\<close>

section \<open>Operations keep the invariant\<close>

lemma less_4_cases: "l < 4 \<Longrightarrow> l = 0 \<or> l = 1 \<or> l = 2 \<or> l = (3::nat)"
  by linarith

lemma new_wheel_levels:
  assumes "l < 4"
  shows "levels (new_wheel now) ! l = new_level (level_size l)"
  using less_4_cases [OF assms] by (auto simp: new_wheel_def geometry)

lemma new_wheel_at: "wheel_at 0 (new_wheel now)"
proof -
  have lk: "lookup t (new_wheel now) = None" for t
    by (simp add: lookup_def new_wheel_def Let_def)
  have "slot_ids (new_wheel now) l s = []" if "l < 4" "s < level_size l" for l s
    using that by (simp add: slot_ids_def new_wheel_levels new_level_def)
  moreover have "table_inv (new_wheel now)" "length (levels (new_wheel now)) = 4"
    "current_time (new_wheel now) = start_time (new_wheel now)"
    by (simp_all add: table_inv_def new_wheel_def)
  moreover have "cursor l 0 = 0" for l by (simp add: cursor_def)
  ultimately show ?thesis
    by (simp add: wheel_at_def wheel_state_def wheel_shape_def deadlines_ok_def placed_ok_def
        covered_or_def ids_known_def lk new_wheel_levels new_level_def)
qed

lemma fits_pos:
  assumes "k \<le> d"
  shows "fits (pos k) k d"
proof -
  define l where "l = level_for (d - k)"
  define g where "g = gran l"
  have g: "0 < g" by (simp add: g_def)
  have lo: "cursor l k \<le> d div g"
  proof (cases "l = 0")
    case True
    then show ?thesis using assms by (simp add: cursor_def g_def)
  next
    case False
    then have "k + g \<le> d"
      using level_for_bounds(2) [of "d - k"] assms g by (simp add: l_def [symmetric] g_def [symmetric])
    then have "k + g - 1 \<le> d" by simp
    then show ?thesis unfolding cursor_def g_def [symmetric] by (rule div_le_mono)
  qed
  have "d div g < cursor l k + level_size l" if "l < 3"
  proof -
    have "d < k + level_size l * g"
      using level_for_bounds(1) [of "d - k"] that assms gran_Suc [of l]
      by (simp add: l_def [symmetric] g_def [symmetric])
    moreover obtain m where m: "level_size l = Suc m" by (metis level_size_simps(4) gr0_implies_Suc)
    ultimately have "d \<le> (k + g - 1) + m * g" using g by (simp add: m)
    then have "d div g \<le> ((k + g - 1) + m * g) div g" by (rule div_le_mono)
    also have "\<dots> = cursor l k + m" using g by (simp add: cursor_def g_def)
    finally show ?thesis by (simp add: m)
  qed
  with lo show ?thesis by (simp add: fits_def pos_def l_def g_def)
qed

lemma alloc_entry_frame:
  assumes "alloc_entry dl h st c w = (tid, w')"
  shows "levels w' = levels w" "start_time w' = start_time w" "current_time w' = current_time w"
    "ready w' = ready w"
  using assms by (auto simp: alloc_entry_def take_index_def Let_def split: if_splits)

lemma schedule_at_run:
  assumes at: "wheel_at k w" and can: "can_alloc w" and dl: "current_time w \<le> dl"
    and sch: "schedule_at dl h st c w = (tid, w')"
  shows "wheel_at k w'" "lookup t w' = (if t = tid then Some (new_entry tid dl h st c) else lookup t w)"
    "lookup tid w = None" "start_time w' = start_time w" "ready w' = ready w"
    "current_time w' = current_time w" "known t w \<Longrightarrow> known t w' \<and> t \<noteq> tid"
proof -
  obtain w1 where al: "alloc_entry dl h st c w = (tid, w1)" and w': "w' = place tid dl w1"
    using sch by (auto simp: schedule_at_def Let_def split: prod.splits)
  note fr = alloc_entry_frame [OF al]
  note st = at [unfolded wheel_at_def wheel_state_def]
  have ti: "table_inv w" using st by simp
  have lk: "lookup t w1 = (if t = tid then Some (new_entry tid dl h st c) else lookup t w)" for t
    using alloc_entry_lookup [OF ti can al] by simp
  have rep: "w' = replace_id tid w1"
    by (simp add: w' replace_id_def lk new_entry_def)
  have cur: "current_time w = start_time w + ns_per_ms * int k" using st by simp
  have ge: "start_time w \<le> dl" using dl cur by (simp add: ns_per_ms_def)
  have sids: "slot_ids w1 l s = slot_ids w l s" for l s by (simp add: slot_ids_def fr)
  have dt: "dtick w1 x = dtick w x" for x by (simp add: dtick_def fr)
  have kd: "k \<le> dtick w dl"
  proof -
    have "(current_time w - start_time w) div ns_per_ms \<le> (dl - start_time w) div ns_per_ms"
      using dl by (intro zdiv_mono1) (simp_all add: ns_per_ms_def)
    then show ?thesis by (simp add: cur dtick_def ns_per_ms_def nat_le_iff le_nat_iff)
  qed
  have fresh: "lookup tid w = None" "\<not> known tid w"
    using alloc_entry_fresh [OF ti can al] by (simp_all add: known_def)
  then have new: "tid \<notin> set (slot_ids w l s)" if "l < 4" "s < level_size l" for l s
    using st that by (auto simp: ids_known_def)
  have kn1: "known t w1" if "known t w" for t
    using that alloc_entry_stale [OF ti can al, of t] lk [of t] by (auto simp: known_def)
  then have kn: "ids_known w1"
    using st by (simp add: ids_known_def sids)
  show "known t w' \<and> t \<noteq> tid" if "known t w"
    using that fresh(2) kn1 [OF that] by (auto simp: known_def w' wheel_simps)
  have base: "wheel_shape w1" "current_time w1 = start_time w1 + ns_per_ms * int k" "deadlines_ok w1"
    "placed_ok (pos k) w1" "covered_or [tid] w1"
    using st new ge wheel_shape_cong [OF fr(1)]
    by (auto simp: fr deadlines_ok_def placed_ok_def covered_or_def sids dt lk new_entry_def
        split: if_splits)
  have fit: "fits (pos k) k (dtick w1 (e_deadline e))" if "lookup tid w1 = Some e" for e
    using that kd by (auto simp: lk dt new_entry_def intro: fits_pos)
  note step = replace_id_step [OF base(1-4) fit base(5) kn]
  show "wheel_at k w'"
    using step st base(2) alloc_entry_inv [OF ti can al]
    by (simp add: wheel_at_def wheel_state_def rep wheel_simps fr)
  show "lookup tid w = None" by (fact fresh)
  show "lookup t w' = (if t = tid then Some (new_entry tid dl h st c) else lookup t w)"
    by (simp add: w' wheel_simps lk)
  show "start_time w' = start_time w" "ready w' = ready w" "current_time w' = current_time w"
    by (simp_all add: w' wheel_simps fr)
qed

lemma release_run:
  assumes "wheel_at k w"
  shows "wheel_at k (release tid w)"
proof -
  note st = assms [unfolded wheel_at_def wheel_state_def]
  have "placed_ok (pos k) (release tid w)" "covered_or [] (release tid w)" "deadlines_ok (release tid w)"
    "ids_known (release tid w)"
    using st known_release
    by (auto simp: placed_ok_def covered_or_def deadlines_ok_def ids_known_def wheel_simps release_lookup)
  then show ?thesis
    using st by (simp add: wheel_at_def wheel_state_def wheel_simps release_inv)
qed

lemma cancel_run:
  assumes "wheel_at k w" "cancel tid w = (b, w')"
  shows "wheel_at k w'" "b \<longleftrightarrow> lookup tid w \<noteq> None"
    "lookup t w' = (if t = tid then None else lookup t w)" "start_time w' = start_time w"
    "current_time w' = current_time w"
  using assms release_run [OF assms(1)] by (auto simp: cancel_eq release_lookup wheel_simps)

lemma tick_run_lookup:
  assumes "wheel_at k w" "tick done mem w = (n, mem', w')"
  shows "wheel_at (Suc k) w'" "start_time w' = start_time w"
    "lookup t w' = None \<or> lookup t w' = lookup t w"
    "lookup t w = Some e \<Longrightarrow> dtick w (e_deadline e) = k \<Longrightarrow> lookup t w' = None"
    "lookup t w = Some e \<Longrightarrow> lookup t w' = None \<Longrightarrow>
       dtick w (e_deadline e) = k \<or> (dtick w (e_deadline e) = k + 256 \<and> k mod 16384 = 0)"
    "known t w \<Longrightarrow> known t w'"
  by (rule tick_run [OF assms]; simp; metis option.distinct(1))+

section \<open>Runs\<close>

text \<open>
  A run is a list of operations on a wheel: a scheduling request with its arguments, the
  cancellation of an id, or a tick. A request is admissible when its delay is not negative and the
  slot table can still allocate.
\<close>

datatype wheel_op = Schedule duration handle state_ptr wait_state | Cancel timer_id | Tick

fun wheel_step :: "(coro \<Rightarrow> bool) \<Rightarrow> wheel_op \<Rightarrow> wait_mem \<times> wheel \<Rightarrow> wait_mem \<times> wheel" where
  "wheel_step done (Schedule delay h st c) (mem, w) = (mem, snd (schedule delay h st c w))"
| "wheel_step done (Cancel tid) (mem, w) = (mem, snd (cancel tid w))"
| "wheel_step done Tick (mem, w) = snd (tick done mem w)"

fun wheel_ops :: "(coro \<Rightarrow> bool) \<Rightarrow> wheel_op list \<Rightarrow> wait_mem \<times> wheel \<Rightarrow> wait_mem \<times> wheel" where
  "wheel_ops done [] mw = mw"
| "wheel_ops done (op # ops) mw = wheel_ops done ops (wheel_step done op mw)"

fun ops_ok :: "(coro \<Rightarrow> bool) \<Rightarrow> wheel_op list \<Rightarrow> wait_mem \<times> wheel \<Rightarrow> bool" where
  "ops_ok done [] mw = True"
| "ops_ok done (op # ops) mw =
     ((case op of Schedule delay h st c \<Rightarrow> 0 \<le> delay \<and> can_alloc (snd mw) | _ \<Rightarrow> True)
      \<and> ops_ok done ops (wheel_step done op mw))"

definition tick_count :: "wheel_op list \<Rightarrow> nat" where
  "tick_count ops = length (filter ((=) Tick) ops)"

lemma wheel_step_run:
  assumes "wheel_at k w" "ops_ok done [op] (mem, w)" "wheel_step done op (mem, w) = (mem', w')"
  shows "wheel_at (k + tick_count [op]) w'" "start_time w' = start_time w"
    "op \<noteq> Tick \<Longrightarrow> op \<noteq> Cancel t \<Longrightarrow> lookup t w = Some e \<Longrightarrow> lookup t w' = Some e"
    "known t w \<Longrightarrow> known t w' \<and> (lookup t w' = None \<or> lookup t w' = lookup t w)"
proof -
  have "wheel_at (k + tick_count [op]) w' \<and> start_time w' = start_time w \<and>
    (op \<noteq> Tick \<longrightarrow> op \<noteq> Cancel t \<longrightarrow> lookup t w = Some e \<longrightarrow> lookup t w' = Some e) \<and>
    (known t w \<longrightarrow> known t w' \<and> (lookup t w' = None \<or> lookup t w' = lookup t w))"
  proof (cases op)
    case (Schedule delay h st c)
    obtain tid w1 where sch: "schedule_at (current_time w + delay) h st c w = (tid, w1)"
      by (cases "schedule_at (current_time w + delay) h st c w")
    then have "w' = w1" using assms(3) Schedule by (simp add: schedule_def)
    then show ?thesis
      using schedule_at_run [OF assms(1) _ _ sch] assms(2) Schedule
      by (auto simp: tick_count_def)
  next
    case (Cancel tid)
    then show ?thesis
      using assms(3) release_run [OF assms(1)] known_release [of t w tid]
      by (auto simp: tick_count_def cancel_eq release_lookup wheel_simps)
  next
    case Tick
    then obtain n where tk: "tick done mem w = (n, mem', w')"
      using assms(3) by (cases "tick done mem w") simp
    show ?thesis
      using tick_run_lookup(1,2,3,6) [OF assms(1) tk] Tick by (simp add: tick_count_def)
  qed
  then show "wheel_at (k + tick_count [op]) w'" "start_time w' = start_time w"
    "op \<noteq> Tick \<Longrightarrow> op \<noteq> Cancel t \<Longrightarrow> lookup t w = Some e \<Longrightarrow> lookup t w' = Some e"
    "known t w \<Longrightarrow> known t w' \<and> (lookup t w' = None \<or> lookup t w' = lookup t w)" by auto
qed

lemma tick_count_Cons: "tick_count (op # ops) = tick_count [op] + tick_count ops"
  by (simp add: tick_count_def)

lemma wheel_ops_at:
  assumes "wheel_at k w" "ops_ok done ops (mem, w)" "wheel_ops done ops (mem, w) = (mem', w')"
  shows "wheel_at (k + tick_count ops) w' \<and> start_time w' = start_time w"
  using assms
proof (induction ops arbitrary: k mem w)
  case (Cons op ops)
  obtain mem1 w1 where st: "wheel_step done op (mem, w) = (mem1, w1)"
    by (cases "wheel_step done op (mem, w)")
  have "wheel_at (k + tick_count [op]) w1" "start_time w1 = start_time w"
    using wheel_step_run(1,2) [OF Cons.prems(1) _ st] Cons.prems(2) by auto
  then show ?case
    using Cons.IH [of "k + tick_count [op]" w1 mem1] Cons.prems(2,3) st
    by (simp add: tick_count_Cons [of op ops] add.assoc)
qed (simp add: tick_count_def)

lemma wheel_at_due:
  assumes "wheel_at k w" "lookup t w = Some e"
  shows "k \<le> dtick w (e_deadline e)"
proof -
  let ?d = "dtick w (e_deadline e)"
  obtain l s where "l < 4" "pos k l s ?d"
    using assms unfolding wheel_at_def wheel_state_def covered_or_def placed_ok_def
    by (metis empty_iff empty_set)
  then have "(k + gran l - 1) div gran l \<le> ?d div gran l" by (simp add: pos_def cursor_def)
  then have "(k + gran l - 1) div gran l * gran l \<le> ?d"
    by (meson div_times_less_eq_dividend le_trans mult_le_mono1)
  moreover have "k \<le> (k + gran l - 1) div gran l * gran l"
    using div_mult_mod_eq [of "k + gran l - 1" "gran l"] mod_less_divisor [OF gran_pos(1), of "k + gran l - 1" l]
    by linarith
  ultimately show ?thesis by simp
qed

lemma wheel_ops_expired:
  assumes "wheel_at k w" "ops_ok done ops (mem, w)" "wheel_ops done ops (mem, w) = (mem', w')"
    and "known t w" "\<And>e. lookup t w = Some e \<Longrightarrow> dtick w (e_deadline e) < k + tick_count ops"
  shows "lookup t w' = None"
  using assms
proof (induction ops arbitrary: k mem w)
  case Nil
  then show ?case
    using wheel_at_due [OF Nil.prems(1), of t] by (cases "lookup t w") (auto simp: tick_count_def)
next
  case (Cons op ops)
  obtain mem1 w1 where st: "wheel_step done op (mem, w) = (mem1, w1)"
    by (cases "wheel_step done op (mem, w)")
  have ok: "ops_ok done [op] (mem, w)" using Cons.prems(2) by simp
  note step = wheel_step_run [OF Cons.prems(1) ok st]
  have "dtick w1 (e_deadline e) < k + tick_count [op] + tick_count ops" if "lookup t w1 = Some e" for e
    using Cons.prems(5) [of e] that step(2) step(4) [OF Cons.prems(4)]
    by (auto simp: dtick_def tick_count_Cons [of op ops] add.assoc)
  then show ?case
    using Cons.IH [OF step(1), of mem1] Cons.prems(2,3) st step(4) [OF Cons.prems(4)] by simp
qed

text \<open>While the clock is short of the deadline by more than a turn of level 0, a timer stays live.\<close>

lemma wheel_ops_live:
  assumes "wheel_at k w" "ops_ok done ops (mem, w)" "wheel_ops done ops (mem, w) = (mem', w')"
    and "lookup t w = Some e" "Cancel t \<notin> set ops"
    and "k + tick_count ops \<le> dtick w (e_deadline e)"
    and "dtick w (e_deadline e) mod 16384 \<noteq> 256 \<or> k + tick_count ops + 256 \<le> dtick w (e_deadline e)"
  shows "lookup t w' = Some e"
  using assms
proof (induction ops arbitrary: k mem w)
  case (Cons op ops)
  let ?d = "dtick w (e_deadline e)"
  obtain mem1 w1 where st: "wheel_step done op (mem, w) = (mem1, w1)"
    by (cases "wheel_step done op (mem, w)")
  have ok: "ops_ok done [op] (mem, w)" using Cons.prems(2) by simp
  note step = wheel_step_run [OF Cons.prems(1) ok st]
  have dt: "dtick w1 (e_deadline e) = ?d" using step(2) by (simp add: dtick_def)
  have "lookup t w1 = Some e"
  proof (cases "op = Tick")
    case False
    then show ?thesis using step(3) Cons.prems(4,5) by auto
  next
    case True
    then obtain n where tk: "tick done mem w = (n, mem1, w1)"
      using st by (cases "tick done mem w") simp
    have lt: "k < ?d"
      using Cons.prems(6) True by (simp add: tick_count_Cons [of op ops] tick_count_def)
    have "lookup t w1 \<noteq> None"
    proof
      assume "lookup t w1 = None"
      then have "?d = k + 256" "k mod 16384 = 0"
        using tick_run_lookup(5) [OF Cons.prems(1) tk Cons.prems(4)] lt by auto
      then have "?d mod 16384 = 256" using mod_add_left_eq [of k 16384 256] by simp
      moreover have "\<not> k + tick_count (op # ops) + 256 \<le> ?d"
        using \<open>?d = k + 256\<close> True by (simp add: tick_count_def)
      ultimately show False using Cons.prems(7) by blast
    qed
    then show ?thesis
      using tick_run_lookup(3) [OF Cons.prems(1) tk, of t] Cons.prems(4) by auto
  qed
  then show ?case
    using Cons.IH [OF step(1), of mem1] Cons.prems st
    by (simp add: dt tick_count_Cons [of op ops] add.assoc)
qed simp

section \<open>Advancing\<close>

lemma advance_to_ops:
  assumes "advance_to done target mem w = (n, mem', w')"
  shows "\<exists>m. wheel_ops done (replicate m Tick) (mem, w) = (mem', w') \<and>
    current_time w' = current_time w + kTickDuration * int m \<and>
    target \<le> current_time w' \<and> (0 < m \<longrightarrow> current_time w' < target + kTickDuration)"
  using assms
proof (induction "done" target mem w arbitrary: n rule: advance_to.induct)
  case (1 "done" target mem w)
  show ?case
  proof (cases "current_time w < target")
    case False
    with "1.prems" show ?thesis
      by (intro exI [of _ 0]) (simp add: advance_to.simps [of "done" target mem w])
  next
    case True
    obtain n1 mem1 w1 where tk: "tick done mem w = (n1, mem1, w1)"
      by (cases "tick done mem w") auto
    obtain n2 where adv: "advance_to done target mem1 w1 = (n2, mem', w')"
      using "1.prems" True tk
      by (auto simp: advance_to.simps [of "done" target mem w] split: prod.splits)
    obtain m where m: "wheel_ops done (replicate m Tick) (mem1, w1) = (mem', w')"
      "current_time w' = current_time w1 + kTickDuration * int m" "target \<le> current_time w'"
      "0 < m \<longrightarrow> current_time w' < target + kTickDuration"
      using "1.IH" [OF True tk [symmetric] refl refl adv] by blast
    have "current_time w1 = current_time w + kTickDuration"
      using tick_current_time [of "done" mem w] tk by simp
    then show ?thesis
      using m tk True by (intro exI [of _ "Suc m"]) (cases m, auto simp: algebra_simps)
  qed
qed

lemma ops_ok_ticks: "ops_ok done (replicate m Tick) mw"
  by (induction m arbitrary: mw) simp_all

lemma tick_count_ticks [simp]: "tick_count (replicate m Tick) = m"
  by (induction m) (simp_all add: tick_count_def)

text \<open>
  \<open>advance_to\<close> stops at the first tick that is not before the target; every timer whose deadline
  lies before the target has been released, and a timer due at the target or later, one turn of
  level 0 away or not of the exceptional kind, is still there.
\<close>

lemma advance_to_run:
  assumes at: "wheel_at k w" and adv: "advance_to done target mem w = (n, mem', w')"
  shows "\<exists>m. wheel_at (k + m) w'" "start_time w' = start_time w" "target \<le> current_time w'"
    "lookup t w = Some e \<Longrightarrow> e_deadline e < target \<Longrightarrow> lookup t w' = None"
    "lookup t w = Some e \<Longrightarrow> current_time w' \<le> e_deadline e \<Longrightarrow>
       dtick w (e_deadline e) mod 16384 \<noteq> 256 \<Longrightarrow> lookup t w' = Some e"
proof -
  obtain m where m: "wheel_ops done (replicate m Tick) (mem, w) = (mem', w')"
    "target \<le> current_time w'"
    using advance_to_ops [OF adv] by blast
  note at' = wheel_ops_at [OF at ops_ok_ticks m(1), simplified]
  then show "\<exists>m. wheel_at (k + m) w'" "start_time w' = start_time w" "target \<le> current_time w'"
    using m by auto
  have cur: "current_time w' = start_time w + ns_per_ms * int (k + m)"
    using at' by (simp add: wheel_at_def wheel_state_def)
  have sd: "start_time w \<le> e_deadline e" if "lookup t w = Some e" for e
    using at that by (simp add: wheel_at_def wheel_state_def deadlines_ok_def)
  have dt: "dtick w (e_deadline e) < k + m \<longleftrightarrow> e_deadline e < current_time w'"
    if "lookup t w = Some e" for e
    using sd [OF that] unfolding cur dtick_def ns_per_ms_def
    by (auto simp: nat_less_iff pos_imp_zdiv_nonneg_iff)
  show "lookup t w' = None" if "lookup t w = Some e" "e_deadline e < target"
    by (rule wheel_ops_expired [OF at ops_ok_ticks m(1)]) (use that m(2) dt in \<open>auto simp: known_def\<close>)
  show "lookup t w' = Some e" if "lookup t w = Some e" "current_time w' \<le> e_deadline e"
    "dtick w (e_deadline e) mod 16384 \<noteq> 256"
    using wheel_ops_live [OF at ops_ok_ticks m(1) that(1)] that(2,3) dt [OF that(1)] by auto
qed

section \<open>The next deadline\<close>

lemma active_count_zero:
  assumes "table_inv t"
  shows "active_count t = 0 \<longleftrightarrow> (\<forall>tid. lookup tid t = None)"
proof
  assume "active_count t = 0"
  then show "\<forall>tid. lookup tid t = None"
    using release_active_count [OF _ assms] by (metis add_is_0 one_neq_zero option.exhaust)
next
  assume none: "\<forall>tid. lookup tid t = None"
  show "active_count t = 0"
  proof (rule ccontr)
    assume "active_count t \<noteq> 0"
    then have "filter s_active (slotmap t) \<noteq> []" using assms by (auto simp: table_inv_def)
    then obtain i where i: "i < length (slotmap t)" "s_active (slotmap t ! i)"
      by (auto simp: filter_empty_conv in_set_conv_nth)
    define g where "g = s_generation (slotmap t ! i)"
    have "length (slotmap t) \<le> 2 ^ 24" "unat g < 2 ^ 40"
      using assms i by (auto simp: table_inv_def g_def)
    moreover from this have "unat (of_nat i :: u32) = i"
      using i by (simp add: unat_of_nat take_bit_nat_eq_self)
    ultimately have "lookup (encode_id (of_nat i) g) t \<noteq> None"
      using i by (simp add: lookup_def Let_def id_index_encode id_gen_encode g_def)
    with none show False by simp
  qed
qed

lemma first_some_eq_Some: "first_some f xs = Some y \<Longrightarrow> \<exists>x \<in> set xs. f x = Some y"
  by (induction xs) (auto split: option.splits)

lemma first_some_eq_None: "first_some f xs = None \<longleftrightarrow> (\<forall>x \<in> set xs. f x = None)"
  by (induction xs) (auto split: option.splits)

lemma first_deadline_Some:
  "first_deadline w ids = Some t \<Longrightarrow> \<exists>tid \<in> set ids. \<exists>e. lookup tid w = Some e \<and> e_deadline e = t"
  using first_some_eq_Some [of "\<lambda>tid. map_option e_deadline (lookup tid w)" ids t]
  by (auto simp: first_deadline_def)

lemma first_deadline_None: "first_deadline w ids = None \<longleftrightarrow> (\<forall>tid \<in> set ids. lookup tid w = None)"
  by (simp add: first_deadline_def first_some_eq_None)

lemma earliest_deadline_snoc:
  "earliest_deadline w (ids @ [tid]) =
     (case lookup tid w of
        None \<Rightarrow> earliest_deadline w ids
      | Some e \<Rightarrow> (case earliest_deadline w ids of
                      None \<Rightarrow> Some (e_deadline e)
                    | Some t \<Rightarrow> Some (min t (e_deadline e))))"
  by (auto simp: earliest_deadline_def min_def split: option.split)

lemma earliest_deadline_None:
  "earliest_deadline w ids = None \<longleftrightarrow> (\<forall>tid \<in> set ids. lookup tid w = None)"
  by (induction ids rule: rev_induct)
    (simp add: earliest_deadline_def, auto simp: earliest_deadline_snoc split: option.splits)

text \<open>Within one slot the scan does find the minimum.\<close>

lemma earliest_deadline_Some:
  "earliest_deadline w ids = Some t \<Longrightarrow>
     (\<exists>tid \<in> set ids. \<exists>e. lookup tid w = Some e \<and> e_deadline e = t) \<and>
     (\<forall>tid \<in> set ids. \<forall>e. lookup tid w = Some e \<longrightarrow> t \<le> e_deadline e)"
proof (induction ids arbitrary: t rule: rev_induct)
  case Nil
  then show ?case by (simp add: earliest_deadline_def)
next
  case (snoc tid ids)
  show ?case
  proof (cases "lookup tid w")
    case None
    with snoc show ?thesis by (simp add: earliest_deadline_snoc)
  next
    case (Some e)
    show ?thesis
    proof (cases "earliest_deadline w ids")
      case None
      with snoc.prems Some have "t = e_deadline e" "\<forall>tid \<in> set ids. lookup tid w = None"
        by (simp_all add: earliest_deadline_snoc earliest_deadline_None)
      with Some show ?thesis by auto
    next
      case (Some t')
      with snoc.prems \<open>lookup tid w = Some e\<close> have "t = min t' (e_deadline e)"
        by (simp add: earliest_deadline_snoc)
      with snoc.IH [OF Some] \<open>lookup tid w = Some e\<close> show ?thesis
        by (auto simp: min_def)
    qed
  qed
qed

lemma mod_rotate:
  fixes c n s :: nat
  assumes "s < n"
  shows "(c + (s + n - c mod n) mod n) mod n = s"
proof -
  have "c mod n \<le> n" using assms by (simp add: less_imp_le)
  then have "c + (s + n - c mod n) = s + n * (c div n + 1)"
    using mult_div_mod_eq [of n c] by (simp only: distrib_left)
  then show ?thesis
    using assms by (simp add: mod_add_right_eq) (metis mod_less mod_mult_self2 mult_Suc_right)
qed

lemma set_scan_order:
  assumes "0 < slot_count l"
  shows "set (scan_order l) = {..< slot_count l}"
proof -
  have "s \<in> (\<lambda>i. (current_slot l + i) mod slot_count l) ` {0..< slot_count l}" if "s < slot_count l" for s
    by (rule image_eqI [where x = "(s + slot_count l - current_slot l mod slot_count l) mod slot_count l"])
      (use mod_rotate [OF that] assms in simp_all)
  then show ?thesis
    using assms unfolding scan_order_def by auto
qed

text \<open>
  \<open>next_deadline\<close> answers \<open>None\<close> exactly when no timer is live, and otherwise the deadline of
  some live timer.
\<close>

lemma next_deadline_run:
  assumes at: "wheel_at k w"
  shows "next_deadline w = None \<longleftrightarrow> (\<forall>tid. lookup tid w = None)"
    and "next_deadline w = Some t \<Longrightarrow> \<exists>tid e. lookup tid w = Some e \<and> e_deadline e = t"
proof -
  note st = at [unfolded wheel_at_def wheel_state_def]
  have scan: "set (scan_order (levels w ! l)) = {..< level_size l}" if "l < 4" for l
    using st that set_scan_order [of "levels w ! l"] by (simp add: slot_count_shape)
  have lv: "set [1..<kNumLevels] = {1, 2, 3}" by (auto simp: geometry)
  show "\<exists>tid e. lookup tid w = Some e \<and> e_deadline e = t" if "next_deadline w = Some t"
    using that unfolding next_deadline_def
    by (auto split: if_splits option.splits dest!: first_some_eq_Some first_deadline_Some
        earliest_deadline_Some)
  show "next_deadline w = None \<longleftrightarrow> (\<forall>tid. lookup tid w = None)"
  proof
    assume "\<forall>tid. lookup tid w = None"
    then show "next_deadline w = None"
      using active_count_zero [of w] st by (simp add: next_deadline_def)
  next
    assume nd: "next_deadline w = None"
    show "\<forall>tid. lookup tid w = None"
    proof (cases "active_count w = 0")
      case True
      then show ?thesis using active_count_zero [of w] st by blast
    next
      case False
      have "lookup tid w = None" if l: "l < 4" "s < level_size l" "tid \<in> set (slot_ids w l s)" for l s tid
      proof -
        consider "l = 0" | "l = 1" | "l = 2" | "l = 3" using less_4_cases [OF l(1)] by blast
        then show ?thesis
          by cases (use nd False l(2,3) scan lv in
            \<open>auto simp: next_deadline_def first_some_eq_None first_deadline_None earliest_deadline_None
              split: option.splits\<close>)
      qed
      then show ?thesis
        using st unfolding covered_or_def by (metis empty_iff empty_set not_None_eq)
    qed
  qed
qed

end
