(* ===== verification/Wheel_Early.thy ===== *)
theory Wheel_Early
  imports Wheel_Run
begin

text \<open>
  The exception to exact firing. A timer of level 2 whose deadline is 256 ticks after a multiple
  of 16384 is handed down by the cascade of that multiple with 255 ticks to go, so \<open>place\<close> puts
  it into the very slot of level 0 that the same tick is about to process: it is released 255 ticks
  before its deadline.
\<close>

section \<open>What a cascade keeps in its slots\<close>

lemma slot_ids_push_slot_mono:
  "wheel_shape w \<Longrightarrow> l < 4 \<Longrightarrow> s < level_size l \<Longrightarrow>
     set (slot_ids w l s) \<subseteq> set (slot_ids (push_slot l' s' tid w) l s)"
  by (auto simp: push_slot_def set_slot_def slot_ids_def wheel_shape_def nth_list_update_if)

lemma wheel_shape_replace_id [simp]: "wheel_shape (replace_id tid w) = wheel_shape w"
  by (simp add: replace_id_def place_def Let_def push_slot_def split: option.split)

lemma wheel_shape_fold_replace [simp]: "wheel_shape (fold replace_id ids w) = wheel_shape w"
  by (induction ids arbitrary: w) simp_all

lemma current_slot_replace_id [simp]:
  "current_slot (levels (replace_id tid w) ! l) = current_slot (levels w ! l)"
  by (simp add: replace_id_def place_def Let_def push_slot_def split: option.split)

lemma current_slot_fold_replace [simp]:
  "current_slot (levels (fold replace_id ids w) ! l) = current_slot (levels w ! l)"
  by (induction ids arbitrary: w) simp_all

lemma replace_id_keeps:
  "wheel_shape w \<Longrightarrow> l < 4 \<Longrightarrow> s < level_size l \<Longrightarrow>
     set (slot_ids w l s) \<subseteq> set (slot_ids (replace_id tid w) l s)"
  using slot_ids_push_slot_mono by (simp add: replace_id_def place_def Let_def split: option.split)

lemma fold_replace_keeps:
  "wheel_shape w \<Longrightarrow> l < 4 \<Longrightarrow> s < level_size l \<Longrightarrow>
     set (slot_ids w l s) \<subseteq> set (slot_ids (fold replace_id ids w) l s)"
proof (induction ids arbitrary: w)
  case (Cons tid ids)
  have "set (slot_ids w l s) \<subseteq> set (slot_ids (replace_id tid w) l s)"
    using Cons.prems by (rule replace_id_keeps)
  also have "\<dots> \<subseteq> set (slot_ids (fold replace_id ids (replace_id tid w)) l s)"
    using Cons.prems by (intro Cons.IH) simp_all
  finally show ?case by simp
qed simp

lemma fold_replace_puts:
  assumes "wheel_shape w" "current_time w = start_time w + ns_per_ms * int K" "deadlines_ok w"
    and "tid \<in> set ids" "lookup tid w = Some e" "d = dtick w (e_deadline e)" "l = level_for (d - K)"
  shows "tid \<in> set (slot_ids (fold replace_id ids w) l (slot_for l d))"
  using assms
proof (induction ids arbitrary: w)
  case (Cons i ids)
  have lt: "l < 4" "slot_for l d < level_size l" using Cons.prems(7) by simp_all
  show ?case
  proof (cases "i = tid")
    case True
    have "replace_id tid w = push_slot l (slot_for l d) tid w"
      using replace_id_live [OF Cons.prems(2,3,5,6)] Cons.prems(7) by simp
    then have "tid \<in> set (slot_ids (replace_id tid w) l (slot_for l d))"
      using slot_ids_push_slot [OF Cons.prems(1) lt lt(1)] by simp
    then show ?thesis
      using True fold_replace_keeps [of "replace_id tid w" l "slot_for l d" ids] Cons.prems(1) lt by auto
  next
    case False
    have "tid \<in> set (slot_ids (fold replace_id ids (replace_id i w)) l (slot_for l d))"
      by (rule Cons.IH) (use False Cons.prems in \<open>simp_all add: wheel_simps deadlines_ok_def\<close>)
    then show ?thesis by simp
  qed
qed simp

lemma cascade_slot_keeps:
  assumes "wheel_shape w" "L < 4" "current_slot (levels w ! L) < level_size L"
    and "l < 4" "s < level_size l" "\<not> (l = L \<and> s = current_slot (levels w ! L))"
  shows "set (slot_ids w l s) \<subseteq> set (slot_ids (cascade_slot L w) l s)"
  using assms fold_replace_keeps [of "set_slot L (current_slot (levels w ! L)) [] w" l s
      "slot_ids w L (current_slot (levels w ! L))"]
    slot_ids_set_slot [OF assms(1-3), of l "[]" s]
  by (auto simp: cascade_slot_def Let_def)

lemma wheel_shape_cascade_slot [simp]: "wheel_shape (cascade_slot L w) = wheel_shape w"
  by (simp add: cascade_slot_def Let_def)

lemma current_slot_cascade_slot:
  "l \<noteq> L \<Longrightarrow> L < length (levels w) \<Longrightarrow>
     current_slot (levels (cascade_slot L w) ! l) = current_slot (levels w ! l)"
  by (simp add: cascade_slot_def Let_def current_slot_set_current_slot wheel_simps)

lemma cascade_shape_below:
  assumes "wheel_shape w"
  shows "wheel_shape (cascade L w) \<and>
    (\<forall>l < L. current_slot (levels (cascade L w) ! l) = current_slot (levels w ! l))"
  using assms
proof (induction L w rule: cascade.induct)
  case (1 L w)
  then show ?case
    by (subst (1 2) cascade.simps)
      (auto simp: Let_def geometry current_slot_cascade_slot wheel_simps wheel_shape_def [of w])
qed

lemma cascade_keeps_below:
  assumes "wheel_shape w" "\<forall>l < 4. current_slot (levels w ! l) < level_size l" "l < L" "s < level_size l" "L < 4"
  shows "set (slot_ids w l s) \<subseteq> set (slot_ids (cascade L w) l s)"
  using assms
proof (induction L w rule: cascade.induct)
  case (1 L w)
  define up where "up \<longleftrightarrow> current_slot (levels w ! L) = 0 \<and> L + 1 < kNumLevels"
  define w1 where "w1 = (if up then cascade (L + 1) w else w)"
  have w1: "wheel_shape w1" "current_slot (levels w1 ! L) = current_slot (levels w ! L)"
    using cascade_shape_below [OF "1.prems"(1), of "L + 1"] "1.prems"(1) by (simp_all add: w1_def)
  have "set (slot_ids w l s) \<subseteq> set (slot_ids w1 l s)"
    using "1.IH" "1.prems" by (auto simp: w1_def up_def geometry)
  also have "\<dots> \<subseteq> set (slot_ids (cascade_slot L w1) l s)"
    using "1.prems"(3-5) w1 "1.prems"(2) [rule_format, OF "1.prems"(5)]
    by (intro cascade_slot_keeps) simp_all
  also have "cascade_slot L w1 = cascade L w"
    using "1.prems"(5) by (subst cascade.simps) (simp add: w1_def up_def Let_def geometry)
  finally show ?case .
qed

section \<open>Level 2 between its turns\<close>

lemma wheel_at_slots:
  "wheel_at k w \<Longrightarrow> wheel_shape w \<and> (\<forall>l < 4. current_slot (levels w ! l) = cursor l k mod level_size l)
     \<and> (\<forall>l < 4. current_slot (levels w ! l) < level_size l)"
  by (simp add: wheel_at_def wheel_state_def)

lemma tick_levels:
  assumes "wheel_at k w" "tick done mem w = (n, mem', w')"
    and "w0 = w\<lparr>current_time := current_time w + kTickDuration\<rparr>"
    and "w1 = (if k mod 256 = 0 then cascade 1 w0 else w0)"
  shows "0 < l \<Longrightarrow> l < 4 \<Longrightarrow> slot_ids w' l s = slot_ids w1 l s"
    and "t \<in> set (slot_ids w1 0 (k mod 256)) \<Longrightarrow> lookup t w' = None"
proof -
  note at = wheel_at_slots [OF assms(1)]
  have c0: "current_slot (levels w0 ! 0) = k mod 256" "wheel_shape w0"
    using at by (simp_all add: assms(3) cursor_def)
  have c1: "current_slot (levels w1 ! 0) = k mod 256" "wheel_shape w1"
    using cascade_shape_below [of w0 1] c0 by (simp_all add: assms(4))
  obtain w2 where fold: "fold (process_id done) (slot_ids w1 0 (k mod 256))
        (0, mem, set_slot 0 (k mod 256) [] w1) = (n, mem', w2)"
    and w': "w' = set_current_slot 0 ((current_slot (levels w2 ! 0) + 1) mod kLevel0Size) w2"
    using assms(2) unfolding tick_def process_current_slot_def assms(3) [symmetric] Let_def c0(1)
      assms(4) [symmetric] c1(1)
    by (auto split: prod.splits)
  have "table_inv w1"
    using assms(1) by (simp add: assms(3,4) wheel_at_def wheel_state_def wheel_simps)
  then have fr: "levels w2 = levels (set_slot 0 (k mod 256) [] w1)"
    "\<And>t. t \<in> set (slot_ids w1 0 (k mod 256)) \<Longrightarrow> lookup t w2 = None"
    using process_fold_frame [OF fold] by (simp_all add: wheel_simps)
  then show "lookup t w' = None" if "t \<in> set (slot_ids w1 0 (k mod 256))"
    using that by (simp add: w' wheel_simps)
  show "slot_ids w' l s = slot_ids w1 l s" if "0 < l" "l < 4"
    using that slot_ids_set_slot [OF c1(2), of 0 "k mod 256" l "[]" s] fr(1)
    by (simp add: w' slot_ids_def)
qed

text \<open>A slot of level 2 keeps its ids through every tick that is not its turn.\<close>

lemma tick_keeps_level2:
  assumes at: "wheel_at k w" and tk: "tick done mem w = (n, mem', w')" and s: "s < 64"
    and turn: "\<not> (k mod 16384 = 0 \<and> s = cursor 2 k mod 64)"
    and t: "t \<in> set (slot_ids w 2 s)"
  shows "t \<in> set (slot_ids w' 2 s)"
proof -
  define w0 where "w0 = w\<lparr>current_time := current_time w + kTickDuration\<rparr>"
  define w1 where "w1 = (if k mod 256 = 0 then cascade 1 w0 else w0)"
  define w2 where "w2 = (if current_slot (levels w0 ! 1) = 0 then cascade 2 w0 else w0)"
  define w3 where "w3 = (if current_slot (levels w0 ! 2) = 0 then cascade 3 w0 else w0)"
  note cur = wheel_at_slots [OF at]
  have sh: "wheel_shape w0" "\<forall>l < 4. current_slot (levels w0 ! l) < level_size l"
    using cur by (simp_all add: w0_def)
  have c1: "cascade (Suc 0) w0 = cascade_slot (Suc 0) w2" and c2: "cascade 2 w0 = cascade_slot 2 w3"
    by (subst cascade.simps, simp add: w2_def w3_def Let_def geometry numeral_2_eq_2 numeral_3_eq_3)+
  have t0: "t \<in> set (slot_ids w0 2 s)" using t by (simp add: w0_def)
  then have t3: "t \<in> set (slot_ids w3 2 s)"
    using cascade_keeps_below [OF sh, of 2 3 s] s by (auto simp: w3_def)
  have cs3: "current_slot (levels w3 ! 2) = cursor 2 k mod 64" "wheel_shape w3"
    using cascade_shape_below [OF sh(1), of 3] cur sh by (simp_all add: w3_def w0_def)
  have t2: "t \<in> set (slot_ids w2 2 s)" if "k mod 256 = 0"
  proof (cases "current_slot (levels w0 ! 1) = 0")
    case True
    then have "cursor 1 k mod level_size 1 = 0" using cur by (simp add: w0_def)
    then have "k mod 16384 = 0"
      using gran_Suc_dvd [of 1 k] that by (simp add: dvd_eq_mod_eq_0 gran_def)
    then have "s \<noteq> current_slot (levels w3 ! 2)" using turn cs3 by simp
    then show ?thesis
      using cascade_slot_keeps [OF cs3(2), of 2 2 s] t3 s cs3 True by (auto simp: w2_def c2)
  qed (use t0 in \<open>simp add: w2_def\<close>)
  have cs2: "current_slot (levels w2 ! 1) < 64" "wheel_shape w2"
    using cascade_shape_below [OF sh(1), of 2] sh(1) sh(2) [rule_format, of 1] by (auto simp: w2_def)
  have "t \<in> set (slot_ids w1 2 s)"
    using cascade_slot_keeps [OF cs2(2), of 1 2 s] cs2 t2 t0 s by (auto simp: w1_def c1)
  then show ?thesis
    using tick_levels(1) [OF at tk w0_def w1_def, of 2 s] by simp
qed

section \<open>The early release\<close>

lemma early_release:
  assumes at: "wheel_at k w" and tk: "tick done mem w = (n, mem', w')" and k: "k mod 16384 = 0"
    and t: "t \<in> set (slot_ids w 2 (cursor 2 k mod 64))"
    and lk: "lookup t w = Some e" and d: "dtick w (e_deadline e) = k + 256"
  shows "lookup t w' = None"
proof -
  define c where "c = cursor 2 k mod 64"
  define w0 where "w0 = w\<lparr>current_time := current_time w + kTickDuration\<rparr>"
  define w3 where "w3 = (if current_slot (levels w0 ! 2) = 0 then cascade 3 w0 else w0)"
  have k256: "k mod 256 = 0" using mod_mod_cancel [of 256 16384 k] k by simp
  note cur = wheel_at_slots [OF at]
  have sh: "wheel_shape w0" "\<forall>l < 4. current_slot (levels w0 ! l) < level_size l"
    using cur by (simp_all add: w0_def)
  have "cursor 1 k mod level_size 1 = 0"
    using gran_Suc_dvd [of 1 k] k k256 by (simp add: dvd_eq_mod_eq_0 gran_def)
  then have "current_slot (levels w0 ! 1) = 0"
    using cur by (simp add: w0_def)
  then have c1: "cascade (Suc 0) w0 = cascade_slot (Suc 0) (cascade_slot 2 w3)"
    by (subst cascade.simps, subst cascade.simps)
      (simp add: w3_def Let_def geometry numeral_2_eq_2 numeral_3_eq_3)
  have t3: "t \<in> set (slot_ids w3 2 c)"
    using t cascade_keeps_below [OF sh, of 2 3 c] by (auto simp: w3_def w0_def c_def)
  have s3: "current_slot (levels w3 ! 2) = c" "wheel_shape w3"
    using cascade_shape_below [OF sh(1), of 3] cur sh by (simp_all add: w3_def w0_def c_def)
  let ?w4 = "set_slot 2 c [] w3"
  have st: "current_time ?w4 = start_time ?w4 + ns_per_ms * int (Suc k)" "deadlines_ok ?w4"
    "lookup t ?w4 = Some e" "k + 256 = dtick ?w4 (e_deadline e)"
    using at lk d by (simp_all add: wheel_at_def wheel_state_def w3_def w0_def wheel_simps
        kTickDuration_def algebra_simps deadlines_ok_def dtick_def)
  have "slot_for 0 (k + 256) = 0" using k256 by (simp add: slot_for_def)
  then have "t \<in> set (slot_ids (fold replace_id (slot_ids w3 2 c) ?w4) 0 0)"
    using fold_replace_puts [OF _ st(1,2) t3 st(3,4) refl] s3(2) by (simp add: level_for_def)
  then have "t \<in> set (slot_ids (cascade_slot 2 w3) 0 0)"
    by (simp add: cascade_slot_def Let_def s3(1))
  moreover have "current_slot (levels (cascade_slot 2 w3) ! 1) < 64"
    using s3 sh cascade_shape_below [OF sh(1), of 3] sh(2) [rule_format, of 1]
    by (simp add: current_slot_cascade_slot wheel_shape_def w3_def)
  ultimately have "t \<in> set (slot_ids (cascade 1 w0) 0 0)"
    using cascade_slot_keeps [of "cascade_slot 2 w3" 1 0 0] s3(2) by (auto simp: c1)
  then show ?thesis
    using tick_levels(2) [OF at tk w0_def refl, of t] k256 by simp
qed

lemma wheel_ops_Suc_Tick:
  "wheel_ops done (replicate (Suc m) Tick) mw = wheel_step done Tick (wheel_ops done (replicate m Tick) mw)"
  by (induction m arbitrary: mw) simp_all

lemma ticks_keep_level2_slot1:
  assumes "wheel_at 0 w" "t \<in> set (slot_ids w 2 1)" "m \<le> 16384"
    and "wheel_ops done (replicate m Tick) (mem, w) = (mem', w')"
  shows "t \<in> set (slot_ids w' 2 1)"
  using assms(3,4)
proof (induction m arbitrary: mem' w')
  case 0
  then show ?case using assms(2) by simp
next
  case (Suc m)
  obtain mem1 w1 where m: "wheel_ops done (replicate m Tick) (mem, w) = (mem1, w1)"
    by (cases "wheel_ops done (replicate m Tick) (mem, w)")
  have at: "wheel_at m w1"
    using wheel_ops_at [OF assms(1) ops_ok_ticks m] by simp
  have w': "wheel_step done Tick (mem1, w1) = (mem', w')"
    using Suc.prems(2) unfolding wheel_ops_Suc_Tick m .
  obtain n where tk: "tick done mem1 w1 = (n, mem', w')"
    using w' by (cases "tick done mem1 w1") simp
  have "\<not> (m mod 16384 = 0 \<and> 1 = cursor 2 m mod 64)"
    using Suc.prems(1) by (cases "m = 0") (simp_all add: cursor_def)
  then show ?case
    using tick_keeps_level2 [OF at tk, of 1 t] Suc.IH [OF _ m] Suc.prems(1) by simp
qed

lemma schedule_new_wheel:
  "schedule delay h st c (new_wheel now) = (tid, w) \<Longrightarrow> ns_per_ms * 16384 \<le> delay \<Longrightarrow>
     delay < ns_per_ms * 32768 \<Longrightarrow> tid \<in> set (slot_ids w 2 1)"
proof -
  assume sch: "schedule delay h st c (new_wheel now) = (tid, w)"
    and d: "ns_per_ms * 16384 \<le> delay" "delay < ns_per_ms * 32768"
  have ct: "current_time (new_wheel now) = now" "start_time (new_wheel now) = now"
    by (simp_all add: new_wheel_def)
  obtain w1 where al: "alloc_entry (now + delay) h st c (new_wheel now) = (tid, w1)"
    and w: "w = place tid (now + delay) w1"
    using sch ct by (auto simp: schedule_def schedule_at_def Let_def split: prod.splits)
  note fr = alloc_entry_frame [OF al]
  define dt where "dt = dtick w1 (now + delay)"
  have dt: "16384 \<le> dt" "dt < 32768"
    using d by (simp_all add: dt_def dtick_def fr ct ns_per_ms_def nat_less_iff le_nat_iff)
  have lv: "level_for (dt - 0) = 2" using dt by (simp add: level_for_def)
  have "slot_for 2 dt = 1" using dt by (simp add: slot_for_def gran_def)
  moreover have "w = push_slot 2 (slot_for 2 dt) tid w1"
    using place_target [of w1 0 "now + delay" tid] d unfolding dt_def [symmetric] lv
    by (simp add: w fr ct ns_per_ms_def)
  moreover have "wheel_shape w1"
    using wheel_shape_cong [OF fr(1)] new_wheel_at by (simp add: wheel_at_def wheel_state_def)
  ultimately show ?thesis
    using slot_ids_push_slot [of w1 2 "slot_for 2 dt" 2 tid "slot_for 2 dt"] by simp
qed

end
