(* ===== verification/Timer_Properties.thy ===== *)
theory Timer_Properties
  imports Wheel_Early
begin

text \<open>
  The properties of the timer component (\<^verbatim>\<open>src/async/timer.hpp\<close>), stated for wheels
  reached from a fresh one by any admissible sequence of operations.
\<close>

section \<open>Timers fire at their deadline\<close>

lemma scheduled_dtick:
  assumes "wheel_at k w" "0 \<le> delay"
  shows "dtick w (current_time w + delay) = k + nat (delay div ns_per_ms)"
proof -
  have "current_time w - start_time w = ns_per_ms * int k"
    using assms(1) by (simp add: wheel_at_def wheel_state_def)
  then have "(current_time w + delay - start_time w) div ns_per_ms = int k + delay div ns_per_ms"
    by (simp add: algebra_simps ns_per_ms_def)
  then show ?thesis
    using assms(2) by (simp add: dtick_def nat_add_distrib pos_imp_zdiv_nonneg_iff ns_per_ms_def)
qed

lemma schedule_run:
  assumes "wheel_at k w" "can_alloc w" "0 \<le> delay" "schedule delay h st c w = (tid, w')"
  shows "wheel_at k w'" "lookup tid w' = Some (new_entry tid (current_time w + delay) h st c)"
    "dtick w' (current_time w + delay) = k + nat (delay div ns_per_ms)" "known tid w'"
    "start_time w' = start_time w"
proof -
  have sch: "schedule_at (current_time w + delay) h st c w = (tid, w')"
    using assms(4) by (simp add: schedule_def)
  note run = schedule_at_run [OF assms(1,2) _ sch]
  show "wheel_at k w'" and lk: "lookup tid w' = Some (new_entry tid (current_time w + delay) h st c)"
    using run(1,2) assms(3) by simp_all
  show "dtick w' (current_time w + delay) = k + nat (delay div ns_per_ms)"
    using scheduled_dtick [OF assms(1,3)] run(4) assms(3) by (simp add: dtick_def)
  show "known tid w'" "start_time w' = start_time w"
    using lk run(4) assms(3) by (simp_all add: known_def)
qed



section \<open>What a tick does\<close>



section \<open>Cancelled and stale ids\<close>

text \<open>
  C3. Cancelling is final. Cancelling a live timer answers \<open>true\<close>; from then on, whatever operations
  follow, its id resolves to nothing, so no tick fires it and a second cancel answers \<open>false\<close>, even
  when its slot has been given to other timers since.
\<close>

theorem cancel_is_final:
  assumes "ops_ok fin pre (memi, new_wheel now)" "wheel_ops fin pre (memi, new_wheel now) = (mem, w)"
    and "lookup tid w = Some e" "cancel tid w = (b, w1)"
    and "ops_ok fin post (mem, w1)" "wheel_ops fin post (mem, w1) = (mem2, w2)"
  shows "b \<and> lookup tid w2 = None \<and> cancel tid w2 = (False, w2)"
proof -
  have at: "wheel_at (tick_count pre) w"
    using wheel_ops_at [OF new_wheel_at assms(1,2)] by simp
  note c = cancel_run [OF at assms(4)]
  have "known tid w1"
    using assms(3,4) known_release [of tid w tid] by (auto simp: cancel_eq known_def)
  then have "lookup tid w2 = None"
    using wheel_ops_expired [OF c(1) assms(5,6), of tid] c(3) [of tid] by simp
  then show ?thesis
    using c(2) assms(3) by (simp add: cancel_eq release_eq)
qed

theorem cancel_is_final_witness:
  "\<exists>tid w1. schedule 5000000 None None TimedOut (new_wheel 0) = (tid, w1) \<and> fst (cancel tid w1) \<and>
     lookup tid (snd (wheel_ops (\<lambda>c. False) [Tick, Tick] (\<lambda>p. Pending, snd (cancel tid w1)))) = None"
proof -
  obtain tid w1 where sch: "schedule 5000000 None None TimedOut (new_wheel 0) = (tid, w1)"
    by (cases "schedule 5000000 None None TimedOut (new_wheel 0)")
  have can: "can_alloc (new_wheel 0)" by (simp add: can_alloc_def new_wheel_def)
  note run = schedule_run [OF new_wheel_at can _ sch]
  have "fst (cancel tid w1) \<and>
     lookup tid (snd (wheel_ops (\<lambda>c. False) [Tick, Tick] (\<lambda>p. Pending, snd (cancel tid w1)))) = None"
    using cancel_is_final [where pre = "[Schedule 5000000 None None TimedOut]" and post = "[Tick, Tick]"
        and fin = "\<lambda>c. False" and mem = "\<lambda>p. Pending" and memi = "\<lambda>p. Pending" and now = 0 and w = w1,
        OF _ _ run(2) pair_eta _ pair_eta] can sch
    by simp
  with sch show ?thesis by blast
qed

text \<open>
  C4. Ids are never confused. In any history of allocations and releases on the slot table, an id
  that was released is resolved by no later table, although its slot is reused; and an id that is
  not released keeps resolving to the entry it was given.
\<close>

theorem slot_table_no_aba:
  assumes "table_inv t" "lookup tid t = Some e"
  shows "(history_ok can_alloc alloc_args release ops (release tid t) \<longrightarrow>
       lookup tid (run_history alloc_args release ops (release tid t)) = None) \<and>
    (history_ok can_alloc alloc_args release ops t \<longrightarrow> Inr tid \<notin> set ops \<longrightarrow>
       lookup tid (run_history alloc_args release ops t) = Some e)"
  using tbl.stale_forever [OF assms(1)] tbl.live_until_released [OF assms] assms(2) by simp

definition small_table :: slot_table where
  "small_table = snd (alloc_args (0, None, None, Ready)
     \<lparr>slotmap = [], free_indices = [], active_count = 0\<rparr>)"

lemma small_table_inv: "table_inv small_table"
  unfolding small_table_def
  by (rule tbl.inv_alloc) (simp_all add: table_inv_def can_alloc_def)

lemma small_table_lookup:
  "lookup (encode_id 0 1) small_table = Some (new_entry (encode_id 0 1) 0 None None Ready)"
  by (simp add: small_table_def alloc_args_def alloc_entry_def take_index_def Let_def lookup_def
      id_index_encode id_gen_encode default_slot_def new_entry_def)

theorem slot_table_no_aba_witness:
  "lookup (encode_id 0 1)
     (run_history alloc_args release [Inl (9, None, None, Ready)] (release (encode_id 0 1) small_table)) = None"
  using slot_table_no_aba [OF small_table_inv small_table_lookup, of "[Inl (9, None, None, Ready)]"]
  by (simp add: can_alloc_def release_def small_table_def alloc_args_def alloc_entry_def take_index_def
      Let_def id_index_encode id_gen_encode default_slot_def deactivate_def)

section \<open>Advancing and the next deadline\<close>

text \<open>
  C5. \<open>advance_to\<close> ends, at the first tick that is not before the target. Every timer due before the
  target has then been released, and every timer that is not due before the wheel's new time (its
  deadline tick not 256 modulo 16384) is still live.
\<close>

theorem advance_to_releases_due:
  assumes "ops_ok fin ops (memi, new_wheel now)" "wheel_ops fin ops (memi, new_wheel now) = (mem, w)"
    and adv: "advance_to fin target mem w = (n, mem', w')"
  shows "target \<le> current_time w' \<and> (current_time w < target \<longrightarrow> current_time w' < target + kTickDuration) \<and>
    (\<forall>tid e. lookup tid w = Some e \<longrightarrow>
      (e_deadline e < target \<longrightarrow> lookup tid w' = None) \<and>
      (current_time w' \<le> e_deadline e \<longrightarrow> dtick w (e_deadline e) mod 16384 \<noteq> 256 \<longrightarrow>
        lookup tid w' = Some e))"
proof -
  have at: "wheel_at (tick_count ops) w"
    using wheel_ops_at [OF new_wheel_at assms(1,2)] by simp
  obtain m where m: "current_time w' = current_time w + kTickDuration * int m" "target \<le> current_time w'"
    "0 < m \<longrightarrow> current_time w' < target + kTickDuration"
    using advance_to_ops [OF adv] by blast
  then have "current_time w' < target + kTickDuration" if "current_time w < target"
    using that by (cases m) auto
  then show ?thesis
    using m(2) advance_to_run(4,5) [OF at adv] by simp
qed

theorem advance_to_releases_due_witness:
  "1500000 \<le> current_time (snd (snd (advance_to (\<lambda>c. False) 1500000 (\<lambda>p. Pending) (new_wheel 0))))"
  using advance_to_releases_due [where fin = "\<lambda>c. False" and ops = "[]" and memi = "\<lambda>p. Pending"
      and mem = "\<lambda>p. Pending" and now = 0 and w = "new_wheel 0" and target = 1500000, OF _ _ triple_eta]
  by simp

text \<open>
  C6. \<open>next_deadline\<close> answers \<open>nullopt\<close> exactly when no timer is live; otherwise it answers the
  deadline of some live timer (of which it need not be the earliest).
\<close>

theorem next_deadline_sound:
  assumes "ops_ok fin ops (memi, new_wheel now)" "wheel_ops fin ops (memi, new_wheel now) = (mem, w)"
  shows "(next_deadline w = None \<longleftrightarrow> (\<forall>tid. lookup tid w = None)) \<and>
    (\<forall>t. next_deadline w = Some t \<longrightarrow> (\<exists>tid e. lookup tid w = Some e \<and> e_deadline e = t))"
proof -
  have "wheel_at (tick_count ops) w"
    using wheel_ops_at [OF new_wheel_at assms] by simp
  then show ?thesis using next_deadline_run by blast
qed

theorem next_deadline_sound_witness:
  "next_deadline (snd (wheel_ops (\<lambda>c. False) [Tick] (\<lambda>p. Pending, new_wheel 0))) = None \<longleftrightarrow>
     (\<forall>tid. lookup tid (snd (wheel_ops (\<lambda>c. False) [Tick] (\<lambda>p. Pending, new_wheel 0))) = None)"
  using next_deadline_sound [where fin = "\<lambda>c. False" and ops = "[Tick]" and memi = "\<lambda>p. Pending"
      and now = 0, OF _ pair_eta] by simp

section \<open>The early release\<close>

text \<open>
  C7. The exception of the exact firing is real: on a fresh wheel, a timer of 16640 milliseconds is
  gone after 16385 ticks, 255 milliseconds before its deadline.
\<close>

theorem early_release_example:
  "let (tid, w) = schedule (ns_per_ms * 16640) h st c (new_wheel now);
       (mem', w') = wheel_ops fin (replicate 16385 Tick) (mem, w)
   in map_option e_deadline (lookup tid w) = Some (now + ns_per_ms * 16640)
      \<and> current_time w' = now + ns_per_ms * 16385 \<and> lookup tid w' = None"
proof -
  have new: "current_time (new_wheel now) = now" "start_time (new_wheel now) = now"
    "can_alloc (new_wheel now)"
    by (simp_all add: new_wheel_def can_alloc_def)
  obtain tid w where sch: "schedule (ns_per_ms * 16640) h st c (new_wheel now) = (tid, w)"
    by (cases "schedule (ns_per_ms * 16640) h st c (new_wheel now)")
  note run = schedule_run [OF new_wheel_at new(3) _ sch]
  let ?e = "new_entry tid (now + ns_per_ms * 16640) h st c"
  have w: "wheel_at 0 w" "lookup tid w = Some ?e" "dtick w (e_deadline ?e) = 16640"
    using run by (simp_all add: new ns_per_ms_def new_entry_def)
  obtain mem1 w1 where m1: "wheel_ops fin (replicate 16384 Tick) (mem, w) = (mem1, w1)"
    by (cases "wheel_ops fin (replicate 16384 Tick) (mem, w)")
  obtain n mem2 w2 where tk: "tick fin mem1 w1 = (n, mem2, w2)"
    by (cases "tick fin mem1 w1") auto
  have m2: "wheel_ops fin (replicate 16385 Tick) (mem, w) = (mem2, w2)"
    using wheel_ops_Suc_Tick [of fin 16384 "(mem, w)"] m1 tk by simp
  have at1: "wheel_at 16384 w1" "start_time w1 = start_time w"
    using wheel_ops_at [OF w(1) ops_ok_ticks m1] by simp_all
  have live: "lookup tid w1 = Some ?e"
    using wheel_ops_live [OF w(1) ops_ok_ticks m1 w(2)] w(3) by (simp add: set_replicate_conv_if)
  have slot: "tid \<in> set (slot_ids w1 2 1)"
    using ticks_keep_level2_slot1 [OF w(1) schedule_new_wheel [OF sch] _ m1] by (simp add: ns_per_ms_def)
  have d: "dtick w1 (e_deadline ?e) = 16384 + 256"
    using w(3) at1(2) by (simp add: dtick_def)
  have cur: "cursor 2 16384 mod 64 = 1" by (simp add: cursor_def)
  have gone: "lookup tid w2 = None"
    by (rule early_release [OF at1(1) tk _ _ live d]) (use slot in \<open>simp_all add: cur\<close>)
  have "wheel_at 16385 w2" "start_time w2 = start_time w"
    using wheel_ops_at [OF w(1) ops_ok_ticks m2] by simp_all
  moreover have "start_time w = now"
    using run(5) by (simp add: new ns_per_ms_def)
  ultimately show ?thesis
    using sch m2 gone w(2) by (simp add: wheel_at_def wheel_state_def new_entry_def)
qed

end
