(* ===== verification/Task.thy ===== *)
theory Task
  imports Concepts
begin

text \<open>
  Tasks, \<^verbatim>\<open>src/async/task.hpp\<close>, and the part of \<open>std::stop_token\<close> they and the awaiters use.

  A coroutine frame lives in a store from frame numbers to promises; a \<open>Task\<close> object is the handle it
  owns, a \<open>JoinHandle\<close> one it does not. Values of the tasks' result types are of one type \<open>'v\<close>.
  A stop state is a number; a \<open>stop_source\<close> or \<open>stop_token\<close> refers to one or to none. The
  closures installed by \<open>stop_callback\<close> are data of type \<open>'cb\<close>; requesting a stop hands back the
  callbacks to run, in the calling thread.
\<close>

section \<open>Stop states\<close>

type_synonym stop_token = "nat option"

record 'cb stop_states =
  requested :: "nat \<Rightarrow> bool"
  callbacks :: "nat \<Rightarrow> 'cb list"
  next_state :: nat

definition no_stop_states :: "'cb stop_states" where
  "no_stop_states = \<lparr>requested = (\<lambda>_. False), callbacks = (\<lambda>_. []), next_state = 0\<rparr>"

definition new_stop_source :: "'cb stop_states \<Rightarrow> stop_token \<times> 'cb stop_states" where
  "new_stop_source s =
     (Some (next_state s),
      s\<lparr>requested := (requested s)(next_state s := False), callbacks := (callbacks s)(next_state s := []),
        next_state := Suc (next_state s)\<rparr>)"

definition stop_possible :: "stop_token \<Rightarrow> bool" where
  "stop_possible t = (t \<noteq> None)"

definition stop_requested :: "stop_token \<Rightarrow> 'cb stop_states \<Rightarrow> bool" where
  "stop_requested t s = (case t of None \<Rightarrow> False | Some i \<Rightarrow> requested s i)"

text \<open>Only the first request has an effect: it takes the callbacks registered so far.\<close>

definition source_request_stop :: "stop_token \<Rightarrow> 'cb stop_states \<Rightarrow> 'cb list \<times> 'cb stop_states" where
  "source_request_stop t s =
     (case t of
        None \<Rightarrow> ([], s)
      | Some i \<Rightarrow> if requested s i then ([], s)
                  else (callbacks s i,
                        s\<lparr>requested := (requested s)(i := True), callbacks := (callbacks s)(i := [])\<rparr>))"

text \<open>
  A callback registered after the request runs at once, in the constructor: then it is handed back.
\<close>

definition add_callback :: "stop_token \<Rightarrow> 'cb \<Rightarrow> 'cb stop_states \<Rightarrow> 'cb list \<times> 'cb stop_states" where
  "add_callback t cb s =
     (case t of
        None \<Rightarrow> ([], s)
      | Some i \<Rightarrow> if requested s i then ([cb], s)
                  else ([], s\<lparr>callbacks := (callbacks s)(i := callbacks s i @ [cb])\<rparr>))"

definition remove_callback :: "stop_token \<Rightarrow> 'cb \<Rightarrow> 'cb stop_states \<Rightarrow> 'cb stop_states" where
  "remove_callback t cb s =
     (case t of
        None \<Rightarrow> s
      | Some i \<Rightarrow> s\<lparr>callbacks := (callbacks s)(i := filter (\<lambda>c. c \<noteq> cb) (callbacks s i))\<rparr>)"

section \<open>The promise\<close>

definition make_cancelled_error :: system_error where
  "make_cancelled_error = make_error ECANCELED ''task cancelled''"

record 'v frame =
  f_result :: "'v result"
  f_continuation :: handle
  f_stop_source :: stop_token
  f_cancel_token :: stop_token
  f_final :: bool

type_synonym 'v frames = "coro \<rightharpoonup> 'v frame"

definition new_frame :: "'v frame" where
  "new_frame = \<lparr>f_result = Err make_cancelled_error, f_continuation = None, f_stop_source = None,
     f_cancel_token = None, f_final = False\<rparr>"

text \<open>\<open>handle.done()\<close> and updates of a promise through a handle; a destroyed frame has no promise.\<close>

definition h_done :: "'v frames \<Rightarrow> coro \<Rightarrow> bool" where
  "h_done fs h = (case fs h of None \<Rightarrow> False | Some f \<Rightarrow> f_final f)"

definition upd_frame :: "('v frame \<Rightarrow> 'v frame) \<Rightarrow> coro \<Rightarrow> 'v frames \<Rightarrow> 'v frames" where
  "upd_frame g h fs = (case fs h of None \<Rightarrow> fs | Some f \<Rightarrow> fs(h \<mapsto> g f))"

text \<open>
  \<open>await_transform\<close> passes the frame's token on to what it awaits; \<open>setter\<close> is the awaitable's
  \<open>set_cancellation\<close>, the identity for one that has none.
\<close>

definition await_transform :: "(stop_token \<Rightarrow> 'a \<Rightarrow> 'a) \<Rightarrow> 'a \<Rightarrow> 'v frame \<Rightarrow> 'a" where
  "await_transform setter a f =
     (if stop_possible (f_cancel_token f) then setter (f_cancel_token f) a else a)"

definition return_value :: "'v \<Rightarrow> coro \<Rightarrow> 'v frames \<Rightarrow> 'v frames" where
  "return_value v h fs = upd_frame (\<lambda>f. f\<lparr>f_result := Ok v\<rparr>) h fs"

definition unhandled_exception ::
  "coro \<Rightarrow> 'v frames \<Rightarrow> core_metrics option \<Rightarrow> 'v frames \<times> core_metrics option" where
  "unhandled_exception h fs g_metrics =
     (upd_frame (\<lambda>f. f\<lparr>f_result := Err (make_error EPERM ''unhandled exception'')\<rparr>) h fs,
      count CoroutineExceptions 1 g_metrics)"

text \<open>The frame is at its final suspension point; the handle is resumed next, none for \<open>noop_coroutine\<close>.\<close>

definition final_await_suspend :: "coro \<Rightarrow> 'v frames \<Rightarrow> handle \<times> 'v frames" where
  "final_await_suspend h fs =
     (case fs h of None \<Rightarrow> None | Some f \<Rightarrow> f_continuation f, upd_frame (\<lambda>f. f\<lparr>f_final := True\<rparr>) h fs)"

definition ensure_stop_state :: "'v frame \<Rightarrow> 'cb stop_states \<Rightarrow> 'v frame \<times> 'cb stop_states" where
  "ensure_stop_state f s =
     (if \<not> stop_possible (f_stop_source f)
      then let (src, s') = new_stop_source s in (f\<lparr>f_stop_source := src\<rparr>, s')
      else (f, s))"

definition promise_stop_token :: "'v frame \<Rightarrow> 'cb stop_states \<Rightarrow> stop_token \<times> 'v frame \<times> 'cb stop_states" where
  "promise_stop_token f s = (let (f', s') = ensure_stop_state f s in (f_stop_source f', f', s'))"

definition promise_request_stop ::
  "'v frame \<Rightarrow> 'cb stop_states \<Rightarrow> 'cb list \<times> 'v frame \<times> 'cb stop_states" where
  "promise_request_stop f s =
     (let (f', s') = ensure_stop_state f s; (cbs, s'') = source_request_stop (f_stop_source f') s'
      in (cbs, f', s''))"

section \<open>Task objects\<close>

text \<open>The values are the new target and the new source of the move.\<close>

definition task_move :: "handle \<Rightarrow> handle \<times> handle" where
  "task_move other = (other, None)"

definition task_destroy :: "handle \<Rightarrow> 'v frames \<Rightarrow> 'v frames" where
  "task_destroy t fs = (case t of None \<Rightarrow> fs | Some h \<Rightarrow> fs(h := None))"

definition task_move_assign :: "handle \<Rightarrow> handle \<Rightarrow> 'v frames \<Rightarrow> handle \<times> handle \<times> 'v frames" where
  "task_move_assign t other fs = (other, None, task_destroy t fs)"

definition task_await_ready :: "handle \<Rightarrow> 'v frames \<Rightarrow> bool" where
  "task_await_ready t fs = (case t of None \<Rightarrow> True | Some h \<Rightarrow> h_done fs h)"

definition task_await_suspend :: "coro \<Rightarrow> coro \<Rightarrow> 'v frames \<Rightarrow> coro \<times> 'v frames" where
  "task_await_suspend h continuation fs = (h, upd_frame (\<lambda>f. f\<lparr>f_continuation := Some continuation\<rparr>) h fs)"

text \<open>The result is taken without a check; taking one that is an error is undefined (\<open>None\<close>).\<close>

definition task_await_resume :: "coro \<Rightarrow> 'v frames \<Rightarrow> 'v option" where
  "task_await_resume h fs =
     (case fs h of Some f \<Rightarrow> (case f_result f of Inr v \<Rightarrow> Some v | Inl _ \<Rightarrow> None) | None \<Rightarrow> None)"

partial_function (option) resume_until_done ::
  "(coro \<Rightarrow> 'v frames \<Rightarrow> 'v frames) \<Rightarrow> coro \<Rightarrow> 'v frames \<Rightarrow> 'v frames option" where
  "resume_until_done resume h fs =
     (if h_done fs h then Some fs else resume_until_done resume h (resume h fs))"

definition task_get ::
  "(coro \<Rightarrow> 'v frames \<Rightarrow> 'v frames) \<Rightarrow> handle \<Rightarrow> 'v frames \<Rightarrow> ('v result \<times> 'v frames) option" where
  "task_get resume t fs =
     (case t of
        None \<Rightarrow> Some (Err (make_error EPERM ''task has no coroutine handle''), fs)
      | Some h \<Rightarrow>
          (case resume_until_done resume h fs of
             None \<Rightarrow> None
           | Some fs' \<Rightarrow> (case fs' h of None \<Rightarrow> None | Some f \<Rightarrow> Some (f_result f, fs'))))"

definition task_request_stop ::
  "handle \<Rightarrow> 'v frames \<Rightarrow> 'cb stop_states \<Rightarrow> 'cb list \<times> 'v frames \<times> 'cb stop_states" where
  "task_request_stop t fs s =
     (case t of
        None \<Rightarrow> ([], fs, s)
      | Some h \<Rightarrow>
          (case fs h of
             None \<Rightarrow> ([], fs, s)
           | Some f \<Rightarrow> let (cbs, f', s') = promise_request_stop f s in (cbs, fs(h \<mapsto> f'), s')))"

definition task_stop_token ::
  "handle \<Rightarrow> 'v frames \<Rightarrow> 'cb stop_states \<Rightarrow> stop_token \<times> 'v frames \<times> 'cb stop_states" where
  "task_stop_token t fs s =
     (case t of
        None \<Rightarrow> (None, fs, s)
      | Some h \<Rightarrow>
          (case fs h of
             None \<Rightarrow> (None, fs, s)
           | Some f \<Rightarrow> let (tok, f', s') = promise_stop_token f s in (tok, fs(h \<mapsto> f'), s')))"

definition task_set_cancellation :: "stop_token \<Rightarrow> handle \<Rightarrow> 'v frames \<Rightarrow> 'v frames" where
  "task_set_cancellation tok t fs =
     (case t of None \<Rightarrow> fs | Some h \<Rightarrow> upd_frame (\<lambda>f. f\<lparr>f_cancel_token := tok\<rparr>) h fs)"

section \<open>Join handles\<close>

definition join_done :: "handle \<Rightarrow> 'v frames \<Rightarrow> bool" where
  "join_done j fs = (case j of None \<Rightarrow> True | Some h \<Rightarrow> h_done fs h)"

definition join_request_stop ::
  "handle \<Rightarrow> 'v frames \<Rightarrow> 'cb stop_states \<Rightarrow> 'cb list \<times> 'v frames \<times> 'cb stop_states" where
  "join_request_stop j fs s = task_request_stop j fs s"

definition join_await_suspend :: "handle \<Rightarrow> coro \<Rightarrow> 'v frames \<Rightarrow> bool \<times> 'v frames" where
  "join_await_suspend j continuation fs =
     (case j of
        None \<Rightarrow> (False, fs)
      | Some h \<Rightarrow> if h_done fs h then (False, fs)
                  else (True, upd_frame (\<lambda>f. f\<lparr>f_continuation := Some continuation\<rparr>) h fs))"

definition join_await_resume :: "handle \<Rightarrow> 'v frames \<Rightarrow> 'v result option" where
  "join_await_resume j fs =
     (case j of
        None \<Rightarrow> Some (Err (make_error EPERM ''join handle has no task''))
      | Some h \<Rightarrow> map_option f_result (fs h))"

end
