(* ===== verification/Reactor.thy ===== *)
theory Reactor
  imports Concepts
begin

text \<open>
  The epoll reactor of \<^verbatim>\<open>src/async/io_reactor.hpp\<close>. Each descriptor may have one waiter for
  reading and one for writing; the table of descriptors is a vector indexed by the descriptor, and a
  registration is armed in the kernel once for each event (\<open>EPOLLONESHOT\<close>).

  The kernel is not under \<^verbatim>\<open>src/\<close>: \<open>ctl\<close> and \<open>wait\<close> stand for \<open>epoll_ctl\<close> and
  \<open>epoll_wait\<close>, functions on a kernel state of any type. \<open>ctl\<close> answers \<open>None\<close> for success or the
  error number, \<open>wait\<close> the error number or the reported events. The awaiters' \<open>WaitState\<close> and
  \<open>Result<usize>\<close> objects that the entries point to live in \<open>io_mem\<close>.
\<close>

section \<open>Event masks\<close>

definition EPOLLIN :: u32 where "EPOLLIN = push_bit 0 1"
definition EPOLLOUT :: u32 where "EPOLLOUT = push_bit 2 1"
definition EPOLLERR :: u32 where "EPOLLERR = push_bit 3 1"
definition EPOLLHUP :: u32 where "EPOLLHUP = push_bit 4 1"
definition EPOLLONESHOT :: u32 where "EPOLLONESHOT = push_bit 30 1"
definition EPOLLET :: u32 where "EPOLLET = push_bit 31 1"

lemmas epoll_defs = EPOLLIN_def EPOLLOUT_def EPOLLERR_def EPOLLHUP_def EPOLLONESHOT_def EPOLLET_def

definition to_epoll_events :: "io_event \<Rightarrow> u32" where
  "to_epoll_events ev =
     (let result = 0;
          result = (if has_flag ev IoRead then result OR EPOLLIN else result);
          result = (if has_flag ev IoWrite then result OR EPOLLOUT else result);
          result = (if has_flag ev IoError then result OR EPOLLERR else result);
          result = (if has_flag ev IoHangUp then result OR EPOLLHUP else result);
          result = (if has_flag ev IoEdgeTrig then result OR EPOLLET else result);
          result = (if has_flag ev IoOneShot then result OR EPOLLONESHOT else result)
      in result)"

section \<open>State\<close>

record pending_entry =
  p_handle :: handle
  p_result :: "nat option"
  p_state :: state_ptr
  p_completion :: wait_state

record fd_entry =
  rd :: "pending_entry option"
  wr :: "pending_entry option"

definition empty_entry :: fd_entry where
  "empty_entry = \<lparr>rd = None, wr = None\<rparr>"

definition free_entry :: "fd_entry \<Rightarrow> bool" where
  "free_entry e \<longleftrightarrow> rd e = None \<and> wr e = None"

record reactor =
  epoll_fd :: int
  fd_slots :: "fd_entry list"
  io_ready :: "coro list"

record io_mem =
  wstate :: wait_mem
  results :: "nat \<Rightarrow> nat result"

datatype ctl_op = CtlAdd | CtlMod | CtlDel

type_synonym 'k epoll_ctl = "int \<Rightarrow> ctl_op \<Rightarrow> int \<Rightarrow> u32 \<Rightarrow> 'k \<Rightarrow> int option \<times> 'k"
type_synonym 'k epoll_wait = "int \<Rightarrow> nat \<Rightarrow> int \<Rightarrow> 'k \<Rightarrow> (int + (int \<times> u32) list) \<times> 'k"

definition kMaxEventsPerPoll :: nat where
  "kMaxEventsPerPoll = 256"

section \<open>Operations\<close>

definition reactor_create :: "(int + int) \<Rightarrow> reactor result" where
  "reactor_create epoll_create1 =
     (case epoll_create1 of
        Inl e \<Rightarrow> Err (from_errno e)
      | Inr fd \<Rightarrow> Ok \<lparr>epoll_fd = fd, fd_slots = [], io_ready = []\<rparr>)"

definition reactor_add :: "'k epoll_ctl \<Rightarrow> int \<Rightarrow> io_event \<Rightarrow> reactor \<Rightarrow> 'k \<Rightarrow> unit result \<times> 'k" where
  "reactor_add ctl fd events r k =
     (case ctl (epoll_fd r) CtlAdd fd (to_epoll_events events) k of
        (Some e, k') \<Rightarrow> (Err (from_errno e), k')
      | (None, k') \<Rightarrow> (Ok (), k'))"

definition reactor_modify :: "'k epoll_ctl \<Rightarrow> int \<Rightarrow> io_event \<Rightarrow> reactor \<Rightarrow> 'k \<Rightarrow> unit result \<times> 'k" where
  "reactor_modify ctl fd events r k =
     (case ctl (epoll_fd r) CtlMod fd (to_epoll_events events) k of
        (Some e, k') \<Rightarrow> (Err (from_errno e), k')
      | (None, k') \<Rightarrow> (Ok (), k'))"

definition ensure_slot :: "int \<Rightarrow> reactor \<Rightarrow> reactor" where
  "ensure_slot fd r =
     (if length (fd_slots r) \<le> nat fd
      then r\<lparr>fd_slots := fd_slots r @ replicate (nat fd + 1 - length (fd_slots r)) empty_entry\<rparr>
      else r)"

definition clear_slot :: "int \<Rightarrow> reactor \<Rightarrow> reactor" where
  "clear_slot fd r =
     (if fd < 0 then r
      else if nat fd < length (fd_slots r)
           then r\<lparr>fd_slots := (fd_slots r)[nat fd := (fd_slots r ! nat fd)\<lparr>rd := None, wr := None\<rparr>]\<rparr>
           else r)"

definition reactor_remove ::
  "'k epoll_ctl \<Rightarrow> int \<Rightarrow> reactor \<Rightarrow> 'k \<Rightarrow> unit result \<times> reactor \<times> 'k" where
  "reactor_remove ctl fd r k =
     (if fd < 0 then (Ok (), r, k)
      else case ctl (epoll_fd r) CtlDel fd 0 k of
             (Some e, k') \<Rightarrow>
               if e \<noteq> ENOENT \<and> e \<noteq> EBADF then (Err (from_errno e), r, k')
               else (Ok (), clear_slot fd r, k')
           | (None, k') \<Rightarrow> (Ok (), clear_slot fd r, k'))"

definition ensure :: "'k epoll_ctl \<Rightarrow> int \<Rightarrow> io_event \<Rightarrow> reactor \<Rightarrow> 'k \<Rightarrow> unit result \<times> 'k" where
  "ensure ctl fd events r k =
     (let ev = to_epoll_events events
      in case ctl (epoll_fd r) CtlMod fd ev k of
           (None, k1) \<Rightarrow> (Ok (), k1)
         | (Some e, k1) \<Rightarrow>
             if e = ENOENT
             then (case ctl (epoll_fd r) CtlAdd fd ev k1 of
                     (Some e', k2) \<Rightarrow> (Err (from_errno e'), k2)
                   | (None, k2) \<Rightarrow> (Ok (), k2))
             else (Err (from_errno e), k1))"

definition rearm_or_erase :: "'k epoll_ctl \<Rightarrow> int \<Rightarrow> reactor \<Rightarrow> 'k \<Rightarrow> 'k" where
  "rearm_or_erase ctl fd r k =
     (if fd < 0 \<or> length (fd_slots r) \<le> nat fd then k
      else let e = fd_slots r ! nat fd
           in if rd e = None \<and> wr e = None then k
              else let interest = io_or IoEdgeTrig IoOneShot;
                       interest = (if rd e \<noteq> None then io_or interest IoRead else interest);
                       interest = (if wr e \<noteq> None then io_or interest IoWrite else interest)
                   in snd (ensure ctl fd interest r k))"

definition fire :: "pending_entry \<Rightarrow> io_mem \<Rightarrow> reactor \<Rightarrow> bool \<times> io_mem \<times> reactor" where
  "fire entry mem r =
     (if (case p_state entry of None \<Rightarrow> False | Some p \<Rightarrow> wstate mem p \<noteq> Pending) then (False, mem, r)
      else let mem1 = (case p_state entry of None \<Rightarrow> mem
                         | Some p \<Rightarrow> mem\<lparr>wstate := (wstate mem)(p := p_completion entry)\<rparr>);
               mem2 = (case p_result entry of None \<Rightarrow> mem1
                         | Some q \<Rightarrow> mem1\<lparr>results := (results mem1)(q := Ok 0)\<rparr>)
           in case p_handle entry of
                Some c \<Rightarrow> (True, mem2, r\<lparr>io_ready := io_ready r @ [c]\<rparr>)
              | None \<Rightarrow> (False, mem2, r))"

text \<open>The body of the loop over the reported events.\<close>

definition set_rd :: "int \<Rightarrow> pending_entry option \<Rightarrow> reactor \<Rightarrow> reactor" where
  "set_rd fd p r = r\<lparr>fd_slots := (fd_slots r)[nat fd := (fd_slots r ! nat fd)\<lparr>rd := p\<rparr>]\<rparr>"

definition set_wr :: "int \<Rightarrow> pending_entry option \<Rightarrow> reactor \<Rightarrow> reactor" where
  "set_wr fd p r = r\<lparr>fd_slots := (fd_slots r)[nat fd := (fd_slots r ! nat fd)\<lparr>wr := p\<rparr>]\<rparr>"

definition poll_event ::
  "'k epoll_ctl \<Rightarrow> int \<times> u32 \<Rightarrow> nat \<times> io_mem \<times> reactor \<times> 'k \<Rightarrow> nat \<times> io_mem \<times> reactor \<times> 'k" where
  "poll_event ctl ev acc =
     (let (fd, ep) = ev; (completed, mem, r, k) = acc
      in if fd < 0 \<or> length (fd_slots r) \<le> nat fd then acc
         else let e = fd_slots r ! nat fd
              in if rd e = None \<and> wr e = None then acc
                 else let err = (ep AND (EPOLLERR OR EPOLLHUP) \<noteq> 0);
                          (completed, mem, r) =
                            (case rd e of
                               Some p \<Rightarrow>
                                 if ep AND EPOLLIN \<noteq> 0 \<or> err
                                 then let (b, mem1, r1) = fire p mem r
                                      in (if b then completed + 1 else completed, mem1, set_rd fd None r1)
                                 else (completed, mem, r)
                             | None \<Rightarrow> (completed, mem, r));
                          (completed, mem, r) =
                            (case wr e of
                               Some p \<Rightarrow>
                                 if ep AND EPOLLOUT \<noteq> 0 \<or> err
                                 then let (b, mem1, r1) = fire p mem r
                                      in (if b then completed + 1 else completed, mem1, set_wr fd None r1)
                                 else (completed, mem, r)
                             | None \<Rightarrow> (completed, mem, r))
                      in (completed, mem, r, rearm_or_erase ctl fd r k))"

definition poll_timeout_ms :: "duration \<Rightarrow> int" where
  "poll_timeout_ms timeout =
     (let ms = duration_cast_ms timeout in signed_take_bit 31 (if ms < 0 then -1 else ms))"

definition poll ::
  "'k epoll_ctl \<Rightarrow> 'k epoll_wait \<Rightarrow> duration \<Rightarrow> io_mem \<Rightarrow> reactor \<Rightarrow> 'k
     \<Rightarrow> nat result \<times> io_mem \<times> reactor \<times> 'k" where
  "poll ctl wait timeout mem r k =
     (case wait (epoll_fd r) kMaxEventsPerPoll (poll_timeout_ms timeout) k of
        (Inl e, k1) \<Rightarrow> if e = EINTR then (Ok 0, mem, r, k1) else (Err (from_errno e), mem, r, k1)
      | (Inr events, k1) \<Rightarrow>
          let (completed, mem1, r1, k2) = fold (poll_event ctl) events (0, mem, r, k1)
          in (Ok completed, mem1, r1, k2))"

definition register_read ::
  "'k epoll_ctl \<Rightarrow> int \<Rightarrow> handle \<Rightarrow> nat option \<Rightarrow> state_ptr \<Rightarrow> wait_state \<Rightarrow> reactor \<Rightarrow> 'k
     \<Rightarrow> unit result \<times> reactor \<times> 'k" where
  "register_read ctl fd h result_ptr state completion r k =
     (if fd < 0 then (Err (make_error EBADF ''register_read: negative fd''), r, k)
      else let r1 = ensure_slot fd r; e = fd_slots r1 ! nat fd
           in if rd e \<noteq> None
              then (Err (make_error EBUSY ''register_read: read already pending on fd''), r1, k)
              else let r2 = set_rd fd (Some \<lparr>p_handle = h, p_result = result_ptr, p_state = state,
                                             p_completion = completion\<rparr>) r1;
                       interest = io_or (io_or IoRead IoEdgeTrig) IoOneShot;
                       interest = (if wr e \<noteq> None then io_or interest IoWrite else interest)
                   in case ensure ctl fd interest r2 k of
                        (Inl err, k1) \<Rightarrow> (Err err, set_rd fd None r2, k1)
                      | (Inr u, k1) \<Rightarrow> (Ok (), r2, k1))"

definition register_write ::
  "'k epoll_ctl \<Rightarrow> int \<Rightarrow> handle \<Rightarrow> nat option \<Rightarrow> state_ptr \<Rightarrow> wait_state \<Rightarrow> reactor \<Rightarrow> 'k
     \<Rightarrow> unit result \<times> reactor \<times> 'k" where
  "register_write ctl fd h result_ptr state completion r k =
     (if fd < 0 then (Err (make_error EBADF ''register_write: negative fd''), r, k)
      else let r1 = ensure_slot fd r; e = fd_slots r1 ! nat fd
           in if wr e \<noteq> None
              then (Err (make_error EBUSY ''register_write: write already pending on fd''), r1, k)
              else let r2 = set_wr fd (Some \<lparr>p_handle = h, p_result = result_ptr, p_state = state,
                                             p_completion = completion\<rparr>) r1;
                       interest = io_or (io_or IoWrite IoEdgeTrig) IoOneShot;
                       interest = (if rd e \<noteq> None then io_or interest IoRead else interest)
                   in case ensure ctl fd interest r2 k of
                        (Inl err, k1) \<Rightarrow> (Err err, set_wr fd None r2, k1)
                      | (Inr u, k1) \<Rightarrow> (Ok (), r2, k1))"

definition deregister :: "int \<Rightarrow> reactor \<Rightarrow> reactor" where
  "deregister fd r = clear_slot fd r"

definition deregister_dir ::
  "'k epoll_ctl \<Rightarrow> int \<Rightarrow> io_event \<Rightarrow> reactor \<Rightarrow> 'k \<Rightarrow> reactor \<times> 'k" where
  "deregister_dir ctl fd dir r k =
     (if fd < 0 \<or> length (fd_slots r) \<le> nat fd then (r, k)
      else let e = fd_slots r ! nat fd
           in if rd e = None \<and> wr e = None then (r, k)
              else let r1 = (if has_flag dir IoRead then set_rd fd None r else r);
                       r2 = (if has_flag dir IoWrite then set_wr fd None r1 else r1)
                   in (r2, rearm_or_erase ctl fd r2 k))"

definition reactor_drain_ready :: "reactor \<Rightarrow> coro list \<times> reactor" where
  "reactor_drain_ready r = (io_ready r, r\<lparr>io_ready := []\<rparr>)"

definition reactor_drain_ready_into :: "coro list \<Rightarrow> reactor \<Rightarrow> coro list \<times> reactor" where
  "reactor_drain_ready_into out r = (out @ io_ready r, r\<lparr>io_ready := []\<rparr>)"

definition reactor_valid :: "reactor \<Rightarrow> bool" where
  "reactor_valid r = (0 \<le> epoll_fd r)"

text \<open>\<open>close_errno\<close> is what \<open>close(2)\<close> answers for the epoll descriptor.\<close>

definition reactor_close :: "int option \<Rightarrow> reactor \<Rightarrow> unit result \<times> reactor" where
  "reactor_close close_errno r =
     (let first_error = (if 0 \<le> epoll_fd r then map_option from_errno close_errno else None)
      in (case first_error of Some e \<Rightarrow> Err e | None \<Rightarrow> Ok (),
          \<lparr>epoll_fd = (if 0 \<le> epoll_fd r then -1 else epoll_fd r), fd_slots = [], io_ready = []\<rparr>))"

text \<open>Moving a reactor leaves a shell that owns nothing; assigning to one closes it first.\<close>

definition reactor_move :: "reactor \<Rightarrow> reactor \<times> reactor" where
  "reactor_move other = (other, \<lparr>epoll_fd = -1, fd_slots = [], io_ready = []\<rparr>)"

definition reactor_move_assign :: "int option \<Rightarrow> reactor \<Rightarrow> reactor \<Rightarrow> reactor \<times> reactor" where
  "reactor_move_assign close_errno this other =
     (let closed_this = snd (reactor_close close_errno this)
      in (closed_this\<lparr>epoll_fd := epoll_fd other, fd_slots := fd_slots other, io_ready := io_ready other\<rparr>,
          other\<lparr>epoll_fd := -1, fd_slots := [], io_ready := []\<rparr>))"

end
