(* ===== verification/Signal.thy ===== *)
theory Signal
  imports Reactor
begin

text \<open>
  Signals as I/O, \<^verbatim>\<open>src/async/signal.hpp\<close>: a \<open>SignalSet\<close> blocks its signals for the
  calling thread, reads them from a \<open>signalfd\<close> and puts the thread's mask back when it is closed;
  a \<open>SignalAwaiter\<close> waits for the descriptor in the reactor. \<open>pthread_sigmask\<close>, \<open>signalfd\<close>,
  \<open>read\<close> and \<open>close\<close> act on the kernel's state \<open>'k\<close>.
\<close>

section \<open>Signal information\<close>

record signalfd_siginfo =
  ssi_signo :: u32
  ssi_pid :: u32
  ssi_uid :: u32

record signal_info =
  signo :: int
  pid :: int
  uid :: int

definition from_raw_signal :: "signalfd_siginfo \<Rightarrow> signal_info" where
  "from_raw_signal raw =
     \<lparr>signo = sint (ssi_signo raw), pid = sint (ssi_pid raw), uid = sint (ssi_uid raw)\<rparr>"

section \<open>The signal set\<close>

type_synonym sigset = "int set"

record signal_set =
  sig_fd :: int
  sig_mask :: sigset
  old_mask :: sigset

datatype mask_how = SIG_BLOCK | SIG_SETMASK

text \<open>\<open>pthread_sigmask\<close> answers 0 or an error number, and the mask as it was.\<close>

record 'k signal_calls =
  pthread_sigmask :: "mask_how \<Rightarrow> sigset \<Rightarrow> 'k \<Rightarrow> int \<times> sigset \<times> 'k"
  signalfd :: "sigset \<Rightarrow> 'k \<Rightarrow> (int + int) \<times> 'k"
  close_sigfd :: "int \<Rightarrow> 'k \<Rightarrow> int option \<times> 'k"
  read_sigfd :: "int \<Rightarrow> 'k \<Rightarrow> (int + nat \<times> signalfd_siginfo) \<times> 'k"
  errno_of :: "'k \<Rightarrow> int"
  valid_signal :: "int \<Rightarrow> bool"

definition sigaddset :: "'k signal_calls \<Rightarrow> int \<Rightarrow> sigset \<Rightarrow> sigset" where
  "sigaddset sys sig m = (if valid_signal sys sig then insert sig m else m)"

definition signal_set_create :: "'k signal_calls \<Rightarrow> int list \<Rightarrow> 'k \<Rightarrow> signal_set result \<times> 'k" where
  "signal_set_create sys signals k =
     (let m = fold (sigaddset sys) signals {};
          (rc, old, k1) = pthread_sigmask sys SIG_BLOCK m k
      in if rc < 0 then (Err (from_errno (errno_of sys k1)), k1)
         else case signalfd sys m k1 of
                (Inl e, k2) \<Rightarrow>
                  let (_, _, k3) = pthread_sigmask sys SIG_SETMASK old k2
                  in (Err (from_errno (errno_of sys k3)), k3)
              | (Inr fd, k2) \<Rightarrow> (Ok \<lparr>sig_fd = fd, sig_mask = m, old_mask = old\<rparr>, k2))"

definition sizeof_siginfo :: nat where
  "sizeof_siginfo = 128"

definition read_signal :: "'k signal_calls \<Rightarrow> signal_set \<Rightarrow> 'k \<Rightarrow> signal_info result \<times> 'k" where
  "read_signal sys s k =
     (case read_sigfd sys (sig_fd s) k of
        (Inl e, k1) \<Rightarrow> (Err (from_errno e), k1)
      | (Inr (n, info), k1) \<Rightarrow>
          if n \<noteq> sizeof_siginfo then (Err (make_error EMSGSIZE ''signalfd short read''), k1)
          else (Ok (from_raw_signal info), k1))"

definition signal_set_valid :: "signal_set \<Rightarrow> bool" where
  "signal_set_valid s = (0 \<le> sig_fd s)"

definition signal_set_close :: "'k signal_calls \<Rightarrow> signal_set \<Rightarrow> 'k \<Rightarrow> unit result \<times> signal_set \<times> 'k" where
  "signal_set_close sys s k =
     (if sig_fd s < 0 then (Ok (), s, k)
      else let (ce, k1) = close_sigfd sys (sig_fd s) k;
               first_error = map_option from_errno ce;
               s1 = s\<lparr>sig_fd := -1\<rparr>;
               (rc, _, k2) = pthread_sigmask sys SIG_SETMASK (old_mask s) k1;
               first_error = (if rc < 0 \<and> first_error = None then Some (from_errno (errno_of sys k2)) else first_error)
           in (case first_error of Some e \<Rightarrow> Err e | None \<Rightarrow> Ok (), s1, k2))"

definition signal_set_move :: "signal_set \<Rightarrow> signal_set \<times> signal_set" where
  "signal_set_move other = (other, other\<lparr>sig_fd := -1\<rparr>)"

definition signal_set_move_assign ::
  "'k signal_calls \<Rightarrow> signal_set \<Rightarrow> signal_set \<Rightarrow> 'k \<Rightarrow> signal_set \<times> signal_set \<times> 'k" where
  "signal_set_move_assign sys s other k =
     (let (_, _, k1) = signal_set_close sys s k in (other, other\<lparr>sig_fd := -1\<rparr>, k1))"

section \<open>The awaiter\<close>

text \<open>\<open>readiness_\<close> is a cell of the awaiter that the reactor writes; its address is \<open>sw_readiness\<close>.\<close>

record signal_awaiter =
  sw_signals :: signal_set
  sw_readiness :: nat

definition signal_not_completed :: "nat result" where
  "signal_not_completed = Err (make_error ECANCELED ''signal wait not completed'')"

definition signal_await_suspend ::
  "'k epoll_ctl \<Rightarrow> coro \<Rightarrow> signal_awaiter \<Rightarrow> io_mem \<times> reactor \<times> 'k \<Rightarrow> bool \<times> io_mem \<times> reactor \<times> 'k" where
  "signal_await_suspend ctl h aw st =
     (let (mem, r, k) = st
      in case register_read ctl (sig_fd (sw_signals aw)) (Some h) (Some (sw_readiness aw)) None Ready r k of
           (Inl e, r1, k1) \<Rightarrow> (False, mem\<lparr>results := (results mem)(sw_readiness aw := Err e)\<rparr>, r1, k1)
         | (Inr _, r1, k1) \<Rightarrow> (True, mem, r1, k1))"

definition signal_await_resume ::
  "'k signal_calls \<Rightarrow> signal_awaiter \<Rightarrow> io_mem \<Rightarrow> 'k \<Rightarrow> signal_info result \<times> 'k" where
  "signal_await_resume sys aw mem k =
     (case results mem (sw_readiness aw) of
        Inl e \<Rightarrow> (Err e, k)
      | Inr _ \<Rightarrow> read_signal sys (sw_signals aw) k)"

section \<open>Properties\<close>

text \<open>
  What the manual pages say of the calls, for \<open>blocked\<close> the calling thread's mask: \<open>pthread_sigmask\<close>
  reports the previous mask and changes the mask as asked (its errors, \<open>EINVAL\<close> and
  \<open>EFAULT\<close>, are for bad arguments, and positive numbers); the other calls do not touch the mask.
\<close>

definition signal_laws :: "'k signal_calls \<Rightarrow> ('k \<Rightarrow> sigset) \<Rightarrow> bool" where
  "signal_laws sys blocked \<longleftrightarrow>
     (\<forall>m k rc old k'. pthread_sigmask sys SIG_BLOCK m k = (rc, old, k') \<longrightarrow>
        rc = 0 \<and> old = blocked k \<and> blocked k' = blocked k \<union> m) \<and>
     (\<forall>m k rc old k'. pthread_sigmask sys SIG_SETMASK m k = (rc, old, k') \<longrightarrow>
        rc = 0 \<and> old = blocked k \<and> blocked k' = m) \<and>
     (\<forall>m k r k'. signalfd sys m k = (r, k') \<longrightarrow> blocked k' = blocked k \<and> (\<forall>fd. r = Inr fd \<longrightarrow> 0 \<le> fd)) \<and>
     (\<forall>fd k e k'. close_sigfd sys fd k = (e, k') \<longrightarrow> blocked k' = blocked k)"

lemma signal_create_spec:
  assumes "signal_laws sys blocked" "signal_set_create sys signals k = (res, k')"
  shows "case res of
           Inl e \<Rightarrow> blocked k' = blocked k
         | Inr s \<Rightarrow> 0 \<le> sig_fd s \<and> old_mask s = blocked k \<and> blocked k' = blocked k \<union> sig_mask s"
proof -
  let ?m = "fold (sigaddset sys) signals {}"
  obtain rc old k1 where b: "pthread_sigmask sys SIG_BLOCK ?m k = (rc, old, k1)" using prod_cases3 by blast
  obtain r k2 where s: "signalfd sys ?m k1 = (r, k2)" by fastforce
  obtain rc' old' k3 where r: "pthread_sigmask sys SIG_SETMASK old k2 = (rc', old', k3)" using prod_cases3 by blast
  have "rc = 0 \<and> old = blocked k \<and> blocked k1 = blocked k \<union> ?m"
    using assms(1) b unfolding signal_laws_def by metis
  moreover have "blocked k2 = blocked k1 \<and> (\<forall>fd. r = Inr fd \<longrightarrow> 0 \<le> fd)"
    using assms(1) s unfolding signal_laws_def by metis
  moreover have "blocked k3 = old"
    using assms(1) r unfolding signal_laws_def by metis
  ultimately show ?thesis
    using assms(2) b s r by (cases r) (auto simp: signal_set_create_def)
qed

lemma signal_close_spec:
  assumes "signal_laws sys blocked" "0 \<le> sig_fd s" "signal_set_close sys s k = (res, s', k')"
  shows "blocked k' = old_mask s \<and> sig_fd s' = -1"
proof -
  obtain ce k1 where c: "close_sigfd sys (sig_fd s) k = (ce, k1)" by fastforce
  obtain rc old k2 where r: "pthread_sigmask sys SIG_SETMASK (old_mask s) k1 = (rc, old, k2)" using prod_cases3 by blast
  have "blocked k2 = old_mask s"
    using assms(1) r unfolding signal_laws_def by metis
  then show ?thesis
    using assms(2,3) c r by (auto simp: signal_set_close_def Let_def)
qed

text \<open>
  C26. A signal set gives the thread its mask back. When creating one fails, the thread's signal mask
  is what it was; when it succeeds, the mask has the set's signals in addition, and closing the set,
  whatever happened to the masks in between, restores exactly the mask from before its creation, once:
  closing it again does nothing.
\<close>

theorem signal_set_restores_mask:
  assumes "signal_laws sys blocked" "signal_set_create sys signals k = (res, k1)"
  shows "case res of
      Inl e \<Rightarrow> blocked k1 = blocked k
    | Inr s \<Rightarrow> blocked k1 = blocked k \<union> sig_mask s \<and>
        (\<forall>k2 r2 s2 k3. signal_set_close sys s k2 = (r2, s2, k3) \<longrightarrow>
           blocked k3 = blocked k \<and> (\<forall>k4. signal_set_close sys s2 k4 = (Ok (), s2, k4)))"
proof (cases res)
  case (Inl e)
  then show ?thesis using signal_create_spec [OF assms] by simp
next
  case (Inr s)
  then have s: "0 \<le> sig_fd s" "old_mask s = blocked k" "blocked k1 = blocked k \<union> sig_mask s"
    using signal_create_spec [OF assms] by simp_all
  have "blocked k3 = blocked k \<and> (\<forall>k4. signal_set_close sys s2 k4 = (Ok (), s2, k4))"
    if "signal_set_close sys s k2 = (r2, s2, k3)" for k2 r2 s2 k3
    using signal_close_spec [OF assms(1) s(1) that] s(2) by (simp add: signal_set_close_def [of _ s2])
  with s(3) show ?thesis unfolding Inr sum.case by blast
qed

definition sample_signals :: "sigset signal_calls" where
  "sample_signals = \<lparr>pthread_sigmask = (\<lambda>how m k. case how of SIG_BLOCK \<Rightarrow> (0, k, k \<union> m) | SIG_SETMASK \<Rightarrow> (0, k, m)),
     signalfd = (\<lambda>m k. (Inr 9, k)), close_sigfd = (\<lambda>fd k. (None, k)),
     read_sigfd = (\<lambda>fd k. (Inl EAGAIN, k)), errno_of = (\<lambda>k. EAGAIN),
     valid_signal = (\<lambda>s. 1 \<le> s \<and> s \<le> 64)\<rparr>"

theorem signal_set_restores_mask_witness:
  "\<exists>s k1. signal_set_create sample_signals [2, 15, 99] {10} = (Ok s, k1) \<and> k1 = {2, 10, 15} \<and>
     (\<exists>r s2. signal_set_close sample_signals s {1, 2, 3} = (r, s2, {10}))"
proof -
  have laws: "signal_laws sample_signals id"
    by (auto simp: signal_laws_def sample_signals_def)
  obtain res k1 where c: "signal_set_create sample_signals [2, 15, 99] {10} = (res, k1)" by fastforce
  then obtain s where s: "res = Ok s" "sig_mask s = {15, 2}"
    by (auto simp: signal_set_create_def sample_signals_def sigaddset_def Let_def)
  obtain r s2 k3 where "signal_set_close sample_signals s {1, 2, 3} = (r, s2, k3)" using prod_cases3 by blast
  with signal_set_restores_mask [OF laws c] s c show ?thesis by (auto simp: insert_commute)
qed

end
