(* ===== verification/Event_Loop.thy ===== *)
theory Event_Loop
  imports Task Signal Timer_Wheel
begin

text \<open>
  The event loop, \<^verbatim>\<open>src/async/event_loop.hpp\<close>, and the state of one core. The record
  \<open>event_loop\<close> has the members of the class \<open>EventLoop\<close>; \<open>core\<close> adds what the loop's
  thread reaches through pointers: the awaiters' wait states and result cells, the coroutine frames,
  the stop states and the rest of the world (\<open>'w\<close>: kernel, clock, program data). \<open>run\<close> installs
  the loop in the thread-local pointers, so on its thread they are this core.

  What a coroutine does when it is resumed is a parameter (\<open>resume\<close>), as are the kernel's calls.
  \<open>storage\<close> in an \<open>OwnedTask\<close> keeps the frame alive and is the same handle.
\<close>

section \<open>The state of a core\<close>

text \<open>
  The closures the awaiters install as stop callbacks, with what they capture: \<open>CancelIo\<close> of the
  readiness, connect and accept awaiters (descriptor, direction, wait state, handle),
  \<open>CancelTimed\<close> of the timed awaiter (also its timer), \<open>CancelSleep\<close> of the sleep awaiter.
\<close>

datatype cancel_cb =
    CancelIo int io_event nat handle
  | CancelTimed int io_event nat handle timer_id
  | CancelSleep nat handle timer_id

record event_loop =
  l_reactor :: reactor
  l_timer :: wheel
  l_signals :: "signal_set option"
  owned_tasks :: "handle list"
  ready_queue :: "handle list"
  stop_source :: stop_token
  graceful_source :: stop_token
  cross_core_fd :: int
  cross_core_queue :: "handle list"

record ('v, 'w) core = event_loop +
  cells :: io_mem
  frames :: "'v frames"
  stops :: "cancel_cb stop_states"
  world :: 'w

record ('v, 'w) sys =
  epoll_create1 :: "'w \<Rightarrow> (int + int) \<times> 'w"
  eventfd :: "'w \<Rightarrow> (int + int) \<times> 'w"
  epoll_ctl :: "'w epoll_ctl"
  epoll_wait :: "'w epoll_wait"
  close_fd :: "int \<Rightarrow> 'w \<Rightarrow> int option \<times> 'w"
  write_eventfd :: "int \<Rightarrow> 'w \<Rightarrow> (int + nat) \<times> 'w"
  read_eventfd :: "int \<Rightarrow> 'w \<Rightarrow> 'w"
  clock_now :: "'w \<Rightarrow> time_point \<times> 'w"
  sys_errno :: "'w \<Rightarrow> int"
  resume :: "coro \<Rightarrow> ('v, 'w) core \<Rightarrow> ('v, 'w) core"

section \<open>Creation\<close>

definition event_loop_create ::
  "('v, 'w) sys \<Rightarrow> cancel_cb stop_states \<Rightarrow> 'w \<Rightarrow> event_loop result \<times> cancel_cb stop_states \<times> 'w" where
  "event_loop_create sys st w =
     (let (ep, w1) = epoll_create1 sys w
      in case reactor_create ep of
           Inl e \<Rightarrow> (Err e, st, w1)
         | Inr r \<Rightarrow>
             (case eventfd sys w1 of
                (Inl e, w2) \<Rightarrow> (Err (from_errno e), st, w2)
              | (Inr wakeup_fd, w2) \<Rightarrow>
                  (case reactor_add (epoll_ctl sys) wakeup_fd (io_or IoRead IoEdgeTrig) r w2 of
                     (Inl e, w3) \<Rightarrow> (Err e, st, snd (close_fd sys wakeup_fd w3))
                   | (Inr _, w3) \<Rightarrow>
                       let (now, w4) = clock_now sys w3;
                           (s1, st1) = new_stop_source st;
                           (s2, st2) = new_stop_source st1
                       in (Ok \<lparr>l_reactor = r, l_timer = new_wheel now, l_signals = None, owned_tasks = [],
                              ready_queue = [], stop_source = s1, graceful_source = s2,
                              cross_core_fd = wakeup_fd, cross_core_queue = []\<rparr>, st2, w4))))"

text \<open>Moving a loop leaves a shell without the wake-up descriptor, so only one object closes it.\<close>

definition wheel_moved_from :: "wheel \<Rightarrow> wheel" where
  "wheel_moved_from w =
     w\<lparr>levels := map (\<lambda>l. l\<lparr>slots := []\<rparr>) (levels w), slotmap := [], free_indices := [], ready := []\<rparr>"

definition event_loop_move :: "event_loop \<Rightarrow> event_loop \<times> event_loop" where
  "event_loop_move other =
     (other, other\<lparr>l_reactor := snd (reactor_move (l_reactor other)), l_timer := wheel_moved_from (l_timer other),
                   l_signals := map_option (\<lambda>s. snd (signal_set_move s)) (l_signals other),
                   owned_tasks := [], ready_queue := [], stop_source := None, graceful_source := None,
                   cross_core_fd := -1, cross_core_queue := []\<rparr>)"

definition event_loop_destroy :: "('v, 'w) sys \<Rightarrow> event_loop \<Rightarrow> 'w \<Rightarrow> 'w" where
  "event_loop_destroy sys l w = (if 0 \<le> cross_core_fd l then snd (close_fd sys (cross_core_fd l) w) else w)"

definition add_signals ::
  "'w signal_calls \<Rightarrow> int list \<Rightarrow> ('v, 'w) core \<Rightarrow> unit result \<times> ('v, 'w) core" where
  "add_signals sc signals c =
     (case signal_set_create sc signals (world c) of
        (Inl e, w) \<Rightarrow> (Err e, c\<lparr>world := w\<rparr>)
      | (Inr s, w) \<Rightarrow> (Ok (), c\<lparr>l_signals := Some s, world := w\<rparr>))"

definition wait_signal :: "nat \<Rightarrow> ('v, 'w) core \<Rightarrow> signal_awaiter result \<times> ('v, 'w) core" where
  "wait_signal cell c =
     (case l_signals c of
        None \<Rightarrow> (Err (make_error EPERM ''signals not configured; call add_signals first''), c)
      | Some s \<Rightarrow> (Ok \<lparr>sw_signals = s, sw_readiness = cell\<rparr>,
                   c\<lparr>cells := (cells c)\<lparr>results := (results (cells c))(cell := signal_not_completed)\<rparr>\<rparr>))"

definition has_signals :: "event_loop \<Rightarrow> bool" where
  "has_signals l = (l_signals l \<noteq> None)"

section \<open>Tasks enter the loop\<close>

definition enqueue :: "handle \<Rightarrow> ('v, 'w) core \<Rightarrow> ('v, 'w) core" where
  "enqueue h c = c\<lparr>owned_tasks := owned_tasks c @ [h], ready_queue := ready_queue c @ [h]\<rparr>"

definition spawn :: "handle \<Rightarrow> ('v, 'w) core \<Rightarrow> ('v, 'w) core" where
  "spawn task c = enqueue task c"

definition spawn_with_handle :: "handle \<Rightarrow> ('v, 'w) core \<Rightarrow> handle \<times> ('v, 'w) core" where
  "spawn_with_handle task c = (task, enqueue task c)"

definition spawn_service :: "handle \<Rightarrow> ('v, 'w) core \<Rightarrow> ('v, 'w) core" where
  "spawn_service task c =
     spawn task (c\<lparr>frames := task_set_cancellation (graceful_source c) task (frames c)\<rparr>)"

definition submit :: "('v, 'w) sys \<Rightarrow> handle \<Rightarrow> ('v, 'w) core \<Rightarrow> unit result \<times> ('v, 'w) core" where
  "submit sys task c =
     (let c1 = c\<lparr>cross_core_queue := cross_core_queue c @ [task]\<rparr>;
          (n, w) = write_eventfd sys (cross_core_fd c1) (world c1);
          c2 = c1\<lparr>world := w\<rparr>
      in case n of
           Inl e \<Rightarrow> (Err (from_errno e), c2)
         | Inr m \<Rightarrow> if m \<noteq> 8 then (Err (from_errno (sys_errno sys w)), c2) else (Ok (), c2))"

definition notify :: "handle \<Rightarrow> ('v, 'w) core \<Rightarrow> ('v, 'w) core" where
  "notify h c = c\<lparr>ready_queue := ready_queue c @ [h]\<rparr>"

section \<open>Cancellation callbacks\<close>

text \<open>
  The bodies of the closures (\<^verbatim>\<open>net/io_awaiters.hpp\<close>, \<^verbatim>\<open>net/accept_awaiter.hpp\<close>,
  \<^verbatim>\<open>async/timer.hpp\<close>). They run in the thread that requests the stop: \<open>owner\<close> says that its
  \<open>g_event_loop\<close> is this loop; in a thread that runs no loop it is null.
\<close>

definition notify_current :: "bool \<Rightarrow> handle \<Rightarrow> ('v, 'w) core \<Rightarrow> ('v, 'w) core" where
  "notify_current owner h c = (if owner \<and> h \<noteq> None then notify h c else c)"

definition set_wait_state :: "nat \<Rightarrow> wait_state \<Rightarrow> ('v, 'w) core \<Rightarrow> ('v, 'w) core" where
  "set_wait_state s v c = c\<lparr>cells := (cells c)\<lparr>wstate := (wstate (cells c))(s := v)\<rparr>\<rparr>"

definition core_deregister :: "('v, 'w) sys \<Rightarrow> int \<Rightarrow> io_event \<Rightarrow> ('v, 'w) core \<Rightarrow> ('v, 'w) core" where
  "core_deregister sys fd dir c =
     (let (r, w) = deregister_dir (epoll_ctl sys) fd dir (l_reactor c) (world c)
      in c\<lparr>l_reactor := r, world := w\<rparr>)"

definition core_cancel_timer :: "timer_id \<Rightarrow> ('v, 'w) core \<Rightarrow> ('v, 'w) core" where
  "core_cancel_timer tid c = c\<lparr>l_timer := snd (cancel tid (l_timer c))\<rparr>"

definition cancel_io_wait ::
  "('v, 'w) sys \<Rightarrow> bool \<Rightarrow> int \<Rightarrow> io_event \<Rightarrow> nat \<Rightarrow> handle \<Rightarrow> ('v, 'w) core \<Rightarrow> ('v, 'w) core" where
  "cancel_io_wait sys owner fd dir s h c =
     (if wstate (cells c) s \<noteq> Pending then c
      else notify_current owner h (core_deregister sys fd dir (set_wait_state s Cancelled c)))"

definition cancel_timed_wait ::
  "('v, 'w) sys \<Rightarrow> bool \<Rightarrow> int \<Rightarrow> io_event \<Rightarrow> nat \<Rightarrow> handle \<Rightarrow> timer_id \<Rightarrow> ('v, 'w) core \<Rightarrow> ('v, 'w) core" where
  "cancel_timed_wait sys owner fd dir s h tid c =
     (if wstate (cells c) s \<noteq> Pending then c
      else notify_current owner h
             (core_deregister sys fd dir (core_cancel_timer tid (set_wait_state s Cancelled c))))"

definition cancel_sleep :: "nat \<Rightarrow> handle \<Rightarrow> timer_id \<Rightarrow> ('v, 'w) core \<Rightarrow> ('v, 'w) core" where
  "cancel_sleep s h tid c =
     (if wstate (cells c) s \<noteq> Pending then c
      else let c1 = core_cancel_timer tid (set_wait_state s Cancelled c)
           in case h of None \<Rightarrow> c1 | Some x \<Rightarrow> c1\<lparr>l_timer := wake x (l_timer c1)\<rparr>)"

fun run_callback :: "('v, 'w) sys \<Rightarrow> bool \<Rightarrow> cancel_cb \<Rightarrow> ('v, 'w) core \<Rightarrow> ('v, 'w) core" where
  "run_callback sys owner (CancelIo fd dir s h) c = cancel_io_wait sys owner fd dir s h c"
| "run_callback sys owner (CancelTimed fd dir s h tid) c = cancel_timed_wait sys owner fd dir s h tid c"
| "run_callback sys owner (CancelSleep s h tid) c = cancel_sleep s h tid c"

definition core_request_stop :: "('v, 'w) sys \<Rightarrow> bool \<Rightarrow> stop_token \<Rightarrow> ('v, 'w) core \<Rightarrow> ('v, 'w) core" where
  "core_request_stop sys owner src c =
     (let (cbs, st) = source_request_stop src (stops c)
      in fold (run_callback sys owner) cbs (c\<lparr>stops := st\<rparr>))"

section \<open>The main loop\<close>

definition kDefaultPollTimeout :: duration where
  "kDefaultPollTimeout = kTickDuration * 10"

text \<open>
  Resuming the ready coroutines: the queue is swapped out first, so what they queue waits for the
  next round, and a handle is tested just before it would be resumed.
\<close>

definition resume_one :: "('v, 'w) sys \<Rightarrow> handle \<Rightarrow> ('v, 'w) core \<Rightarrow> ('v, 'w) core" where
  "resume_one sys h c =
     (case h of None \<Rightarrow> c | Some x \<Rightarrow> if h_done (frames c) x then c else resume sys x c)"

definition resume_ready :: "('v, 'w) sys \<Rightarrow> ('v, 'w) core \<Rightarrow> ('v, 'w) core" where
  "resume_ready sys c = fold (resume_one sys) (ready_queue c) (c\<lparr>ready_queue := []\<rparr>)"

text \<open>Forgetting a finished task destroys its frame with the \<open>Task\<close> in its storage.\<close>

definition task_finished :: "'v frames \<Rightarrow> handle \<Rightarrow> bool" where
  "task_finished fs h = (case h of None \<Rightarrow> True | Some x \<Rightarrow> h_done fs x)"

definition cleanup_completed :: "('v, 'w) core \<Rightarrow> ('v, 'w) core" where
  "cleanup_completed c =
     c\<lparr>owned_tasks := filter (\<lambda>h. \<not> task_finished (frames c) h) (owned_tasks c),
       frames := fold task_destroy (filter (task_finished (frames c)) (owned_tasks c)) (frames c)\<rparr>"

definition drain_cross_core :: "('v, 'w) sys \<Rightarrow> ('v, 'w) core \<Rightarrow> ('v, 'w) core" where
  "drain_cross_core sys c =
     c\<lparr>ready_queue := ready_queue c @ cross_core_queue c, owned_tasks := owned_tasks c @ cross_core_queue c,
       cross_core_queue := [], world := read_eventfd sys (cross_core_fd c) (world c)\<rparr>"

definition poll_timeout :: "time_point \<Rightarrow> wheel \<Rightarrow> duration" where
  "poll_timeout now t =
     (case next_deadline t of
        None \<Rightarrow> kDefaultPollTimeout
      | Some next \<Rightarrow>
          let remaining = next - now
          in if remaining \<le> 0 then 0
             else if remaining < kDefaultPollTimeout then remaining
             else kDefaultPollTimeout)"

definition poll_io :: "('v, 'w) sys \<Rightarrow> ('v, 'w) core \<Rightarrow> unit result \<times> ('v, 'w) core" where
  "poll_io sys c =
     (let (now, w1) = clock_now sys (world c);
          (res, mem, r, w2) = poll (epoll_ctl sys) (epoll_wait sys) (poll_timeout now (l_timer c)) (cells c) (l_reactor c) w1;
          c1 = c\<lparr>cells := mem, l_reactor := r, world := w2\<rparr>
      in case res of
           Inl e \<Rightarrow> (Err e, c1)
         | Inr _ \<Rightarrow>
             let (hs, r2) = reactor_drain_ready_into [] (l_reactor c1)
             in (Ok (), c1\<lparr>ready_queue := ready_queue c1 @ map Some hs, l_reactor := r2\<rparr>))"

definition advance_timer :: "('v, 'w) sys \<Rightarrow> ('v, 'w) core \<Rightarrow> ('v, 'w) core" where
  "advance_timer sys c =
     (let (now, w) = clock_now sys (world c);
          (_, wm, t) = advance_to (h_done (frames c)) now (wstate (cells c)) (l_timer c);
          (hs, t2) = drain_ready_into [] t
      in c\<lparr>world := w, cells := (cells c)\<lparr>wstate := wm\<rparr>, l_timer := t2, ready_queue := ready_queue c @ map Some hs\<rparr>)"

text \<open>One round of \<open>run\<close>, split where the thread may be overtaken by others, and the loop.\<close>

definition start_round :: "('v, 'w) sys \<Rightarrow> ('v, 'w) core \<Rightarrow> ('v, 'w) core" where
  "start_round sys c = cleanup_completed (resume_ready sys c)"

definition check_exit :: "('v, 'w) sys \<Rightarrow> ('v, 'w) core \<Rightarrow> bool \<times> ('v, 'w) core" where
  "check_exit sys c =
     (if owned_tasks c = []
      then let c1 = drain_cross_core sys c in (owned_tasks c1 = [], c1)
      else (False, c))"

definition run_round :: "('v, 'w) sys \<Rightarrow> ('v, 'w) core \<Rightarrow> unit result option \<times> ('v, 'w) core" where
  "run_round sys c =
     (if stop_requested (stop_source c) (stops c) then (Some (Ok ()), c)
      else let (exit, c1) = check_exit sys (start_round sys c)
           in if exit then (Some (Ok ()), c1)
              else case poll_io sys c1 of
                     (Inl e, c2) \<Rightarrow> (Some (Err e), c2)
                   | (Inr _, c2) \<Rightarrow> (None, drain_cross_core sys (advance_timer sys c2)))"

partial_function (option) run :: "('v, 'w) sys \<Rightarrow> ('v, 'w) core \<Rightarrow> (unit result \<times> ('v, 'w) core) option" where
  "run sys c =
     (case run_round sys c of
        (Some res, c1) \<Rightarrow> Some (res, c1)
      | (None, c1) \<Rightarrow> run sys c1)"

definition run_until_complete ::
  "('v, 'w) sys \<Rightarrow> handle \<Rightarrow> ('v, 'w) core \<Rightarrow> (unit result \<times> ('v, 'w) core) option" where
  "run_until_complete sys main_task c = run sys (enqueue main_task c)"

section \<open>Stopping\<close>

definition wake_loop :: "('v, 'w) sys \<Rightarrow> ('v, 'w) core \<Rightarrow> ('v, 'w) core" where
  "wake_loop sys c =
     (if 0 \<le> cross_core_fd c then c\<lparr>world := snd (write_eventfd sys (cross_core_fd c) (world c))\<rparr> else c)"

definition request_stop :: "('v, 'w) sys \<Rightarrow> bool \<Rightarrow> ('v, 'w) core \<Rightarrow> ('v, 'w) core" where
  "request_stop sys owner c = wake_loop sys (core_request_stop sys owner (stop_source c) c)"

definition shutdown_token :: "('v, 'w) core \<Rightarrow> stop_token" where
  "shutdown_token c = graceful_source c"

definition request_graceful_stop :: "('v, 'w) sys \<Rightarrow> bool \<Rightarrow> ('v, 'w) core \<Rightarrow> ('v, 'w) core" where
  "request_graceful_stop sys owner c = wake_loop sys (core_request_stop sys owner (graceful_source c) c)"

end
