(* ===== verification/Reactor_Proof.thy ===== *)
theory Reactor_Proof
  imports Reactor
begin

text \<open>
  The reactor refines a table of waiters. \<open>view\<close> reads the vector of descriptor slots as a total map
  from descriptors to the pair of waiters, free beyond its end; on that map every operation has a
  one-line specification, and the kernel's interest set follows it (\<open>armed\<close>).
\<close>

section \<open>Event masks\<close>

definition want :: "fd_entry \<Rightarrow> u32" where
  "want e = EPOLLET OR EPOLLONESHOT OR (if rd e \<noteq> None then EPOLLIN else 0)
     OR (if wr e \<noteq> None then EPOLLOUT else 0)"

lemma bit_epoll:
  "bit EPOLLIN n \<longleftrightarrow> n = 0" "bit EPOLLOUT n \<longleftrightarrow> n = 2" "bit EPOLLERR n \<longleftrightarrow> n = 3"
  "bit EPOLLHUP n \<longleftrightarrow> n = 4" "bit EPOLLONESHOT n \<longleftrightarrow> n = 30" "bit EPOLLET n \<longleftrightarrow> n = 31"
  unfolding epoll_defs by (subst bit_flag; auto)+

lemma bit_to_epoll_events:
  "bit (to_epoll_events ev) n \<longleftrightarrow>
     (n = 0 \<and> bit ev 0) \<or> (n = 2 \<and> bit ev 1) \<or> (n = 3 \<and> bit ev 2) \<or> (n = 4 \<and> bit ev 3) \<or>
     (n = 31 \<and> bit ev 4) \<or> (n = 30 \<and> bit ev 5)"
  unfolding to_epoll_events_def Let_def has_flag_bits
  by (auto simp: bit_or_iff bit_epoll)

lemma to_epoll_want:
  "to_epoll_events (if wr e \<noteq> None then io_or (io_or (io_or IoRead IoEdgeTrig) IoOneShot) IoWrite
                    else io_or (io_or IoRead IoEdgeTrig) IoOneShot) = want (e\<lparr>rd := Some p\<rparr>)"
  "to_epoll_events (if rd e \<noteq> None then io_or (io_or (io_or IoWrite IoEdgeTrig) IoOneShot) IoRead
                    else io_or (io_or IoWrite IoEdgeTrig) IoOneShot) = want (e\<lparr>wr := Some p\<rparr>)"
  by (rule bit_eqI; auto simp: bit_to_epoll_events bit_io_or bit_io_flags want_def bit_or_iff bit_epoll)+

lemma to_epoll_rearm:
  "to_epoll_events
     (if wr e \<noteq> None
      then io_or (if rd e \<noteq> None then io_or (io_or IoEdgeTrig IoOneShot) IoRead
                  else io_or IoEdgeTrig IoOneShot) IoWrite
      else if rd e \<noteq> None then io_or (io_or IoEdgeTrig IoOneShot) IoRead
           else io_or IoEdgeTrig IoOneShot) = want e"
  by (rule bit_eqI) (auto simp: bit_to_epoll_events bit_io_or bit_io_flags want_def bit_or_iff bit_epoll)

section \<open>The view\<close>

definition view :: "reactor \<Rightarrow> int \<Rightarrow> fd_entry" where
  "view r fd = (if 0 \<le> fd \<and> nat fd < length (fd_slots r) then fd_slots r ! nat fd else empty_entry)"

lemma free_entry_iff: "free_entry e \<longleftrightarrow> e = empty_entry"
  by (cases e) (simp add: free_entry_def empty_entry_def)

lemma view_cong: "fd_slots r = fd_slots r' \<Longrightarrow> view r = view r'"
  by (simp add: view_def fun_eq_iff)

lemma view_io_ready [simp]: "view (r\<lparr>io_ready := hs\<rparr>) = view r"
  by (rule view_cong) simp

lemma view_ensure_slot [simp]: "view (ensure_slot fd r) = view r"
  by (auto simp: fun_eq_iff view_def ensure_slot_def nth_append)

lemma ensure_slot_bound: "0 \<le> fd \<Longrightarrow> nat fd < length (fd_slots (ensure_slot fd r))"
  by (simp add: ensure_slot_def)

lemma view_slot: "0 \<le> fd \<Longrightarrow> nat fd < length (fd_slots r) \<Longrightarrow> fd_slots r ! nat fd = view r fd"
  by (simp add: view_def)

lemma view_set_rd:
  "0 \<le> fd \<Longrightarrow> nat fd < length (fd_slots r) \<Longrightarrow> view (set_rd fd p r) = (view r)(fd := (view r fd)\<lparr>rd := p\<rparr>)"
  by (auto simp: fun_eq_iff view_def set_rd_def nth_list_update_if)

lemma view_set_wr:
  "0 \<le> fd \<Longrightarrow> nat fd < length (fd_slots r) \<Longrightarrow> view (set_wr fd p r) = (view r)(fd := (view r fd)\<lparr>wr := p\<rparr>)"
  by (auto simp: fun_eq_iff view_def set_wr_def nth_list_update_if)

lemma view_clear_slot: "view (clear_slot fd r) = (view r)(fd := empty_entry)"
  by (auto simp: fun_eq_iff view_def clear_slot_def nth_list_update_if empty_entry_def)

lemma slots_set_rw [simp]:
  "length (fd_slots (set_rd fd p r)) = length (fd_slots r)" "length (fd_slots (set_wr fd p r)) = length (fd_slots r)"
  "epoll_fd (set_rd fd p r) = epoll_fd r" "epoll_fd (set_wr fd p r) = epoll_fd r"
  "io_ready (set_rd fd p r) = io_ready r" "io_ready (set_wr fd p r) = io_ready r"
  by (simp_all add: set_rd_def set_wr_def)

lemma ensure_slot_frame [simp]:
  "epoll_fd (ensure_slot fd r) = epoll_fd r" "io_ready (ensure_slot fd r) = io_ready r"
  by (simp_all add: ensure_slot_def)

section \<open>Specifications of the operations\<close>

definition entry_of :: "handle \<Rightarrow> nat option \<Rightarrow> state_ptr \<Rightarrow> wait_state \<Rightarrow> pending_entry" where
  "entry_of h q st c = \<lparr>p_handle = h, p_result = q, p_state = st, p_completion = c\<rparr>"

text \<open>Arming a descriptor: \<open>EPOLL_CTL_MOD\<close>, or \<open>EPOLL_CTL_ADD\<close> when the kernel does not know it.\<close>

definition arm :: "'k epoll_ctl \<Rightarrow> int \<Rightarrow> int \<Rightarrow> u32 \<Rightarrow> 'k \<Rightarrow> int option \<times> 'k" where
  "arm ctl ep fd m k =
     (case ctl ep CtlMod fd m k of
        (None, k1) \<Rightarrow> (None, k1)
      | (Some e, k1) \<Rightarrow> if e = ENOENT then ctl ep CtlAdd fd m k1 else (Some e, k1))"

lemma ensure_arm:
  "ensure ctl fd ev r k =
     (case arm ctl (epoll_fd r) fd (to_epoll_events ev) k of
        (None, k1) \<Rightarrow> (Ok (), k1)
      | (Some e, k1) \<Rightarrow> (Err (from_errno e), k1))"
  by (auto simp: ensure_def arm_def Let_def split: prod.splits option.splits)

lemma register_read_spec:
  assumes "register_read ctl fd h q st c r k = (res, r', k')"
  shows "io_ready r' = io_ready r \<and> epoll_fd r' = epoll_fd r \<and>
    (if fd < 0 then res = Err (make_error EBADF ''register_read: negative fd'') \<and> view r' = view r \<and> k' = k
     else if rd (view r fd) \<noteq> None
     then res = Err (make_error EBUSY ''register_read: read already pending on fd'') \<and> view r' = view r \<and> k' = k
     else case arm ctl (epoll_fd r) fd (want ((view r fd)\<lparr>rd := Some (entry_of h q st c)\<rparr>)) k of
            (None, k1) \<Rightarrow> res = Ok () \<and> k' = k1 \<and>
              view r' = (view r)(fd := (view r fd)\<lparr>rd := Some (entry_of h q st c)\<rparr>)
          | (Some e, k1) \<Rightarrow> res = Err (from_errno e) \<and> k' = k1 \<and> view r' = view r)"
proof (cases "fd < 0 \<or> rd (view r fd) \<noteq> None")
  case True
  then show ?thesis
    using assms view_slot [OF _ ensure_slot_bound, of fd r]
    by (auto simp: register_read_def Let_def)
next
  case False
  let ?r2 = "set_rd fd (Some (entry_of h q st c)) (ensure_slot fd r)"
  have b: "0 \<le> fd" "nat fd < length (fd_slots (ensure_slot fd r))"
    using False ensure_slot_bound by auto
  have "register_read ctl fd h q st c r k =
      (case arm ctl (epoll_fd r) fd (want ((view r fd)\<lparr>rd := Some (entry_of h q st c)\<rparr>)) k of
         (None, k1) \<Rightarrow> (Ok (), ?r2, k1)
       | (Some e, k1) \<Rightarrow> (Err (from_errno e), set_rd fd None ?r2, k1))"
    unfolding register_read_def Let_def view_slot [OF b] view_ensure_slot ensure_arm
      to_epoll_want(1) [of _ "entry_of h q st c"] entry_of_def [symmetric]
    using False by (simp split: prod.split option.split)
  moreover have "(view r)(fd := (view r fd)\<lparr>rd := None\<rparr>) = view r"
    using False by (auto simp: fun_eq_iff)
  ultimately show ?thesis
    using assms False b by (auto simp: view_set_rd split: prod.splits option.splits)
qed

lemma register_write_spec:
  assumes "register_write ctl fd h q st c r k = (res, r', k')"
  shows "io_ready r' = io_ready r \<and> epoll_fd r' = epoll_fd r \<and>
    (if fd < 0 then res = Err (make_error EBADF ''register_write: negative fd'') \<and> view r' = view r \<and> k' = k
     else if wr (view r fd) \<noteq> None
     then res = Err (make_error EBUSY ''register_write: write already pending on fd'') \<and> view r' = view r \<and> k' = k
     else case arm ctl (epoll_fd r) fd (want ((view r fd)\<lparr>wr := Some (entry_of h q st c)\<rparr>)) k of
            (None, k1) \<Rightarrow> res = Ok () \<and> k' = k1 \<and>
              view r' = (view r)(fd := (view r fd)\<lparr>wr := Some (entry_of h q st c)\<rparr>)
          | (Some e, k1) \<Rightarrow> res = Err (from_errno e) \<and> k' = k1 \<and> view r' = view r)"
proof (cases "fd < 0 \<or> wr (view r fd) \<noteq> None")
  case True
  then show ?thesis
    using assms view_slot [OF _ ensure_slot_bound, of fd r]
    by (auto simp: register_write_def Let_def)
next
  case False
  let ?r2 = "set_wr fd (Some (entry_of h q st c)) (ensure_slot fd r)"
  have b: "0 \<le> fd" "nat fd < length (fd_slots (ensure_slot fd r))"
    using False ensure_slot_bound by auto
  have "register_write ctl fd h q st c r k =
      (case arm ctl (epoll_fd r) fd (want ((view r fd)\<lparr>wr := Some (entry_of h q st c)\<rparr>)) k of
         (None, k1) \<Rightarrow> (Ok (), ?r2, k1)
       | (Some e, k1) \<Rightarrow> (Err (from_errno e), set_wr fd None ?r2, k1))"
    unfolding register_write_def Let_def view_slot [OF b] view_ensure_slot ensure_arm
      to_epoll_want(2) [of _ "entry_of h q st c"] entry_of_def [symmetric]
    using False by (simp split: prod.split option.split)
  moreover have "(view r)(fd := (view r fd)\<lparr>wr := None\<rparr>) = view r"
    using False by (auto simp: fun_eq_iff)
  ultimately show ?thesis
    using assms False b by (auto simp: view_set_wr split: prod.splits option.splits)
qed

lemma deregister_spec: "view (deregister fd r) = (view r)(fd := empty_entry)" "io_ready (deregister fd r) = io_ready r"
  unfolding deregister_def by (rule view_clear_slot) (simp add: clear_slot_def)

text \<open>What firing one waiter queues and writes.\<close>

definition settled :: "pending_entry \<Rightarrow> io_mem \<Rightarrow> bool" where
  "settled p mem = (case p_state p of None \<Rightarrow> False | Some s \<Rightarrow> wstate mem s \<noteq> Pending)"

definition fire_out :: "pending_entry \<Rightarrow> io_mem \<Rightarrow> coro list" where
  "fire_out p mem = (if settled p mem then [] else case p_handle p of None \<Rightarrow> [] | Some c \<Rightarrow> [c])"

definition fire_mem :: "pending_entry \<Rightarrow> io_mem \<Rightarrow> io_mem" where
  "fire_mem p mem =
     (if settled p mem then mem
      else mem\<lparr>wstate := (case p_state p of None \<Rightarrow> wstate mem | Some s \<Rightarrow> (wstate mem)(s := p_completion p)),
               results := (case p_result p of None \<Rightarrow> results mem | Some q \<Rightarrow> (results mem)(q := Ok 0))\<rparr>)"

lemma fire_eq:
  "fire p mem r = (fire_out p mem \<noteq> [], fire_mem p mem, r\<lparr>io_ready := io_ready r @ fire_out p mem\<rparr>)"
  by (auto simp: fire_def fire_out_def fire_mem_def settled_def split: option.split)

lemma fire_out_length: "length (fire_out p mem) = (if fire_out p mem = [] then 0 else 1)"
  by (simp add: fire_out_def split: option.split)

definition takes_rd :: "u32 \<Rightarrow> fd_entry \<Rightarrow> bool" where
  "takes_rd ep e \<longleftrightarrow> rd e \<noteq> None \<and> (ep AND EPOLLIN \<noteq> 0 \<or> ep AND (EPOLLERR OR EPOLLHUP) \<noteq> 0)"

definition takes_wr :: "u32 \<Rightarrow> fd_entry \<Rightarrow> bool" where
  "takes_wr ep e \<longleftrightarrow> wr e \<noteq> None \<and> (ep AND EPOLLOUT \<noteq> 0 \<or> ep AND (EPOLLERR OR EPOLLHUP) \<noteq> 0)"

text \<open>
  The specification of one event on the table of waiters: the waiters whose direction the event
  names are fired, in the order read, write, and removed; the others stay.
\<close>

definition spec_event ::
  "int \<times> u32 \<Rightarrow> (int \<Rightarrow> fd_entry) \<times> io_mem \<times> coro list \<Rightarrow> (int \<Rightarrow> fd_entry) \<times> io_mem \<times> coro list" where
  "spec_event ev s =
     (let (fd, ep) = ev; (t, mem, out) = s; e = t fd;
          (mem, out) = (if takes_rd ep e then (fire_mem (the (rd e)) mem, out @ fire_out (the (rd e)) mem) else (mem, out));
          (mem, out) = (if takes_wr ep e then (fire_mem (the (wr e)) mem, out @ fire_out (the (wr e)) mem) else (mem, out))
      in (t(fd := \<lparr>rd = (if takes_rd ep e then None else rd e), wr = (if takes_wr ep e then None else wr e)\<rparr>), mem, out))"

lemma rearm_spec:
  "rearm_or_erase ctl fd r k =
     (if free_entry (view r fd) then k else snd (arm ctl (epoll_fd r) fd (want (view r fd)) k))"
proof (cases "fd < 0 \<or> length (fd_slots r) \<le> nat fd")
  case True
  then have "view r fd = empty_entry" by (auto simp: view_def)
  with True show ?thesis by (simp add: rearm_or_erase_def free_entry_iff)
next
  case False
  then have v: "fd_slots r ! nat fd = view r fd" by (simp add: view_def)
  have "rearm_or_erase ctl fd r k =
      (if free_entry (view r fd) then k
       else snd (case arm ctl (epoll_fd r) fd (want (view r fd)) k of
                   (None, k1) \<Rightarrow> (Ok (), k1) | (Some e, k1) \<Rightarrow> (Err (from_errno e), k1)))"
    unfolding rearm_or_erase_def Let_def v ensure_arm to_epoll_rearm free_entry_def using False by simp
  then show ?thesis by (simp split: prod.split option.split)
qed

lemma entry_upd: "e\<lparr>rd := p\<rparr> = \<lparr>rd = p, wr = wr e\<rparr>" "e\<lparr>wr := p\<rparr> = \<lparr>rd = rd e, wr = p\<rparr>"
  by simp_all

lemma entry_id: "(t(fd := \<lparr>rd = rd (t fd), wr = wr (t fd)\<rparr>)) = (t :: int \<Rightarrow> fd_entry)"
  by (simp add: fun_upd_idem)

lemma slot_outside: "fd < 0 \<or> length (fd_slots r) \<le> nat fd \<Longrightarrow> view r fd = empty_entry"
  by (auto simp: view_def)

lemma empty_entry_sel [simp]: "rd empty_entry = None" "wr empty_entry = None"
  by (simp_all add: empty_entry_def)

lemma deregister_dir_spec:
  assumes "deregister_dir ctl fd dir r k = (r', k')"
  shows "view r' = (view r)(fd := \<lparr>rd = (if has_flag dir IoRead then None else rd (view r fd)),
                                   wr = (if has_flag dir IoWrite then None else wr (view r fd))\<rparr>)"
    and "io_ready r' = io_ready r" "epoll_fd r' = epoll_fd r"
    and "k' = (if free_entry (view r fd) \<or> free_entry (view r' fd) then k
               else snd (arm ctl (epoll_fd r) fd (want (view r' fd)) k))"
proof -
  let ?goal = "view r' = (view r)(fd := \<lparr>rd = (if has_flag dir IoRead then None else rd (view r fd)),
                                   wr = (if has_flag dir IoWrite then None else wr (view r fd))\<rparr>)
     \<and> io_ready r' = io_ready r \<and> epoll_fd r' = epoll_fd r
     \<and> k' = (if free_entry (view r fd) \<or> free_entry (view r' fd) then k
               else snd (arm ctl (epoll_fd r) fd (want (view r' fd)) k))"
  have ?goal
  proof (cases "view r fd = empty_entry")
    case True
    then have "r' = r \<and> k' = k"
      using assms by (auto simp: deregister_dir_def Let_def view_def empty_entry_def split: if_splits)
    with True show ?thesis by (auto simp: fun_eq_iff free_entry_iff empty_entry_def)
  next
    case False
    then have b: "0 \<le> fd" "nat fd < length (fd_slots r)"
      using slot_outside [of fd r] by force+
    let ?r1 = "if has_flag dir IoRead then set_rd fd None r else r"
    let ?r2 = "if has_flag dir IoWrite then set_wr fd None ?r1 else ?r1"
    have r: "r' = ?r2" "k' = rearm_or_erase ctl fd ?r2 k"
      using assms b False view_slot [OF b] by (auto simp: deregister_dir_def Let_def free_entry_iff [symmetric] free_entry_def)
    have "epoll_fd ?r2 = epoll_fd r" "io_ready ?r2 = io_ready r" by simp_all
    moreover have "view ?r2 = (view r)(fd := \<lparr>rd = (if has_flag dir IoRead then None else rd (view r fd)),
                                   wr = (if has_flag dir IoWrite then None else wr (view r fd))\<rparr>)"
      using b by (simp add: view_set_rd view_set_wr entry_upd entry_id)
    ultimately show ?thesis unfolding r rearm_spec using False by (simp add: free_entry_iff)
  qed
  then show "view r' = (view r)(fd := \<lparr>rd = (if has_flag dir IoRead then None else rd (view r fd)),
                                   wr = (if has_flag dir IoWrite then None else wr (view r fd))\<rparr>)"
    "io_ready r' = io_ready r" "epoll_fd r' = epoll_fd r"
    "k' = (if free_entry (view r fd) \<or> free_entry (view r' fd) then k
               else snd (arm ctl (epoll_fd r) fd (want (view r' fd)) k))"
    by blast+
qed

lemma poll_event_armed:
  fixes ep :: u32 and mem :: io_mem
  assumes "view r fd \<noteq> empty_entry"
  defines "e \<equiv> view r fd"
  defines "o1 \<equiv> if takes_rd ep e then fire_out (the (rd e)) mem else []"
    and "m1 \<equiv> if takes_rd ep e then fire_mem (the (rd e)) mem else mem"
  defines "o2 \<equiv> if takes_wr ep e then fire_out (the (wr e)) m1 else []"
    and "m2 \<equiv> if takes_wr ep e then fire_mem (the (wr e)) m1 else m1"
  defines "r1 \<equiv> if takes_rd ep e then set_rd fd None (r\<lparr>io_ready := io_ready r @ o1\<rparr>) else r"
  defines "r2 \<equiv> if takes_wr ep e then set_wr fd None (r1\<lparr>io_ready := io_ready r1 @ o2\<rparr>) else r1"
  shows "poll_event ctl (fd, ep) (n, mem, r, k) = (n + length o1 + length o2, m2, r2, rearm_or_erase ctl fd r2 k)"
    and "0 \<le> fd" "nat fd < length (fd_slots r)"
proof -
  show b: "0 \<le> fd" "nat fd < length (fd_slots r)"
    using assms(1) slot_outside [of fd r] by force+
  show "poll_event ctl (fd, ep) (n, mem, r, k) = (n + length o1 + length o2, m2, r2, rearm_or_erase ctl fd r2 k)"
    using assms(1) b unfolding e_def [symmetric]
    unfolding poll_event_def Let_def split fire_eq view_slot [OF b] e_def [symmetric]
      r2_def r1_def m2_def o2_def m1_def o1_def takes_rd_def takes_wr_def
    by (cases "rd e"; cases "wr e") (auto simp: fire_out_length free_entry_iff [symmetric] free_entry_def)
qed

lemma poll_event_spec:
  assumes "poll_event ctl (fd, ep) (n, mem, r, k) = (n', mem', r', k')"
  shows "spec_event (fd, ep) (view r, mem, io_ready r) = (view r', mem', io_ready r')"
    and "epoll_fd r' = epoll_fd r" "n' + length (io_ready r) = n + length (io_ready r')"
    and "k' = (if free_entry (view r fd) \<or> free_entry (view r' fd) then k
               else snd (arm ctl (epoll_fd r) fd (want (view r' fd)) k))"
proof -
  let ?goal = "spec_event (fd, ep) (view r, mem, io_ready r) = (view r', mem', io_ready r')
     \<and> epoll_fd r' = epoll_fd r \<and> n' + length (io_ready r) = n + length (io_ready r')
     \<and> k' = (if free_entry (view r fd) \<or> free_entry (view r' fd) then k
               else snd (arm ctl (epoll_fd r) fd (want (view r' fd)) k))"
  have ?goal
  proof (cases "view r fd = empty_entry")
    case True
    then have "poll_event ctl (fd, ep) (n, mem, r, k) = (n, mem, r, k)"
      by (auto simp: poll_event_def Let_def view_def empty_entry_def split: if_splits)
    moreover have "(view r)(fd := \<lparr>rd = None, wr = None\<rparr>) = view r"
      using True by (auto simp: fun_eq_iff empty_entry_def)
    ultimately show ?thesis using True assms
      by (simp add: spec_event_def takes_rd_def takes_wr_def free_entry_iff)
  next
    case False
    define e where "e = view r fd"
    define o1 where "o1 = (if takes_rd ep e then fire_out (the (rd e)) mem else [])"
    define m1 where "m1 = (if takes_rd ep e then fire_mem (the (rd e)) mem else mem)"
    define o2 where "o2 = (if takes_wr ep e then fire_out (the (wr e)) m1 else [])"
    define m2 where "m2 = (if takes_wr ep e then fire_mem (the (wr e)) m1 else m1)"
    define r1 where "r1 = (if takes_rd ep e then set_rd fd None (r\<lparr>io_ready := io_ready r @ o1\<rparr>) else r)"
    define r2 where "r2 = (if takes_wr ep e then set_wr fd None (r1\<lparr>io_ready := io_ready r1 @ o2\<rparr>) else r1)"
    note defs = e_def o1_def m1_def o2_def m2_def r1_def r2_def
    note b = poll_event_armed(2,3) [OF False]
    have eq: "(n', mem', r', k') = (n + length o1 + length o2, m2, r2, rearm_or_erase ctl fd r2 k)"
      unfolding assms [symmetric] defs by (rule poll_event_armed(1) [OF False])
    have r1: "view r1 = (view r)(fd := \<lparr>rd = (if takes_rd ep e then None else rd e), wr = wr e\<rparr>)"
        "io_ready r1 = io_ready r @ o1" "epoll_fd r1 = epoll_fd r" "length (fd_slots r1) = length (fd_slots r)"
      using b by (simp_all add: r1_def e_def view_set_rd entry_upd entry_id o1_def)
    have r2: "view r2 = (view r)(fd := \<lparr>rd = (if takes_rd ep e then None else rd e), wr = (if takes_wr ep e then None else wr e)\<rparr>)"
        "io_ready r2 = io_ready r @ o1 @ o2" "epoll_fd r2 = epoll_fd r"
      using b r1 by (simp_all add: r2_def view_set_wr entry_upd o2_def)
    have "spec_event (fd, ep) (view r, mem, io_ready r) = (view r2, m2, io_ready r2)"
      unfolding r2 spec_event_def by (simp add: e_def [symmetric] o1_def o2_def m1_def m2_def)
    then show ?thesis using eq r2(2,3) False by (simp add: rearm_spec free_entry_iff)
  qed
  then show "spec_event (fd, ep) (view r, mem, io_ready r) = (view r', mem', io_ready r')"
    "epoll_fd r' = epoll_fd r" "n' + length (io_ready r) = n + length (io_ready r')"
    "k' = (if free_entry (view r fd) \<or> free_entry (view r' fd) then k
               else snd (arm ctl (epoll_fd r) fd (want (view r' fd)) k))"
    by blast+
qed

end
