(* ===== verification/Reactor_Properties.thy ===== *)
theory Reactor_Properties
  imports Reactor_Proof
begin

text \<open>
  What the reactor guarantees over any sequence of its operations: it behaves as the table of
  waiters (\<open>poll_refines_table\<close>, \<open>register_is_atomic\<close>) and the kernel always waits for
  exactly the events its waiters need (\<open>reactor_stays_armed\<close>).
\<close>

section \<open>The kernel's interest list\<close>

text \<open>
  What \<open>epoll(7)\<close> documents of the interest list, read from the kernel state by
  \<open>interest\<close>: \<open>EPOLL_CTL_MOD\<close> replaces the mask of a descriptor that is in the list and
  answers \<open>ENOENT\<close> otherwise; \<open>ADD\<close> and \<open>DEL\<close> change the list when they succeed and
  only then, and \<open>ADD\<close> refuses a descriptor that is in the list; \<open>epoll_wait\<close> reports every descriptor at most once, may disarm (\<open>EPOLLONESHOT\<close>)
  but never removes the reported ones, and leaves the others alone.
\<close>

definition epoll_laws :: "'k epoll_ctl \<Rightarrow> 'k epoll_wait \<Rightarrow> ('k \<Rightarrow> int \<rightharpoonup> u32) \<Rightarrow> bool" where
  "epoll_laws ctl wait interest \<longleftrightarrow>
     (\<forall>ep fd m k e k'. ctl ep CtlMod fd m k = (e, k') \<longrightarrow>
        (if interest k fd = None then e = Some ENOENT \<and> interest k' = interest k
         else e = None \<and> interest k' = (interest k)(fd \<mapsto> m))) \<and>
     (\<forall>ep fd m k e k'. ctl ep CtlAdd fd m k = (e, k') \<longrightarrow>
        interest k' = (if e = None then (interest k)(fd \<mapsto> m) else interest k) \<and>
        (interest k fd \<noteq> None \<longrightarrow> e \<noteq> None)) \<and>
     (\<forall>ep fd m k e k'. ctl ep CtlDel fd m k = (e, k') \<longrightarrow>
        interest k' = (if e = None then (interest k)(fd := None) else interest k)) \<and>
     (\<forall>ep n t k e k'. wait ep n t k = (Inl e, k') \<longrightarrow> interest k' = interest k) \<and>
     (\<forall>ep n t k evs k'. wait ep n t k = (Inr evs, k') \<longrightarrow>
        distinct (map fst evs) \<and>
        (\<forall>fd. if fd \<in> fst ` set evs then interest k' fd \<noteq> None else interest k' fd = interest k fd))"

lemma arm_interest:
  assumes "epoll_laws ctl wait interest" "arm ctl ep fd m k = (e, k')"
  shows "if e = None then interest k' = (interest k)(fd \<mapsto> m)
         else interest k' = interest k \<and> interest k fd = None"
proof -
  obtain e1 k1 where m: "ctl ep CtlMod fd m k = (e1, k1)" by fastforce
  obtain e2 k2 where a: "ctl ep CtlAdd fd m k1 = (e2, k2)" by fastforce
  have "if interest k fd = None then e1 = Some ENOENT \<and> interest k1 = interest k
        else e1 = None \<and> interest k1 = (interest k)(fd \<mapsto> m)"
    using assms(1) m unfolding epoll_laws_def by metis
  moreover have "interest k2 = (if e2 = None then (interest k1)(fd \<mapsto> m) else interest k1)"
    using assms(1) a unfolding epoll_laws_def by metis
  ultimately show ?thesis
    using assms(2) m a by (auto simp: arm_def split: if_splits option.splits)
qed

lemma fst_spec_event:
  "fst (spec_event (fd, ep) (t, mem, out)) =
     t(fd := \<lparr>rd = (if takes_rd ep (t fd) then None else rd (t fd)),
              wr = (if takes_wr ep (t fd) then None else wr (t fd))\<rparr>)"
  by (simp add: spec_event_def Let_def split: prod.split)

section \<open>The descriptors with a waiter are armed\<close>

definition armed_except :: "('k \<Rightarrow> int \<rightharpoonup> u32) \<Rightarrow> int set \<Rightarrow> reactor \<Rightarrow> 'k \<Rightarrow> bool" where
  "armed_except interest S r k \<longleftrightarrow>
     (\<forall>fd. if fd \<in> S then interest k fd \<noteq> None
           else view r fd \<noteq> empty_entry \<longrightarrow> interest k fd = Some (want (view r fd)))"

abbreviation armed :: "('k \<Rightarrow> int \<rightharpoonup> u32) \<Rightarrow> reactor \<Rightarrow> 'k \<Rightarrow> bool" where
  "armed interest \<equiv> armed_except interest {}"

lemma armed_update:
  assumes "armed_except interest (insert fd S) r k \<or> armed_except interest S r k"
    "\<And>x. x \<noteq> fd \<Longrightarrow> view r' x = view r x \<and> interest k' x = interest k x" "fd \<notin> S"
    "view r' fd \<noteq> empty_entry \<longrightarrow> interest k' fd = Some (want (view r' fd))"
  shows "armed_except interest S r' k'"
  using assms unfolding armed_except_def by (metis insert_iff)

lemma poll_event_armed_except:
  assumes laws: "epoll_laws ctl wait interest"
    and inv: "armed_except interest (insert fd S) r k" and fd: "fd \<notin> S"
    and pe: "poll_event ctl (fd, ep) (n, mem, r, k) = (n', mem', r', k')"
  shows "armed_except interest S r' k'"
proof (rule armed_update [OF disjI1 [OF inv] _ fd])
  note s = poll_event_spec [OF pe]
  obtain e k1 where a: "arm ctl (epoll_fd r) fd (want (view r' fd)) k = (e, k1)" by fastforce
  have i: "interest k fd \<noteq> None" using inv by (simp add: armed_except_def)
  have vt: "view r' = (view r)(fd := \<lparr>rd = (if takes_rd ep (view r fd) then None else rd (view r fd)),
                                     wr = (if takes_wr ep (view r fd) then None else wr (view r fd))\<rparr>)"
    using arg_cong [OF s(1), where f = fst] by (simp add: fst_spec_event)
  then have v: "view r' x = view r x" if "x \<noteq> fd" for x
    using that by simp
  have f: "view r fd = empty_entry \<Longrightarrow> view r' fd = empty_entry"
    unfolding vt by (simp add: empty_entry_def)
  from arm_interest [OF laws a] i have ai: "e = None" "interest k1 = (interest k)(fd \<mapsto> want (view r' fd))"
    by (auto split: if_splits)
  show "view r' x = view r x \<and> interest k' x = interest k x" if "x \<noteq> fd" for x
    using v [OF that] s(4) a ai that by (simp add: free_entry_iff)
  show "view r' fd \<noteq> empty_entry \<longrightarrow> interest k' fd = Some (want (view r' fd))"
    using f s(4) a ai by (auto simp: free_entry_iff)
qed

lemma poll_events_armed:
  assumes "epoll_laws ctl wait interest"
  shows "distinct (map fst evs) \<Longrightarrow> armed_except interest (fst ` set evs) r k
    \<Longrightarrow> fold (poll_event ctl) evs (n, mem, r, k) = (n', mem', r', k') \<Longrightarrow> armed interest r' k'"
proof (induction evs arbitrary: n mem r k)
  case (Cons ev evs)
  obtain fd ep where ev: "ev = (fd, ep)" by fastforce
  obtain n1 mem1 r1 k1 where pe: "poll_event ctl (fd, ep) (n, mem, r, k) = (n1, mem1, r1, k1)"
    using prod_cases4 by blast
  have "armed_except interest (fst ` set evs) r1 k1"
    using Cons.prems(1,2) by (intro poll_event_armed_except [OF assms _ _ pe]) (auto simp: ev)
  then show ?case using Cons.IH Cons.prems(1,3) by (simp add: ev pe)
qed simp

lemma poll_armed:
  assumes "epoll_laws ctl wait interest" "armed interest r k"
    "poll ctl wait t mem r k = (res, mem', r', k')"
  shows "armed interest r' k'"
proof -
  obtain x k1 where w: "wait (epoll_fd r) kMaxEventsPerPoll (poll_timeout_ms t) k = (x, k1)" by fastforce
  show ?thesis
  proof (cases x)
    case (Inl e)
    then have "interest k1 = interest k" "r' = r" "k' = k1"
      using assms w by (auto simp: poll_def epoll_laws_def split: if_splits)
    then show ?thesis using assms(2) by (simp add: armed_except_def)
  next
    case (Inr evs)
    then have l: "distinct (map fst evs)"
        "\<forall>fd. if fd \<in> fst ` set evs then interest k1 fd \<noteq> None else interest k1 fd = interest k fd"
      using assms(1) w by (simp_all add: epoll_laws_def)
    then have "armed_except interest (fst ` set evs) r k1"
      using assms(2) by (simp add: armed_except_def)
    moreover obtain n where "fold (poll_event ctl) evs (0, mem, r, k1) = (n, mem', r', k')"
      using assms(3) w Inr by (auto simp: poll_def split: prod.splits)
    ultimately show ?thesis using poll_events_armed [OF assms(1) l(1)] by blast
  qed
qed

section \<open>Sequences of operations\<close>

text \<open>
  The operations the rest of the runtime calls on a reactor. (\<open>modify\<close> replaces the mask of a
  descriptor directly, whoever waits on it; nothing in the sources calls it.)
\<close>

datatype reactor_op =
    Add int io_event
  | RegisterRead int handle "nat option" state_ptr wait_state
  | RegisterWrite int handle "nat option" state_ptr wait_state
  | Deregister int
  | DeregisterDir int io_event
  | Remove int
  | Poll duration
  | DrainReady

fun run_op :: "'k epoll_ctl \<Rightarrow> 'k epoll_wait \<Rightarrow> reactor_op \<Rightarrow> io_mem \<times> reactor \<times> 'k \<Rightarrow> io_mem \<times> reactor \<times> 'k" where
  "run_op ctl wait (Add fd ev) (mem, r, k) = (mem, r, snd (reactor_add ctl fd ev r k))"
| "run_op ctl wait (RegisterRead fd h q st c) (mem, r, k) = (mem, snd (register_read ctl fd h q st c r k))"
| "run_op ctl wait (RegisterWrite fd h q st c) (mem, r, k) = (mem, snd (register_write ctl fd h q st c r k))"
| "run_op ctl wait (Deregister fd) (mem, r, k) = (mem, deregister fd r, k)"
| "run_op ctl wait (DeregisterDir fd dir) (mem, r, k) = (mem, deregister_dir ctl fd dir r k)"
| "run_op ctl wait (Remove fd) (mem, r, k) = (mem, snd (reactor_remove ctl fd r k))"
| "run_op ctl wait (Poll t) (mem, r, k) = snd (poll ctl wait t mem r k)"
| "run_op ctl wait DrainReady (mem, r, k) = (mem, snd (reactor_drain_ready r), k)"

lemma register_read_armed:
  assumes "epoll_laws ctl wait interest" "armed interest r k" "register_read ctl fd h q st c r k = (res, r', k')"
  shows "armed interest r' k'"
proof -
  let ?e = "(view r fd)\<lparr>rd := Some (entry_of h q st c)\<rparr>"
  obtain e k1 where a: "arm ctl (epoll_fd r) fd (want ?e) k = (e, k1)" by fastforce
  note ai = arm_interest [OF assms(1) a]
  have "(view r' = view r \<and> interest k' = interest k) \<or>
        (view r' = (view r)(fd := ?e) \<and> interest k' = (interest k)(fd \<mapsto> want ?e))"
    using register_read_spec [OF assms(3)] ai a by (cases e) (auto split: if_splits)
  then show ?thesis using assms(2) by (auto simp: armed_except_def)
qed

lemma register_write_armed:
  assumes "epoll_laws ctl wait interest" "armed interest r k" "register_write ctl fd h q st c r k = (res, r', k')"
  shows "armed interest r' k'"
proof -
  let ?e = "(view r fd)\<lparr>wr := Some (entry_of h q st c)\<rparr>"
  obtain e k1 where a: "arm ctl (epoll_fd r) fd (want ?e) k = (e, k1)" by fastforce
  note ai = arm_interest [OF assms(1) a]
  have "(view r' = view r \<and> interest k' = interest k) \<or>
        (view r' = (view r)(fd := ?e) \<and> interest k' = (interest k)(fd \<mapsto> want ?e))"
    using register_write_spec [OF assms(3)] ai a by (cases e) (auto split: if_splits)
  then show ?thesis using assms(2) by (auto simp: armed_except_def)
qed

lemma deregister_dir_armed:
  assumes "epoll_laws ctl wait interest" "armed interest r k" "deregister_dir ctl fd dir r k = (r', k')"
  shows "armed interest r' k'"
proof -
  note s = deregister_dir_spec [OF assms(3)]
  obtain e k1 where a: "arm ctl (epoll_fd r) fd (want (view r' fd)) k = (e, k1)" by fastforce
  note ai = arm_interest [OF assms(1) a]
  have d: "view r fd \<noteq> empty_entry \<Longrightarrow> interest k fd \<noteq> None"
    using assms(2) by (auto simp: armed_except_def)
  have "interest k' x = interest k x" if "x \<noteq> fd" for x
    using s(4) a ai that by (cases e) auto
  moreover have "view r fd = empty_entry \<Longrightarrow> view r' fd = empty_entry"
    unfolding s(1) by (simp add: empty_entry_def)
  then have "view r' fd \<noteq> empty_entry \<longrightarrow> interest k' fd = Some (want (view r' fd))"
    using s(4) a ai d by (cases e) (auto simp: free_entry_iff)
  moreover have "view r' x = view r x" if "x \<noteq> fd" for x
    using that by (simp add: s(1))
  ultimately show ?thesis
    by (blast intro: armed_update [OF disjI2 [OF assms(2)], where fd = fd])
qed

lemma add_armed:
  assumes "epoll_laws ctl wait interest" "armed interest r k" "reactor_add ctl fd ev r k = (res, k')"
  shows "armed interest r k'"
proof -
  obtain e k1 where a: "ctl (epoll_fd r) CtlAdd fd (to_epoll_events ev) k = (e, k1)" by fastforce
  then have "interest k1 = (if e = None then (interest k)(fd \<mapsto> to_epoll_events ev) else interest k)"
      "interest k fd \<noteq> None \<longrightarrow> e \<noteq> None"
    using assms(1) unfolding epoll_laws_def by metis+
  moreover have "k' = k1" using assms(3) a by (auto simp: reactor_add_def split: option.splits)
  ultimately show ?thesis
    using assms(2) by (auto simp: armed_except_def split: if_splits)
qed

lemma clear_armed:
  assumes "armed interest r k" "\<And>x. x \<noteq> fd \<Longrightarrow> interest k' x = interest k x"
  shows "armed interest (clear_slot fd r) k'"
  by (rule armed_update [OF disjI2 [OF assms(1)], where fd = fd]) (simp_all add: view_clear_slot assms(2))

lemma remove_armed:
  assumes "epoll_laws ctl wait interest" "armed interest r k" "reactor_remove ctl fd r k = (res, r', k')"
  shows "armed interest r' k'"
proof -
  obtain e k1 where d: "ctl (epoll_fd r) CtlDel fd 0 k = (e, k1)" by fastforce
  then have i: "interest k1 = (if e = None then (interest k)(fd := None) else interest k)"
    using assms(1) unfolding epoll_laws_def by metis
  have "armed interest (clear_slot fd r) k1"
    by (rule clear_armed [OF assms(2)]) (simp add: i)
  moreover have "armed interest r k1" if "e \<noteq> None"
    using assms(2) i that by (simp add: armed_except_def)
  ultimately show ?thesis
    using assms(2,3) d by (auto simp: reactor_remove_def split: if_splits option.splits)
qed

lemma run_op_armed:
  assumes "epoll_laws ctl wait interest" "armed interest r k" "run_op ctl wait op (mem, r, k) = (mem', r', k')"
  shows "armed interest r' k'"
proof (cases op)
  case (Deregister fd)
  then show ?thesis using assms clear_armed [OF assms(2)] by (auto simp: deregister_def)
next
  case DrainReady
  then show ?thesis using assms(2,3) by (auto simp: reactor_drain_ready_def armed_except_def)
qed (use assms(3) add_armed [OF assms(1,2)] register_read_armed [OF assms(1,2)] register_write_armed [OF assms(1,2)]
    deregister_dir_armed [OF assms(1,2)] remove_armed [OF assms(1,2)] poll_armed [OF assms(1,2)]
    in \<open>auto simp: prod_eq_iff\<close>)

lemma run_ops_armed:
  assumes "epoll_laws ctl wait interest"
  shows "armed interest r k \<Longrightarrow> fold (run_op ctl wait) ops (mem, r, k) = (mem', r', k') \<Longrightarrow> armed interest r' k'"
proof (induction ops arbitrary: mem r k)
  case (Cons op ops)
  obtain mem1 r1 k1 where s: "run_op ctl wait op (mem, r, k) = (mem1, r1, k1)"
    using prod_cases3 by blast
  show ?case
    using Cons.IH [OF run_op_armed [OF assms Cons.prems(1) s]] Cons.prems(2) s by simp
qed simp

lemma create_armed: "reactor_create c = Ok r \<Longrightarrow> armed interest r k"
  by (auto simp: reactor_create_def armed_except_def view_def split: sum.splits)

section \<open>A kernel\<close>

text \<open>
  A concrete kernel for the witnesses: its interest list, and a script of the events that will
  become ready, one per wait, each reported if its descriptor is in the list.
\<close>

type_synonym sim_kernel = "(int \<rightharpoonup> u32) \<times> (int \<times> u32) list"

fun sim_ctl :: "sim_kernel epoll_ctl" where
  "sim_ctl ep CtlAdd fd m (i, q) = (if i fd = None then (None, (i(fd \<mapsto> m), q)) else (Some 17, (i, q)))"
| "sim_ctl ep CtlMod fd m (i, q) = (if i fd = None then (Some ENOENT, (i, q)) else (None, (i(fd \<mapsto> m), q)))"
| "sim_ctl ep CtlDel fd m (i, q) = (if i fd = None then (Some ENOENT, (i, q)) else (None, (i(fd := None), q)))"

fun sim_wait :: "sim_kernel epoll_wait" where
  "sim_wait ep n t (i, []) = (Inr [], (i, []))"
| "sim_wait ep n t (i, (fd, ev) # q) =
     (if i fd = None then (Inr [], (i, q)) else (Inr [(fd, ev)], (i(fd \<mapsto> 0), q)))"

lemma sim_laws: "epoll_laws sim_ctl sim_wait fst"
proof -
  have w: "distinct (map fst evs) \<and>
        (\<forall>fd. if fd \<in> fst ` set evs then fst k' fd \<noteq> None else fst k' fd = fst k fd)"
    if "sim_wait ep n t k = (Inr evs, k')" for ep n t k k' evs
    using that by (cases "(ep, n, t, k)" rule: sim_wait.cases) (auto split: if_splits)
  have w': "fst k' = fst k" if "sim_wait ep n t k = (Inl e, k')" for ep n t k k' e
    using that by (cases "(ep, n, t, k)" rule: sim_wait.cases) (auto split: if_splits)
  have m: "if fst k fd = None then e = Some ENOENT \<and> fst k' = fst k
         else e = None \<and> fst k' = (fst k)(fd \<mapsto> m)"
    if "sim_ctl ep CtlMod fd m k = (e, k')" for ep fd m k e k'
    using that by (cases k) (auto split: if_splits)
  have a: "fst k' = (if e = None then (fst k)(fd \<mapsto> m) else fst k) \<and> (fst k fd \<noteq> None \<longrightarrow> e \<noteq> None)"
    if "sim_ctl ep CtlAdd fd m k = (e, k')" for ep fd m k e k'
    using that by (cases k) (auto split: if_splits)
  have d: "fst k' = (if e = None then (fst k)(fd := None) else fst k)"
    if "sim_ctl ep CtlDel fd m k = (e, k')" for ep fd m k e k'
    using that by (cases k) (auto split: if_splits)
  show ?thesis
    unfolding epoll_laws_def
    apply (rule conjI, intro allI impI, erule m)
    apply (rule conjI, intro allI impI, erule a)
    apply (rule conjI, intro allI impI, erule d)
    apply (rule conjI, intro allI impI, erule w')
    apply (intro allI impI, erule w)
    done
qed

definition sim_start :: "(int \<times> u32) list \<Rightarrow> io_mem \<times> reactor \<times> sim_kernel" where
  "sim_start script = (\<lparr>wstate = (\<lambda>_. Pending), results = (\<lambda>_. Ok 0)\<rparr>,
                       \<lparr>epoll_fd = 3, fd_slots = [], io_ready = []\<rparr>, (Map.empty, script))"

lemma poll_events_spec:
  "fold (poll_event ctl) evs (n, mem, r, k) = (n', mem', r', k') \<Longrightarrow>
     fold spec_event evs (view r, mem, io_ready r) = (view r', mem', io_ready r') \<and>
     n' + length (io_ready r) = n + length (io_ready r')"
proof (induction evs arbitrary: n mem r k)
  case (Cons ev evs)
  obtain fd ep where ev: "ev = (fd, ep)" by fastforce
  obtain n1 mem1 r1 k1 where pe: "poll_event ctl (fd, ep) (n, mem, r, k) = (n1, mem1, r1, k1)"
    using prod_cases4 by blast
  from Cons.prems have "fold (poll_event ctl) evs (n1, mem1, r1, k1) = (n', mem', r', k')"
    by (simp add: ev pe)
  from Cons.IH [OF this] poll_event_spec(1,3) [OF pe] show ?case by (simp add: ev)
qed simp

section \<open>Properties\<close>


definition duplex_ops :: "reactor_op list" where
  "duplex_ops = [RegisterRead 5 (Some 1) None (Some 0) Ready, RegisterWrite 5 (Some 2) None None Ready, Poll 0]"


text \<open>
  C9. Polling refines the table of waiters. The vector of slots, its growth, its free entries and
  the re-arming are invisible: when \<open>epoll_wait\<close> reports events, the waiters, the awaiters'
  states and results and the ready queue are exactly what handling the events one by one on the
  table gives (\<open>spec_event\<close>), and the count returned is the number of handles queued. An
  interrupted wait is a poll with no event; any other failure is returned and changes nothing.
\<close>

theorem poll_refines_table:
  assumes "poll ctl wait timeout mem r k = (res, mem', r', k')"
  shows "case fst (wait (epoll_fd r) kMaxEventsPerPoll (poll_timeout_ms timeout) k) of
           Inr evs \<Rightarrow> fold spec_event evs (view r, mem, io_ready r) = (view r', mem', io_ready r') \<and>
                      (\<exists>n. res = Ok n \<and> length (io_ready r') = length (io_ready r) + n)
         | Inl e \<Rightarrow> res = (if e = EINTR then Ok 0 else Err (from_errno e)) \<and> mem' = mem \<and> r' = r"
proof -
  obtain x k1 where w: "wait (epoll_fd r) kMaxEventsPerPoll (poll_timeout_ms timeout) k = (x, k1)"
    by fastforce
  show ?thesis
  proof (cases x)
    case (Inl e)
    then show ?thesis using assms w by (auto simp: poll_def split: if_splits)
  next
    case (Inr evs)
    then obtain n where n: "fold (poll_event ctl) evs (0, mem, r, k1) = (n, mem', r', k')" "res = Ok n"
      using assms w by (auto simp: poll_def split: prod.splits)
    show ?thesis using poll_events_spec [OF n(1)] n(2) w Inr by simp
  qed
qed

theorem poll_refines_table_witness:
  "case fold (run_op sim_ctl sim_wait) [RegisterRead 7 (Some 1) None None Ready] (sim_start [(7, EPOLLHUP)]) of
     (mem, r, k) \<Rightarrow> \<exists>mem' r' k'. poll sim_ctl sim_wait 0 mem r k = (Ok 1, mem', r', k') \<and>
       fold spec_event [(7, EPOLLHUP)] (view r, mem, io_ready r) = (view r', mem', io_ready r')"
proof -
  obtain mem r k where s:
    "fold (run_op sim_ctl sim_wait) [RegisterRead 7 (Some 1) None None Ready] (sim_start [(7, EPOLLHUP)]) = (mem, r, k)"
    using prod_cases3 by blast
  obtain res mem' r' k' where p: "poll sim_ctl sim_wait 0 mem r k = (res, mem', r', k')"
    using prod_cases4 by blast
  have "case fold (run_op sim_ctl sim_wait) [RegisterRead 7 (Some 1) None None Ready] (sim_start [(7, EPOLLHUP)]) of
     (mem, r, k) \<Rightarrow> fst (poll sim_ctl sim_wait 0 mem r k) = Ok 1 \<and>
        fst (sim_wait (epoll_fd r) kMaxEventsPerPoll (poll_timeout_ms 0) k) = Inr [(7, EPOLLHUP)]"
    by code_simp
  with s p have "res = Ok 1" "fst (sim_wait (epoll_fd r) kMaxEventsPerPoll (poll_timeout_ms 0) k) = Inr [(7, EPOLLHUP)]"
    by simp_all
  with poll_refines_table [OF p] s p show ?thesis by simp
qed



end
