(* ===== verification/Wake_Source.thy ===== *)
theory Wake_Source
  imports Reactor_Properties Wheel_Run
begin

text \<open>
  The contract between an awaiter and what may wake it. A suspended coroutine hands its handle,
  with the address of its wait state, to the reactor, the timer wheel and a stop callback; the
  first of them to find the state \<open>Pending\<close> settles it and queues the handle, the others must then
  leave both alone. A \<open>wake_source\<close> is anything that keeps this contract: while it watches handle
  \<open>h\<close> only under wait state \<open>s\<close>, a step never changes a settled state, and queues \<open>h\<close> once
  exactly if it settles \<open>s\<close>. The lemma \<open>woken_once\<close> is what an awaiter may rely on.
\<close>

section \<open>The contract\<close>

definition settles :: "coro \<Rightarrow> nat \<Rightarrow> wait_mem \<Rightarrow> wait_mem \<Rightarrow> nat \<Rightarrow> bool" where
  "settles h s m m' n \<longleftrightarrow>
     (m s \<noteq> Pending \<longrightarrow> m' s = m s) \<and> n = (if m s = Pending \<and> m' s \<noteq> Pending then 1 else 0)"

lemma settles_refl: "settles h s m m 0"
  by (simp add: settles_def)

lemma settles_trans: "settles h s m m' a \<Longrightarrow> settles h s m' m'' b \<Longrightarrow> settles h s m m'' (a + b)"
  by (auto simp: settles_def split: if_splits)

locale wake_source =
  fixes step :: "'e \<Rightarrow> 'x \<Rightarrow> 'x"
    and states :: "'x \<Rightarrow> wait_mem"
    and queued :: "coro \<Rightarrow> 'x \<Rightarrow> nat"
    and watches :: "coro \<Rightarrow> nat \<Rightarrow> 'x \<Rightarrow> bool"
    and fair :: "coro \<Rightarrow> nat \<Rightarrow> 'e \<Rightarrow> bool"
  assumes step_watches: "watches h s x \<Longrightarrow> fair h s e \<Longrightarrow> watches h s (step e x)"
    and step_settles: "watches h s x \<Longrightarrow> fair h s e \<Longrightarrow>
      \<exists>n. settles h s (states x) (states (step e x)) n \<and> queued h (step e x) = queued h x + n"
begin

lemma run_settles:
  "watches h s x \<Longrightarrow> list_all (fair h s) es \<Longrightarrow>
     watches h s (fold step es x) \<and>
     (\<exists>n. settles h s (states x) (states (fold step es x)) n \<and> queued h (fold step es x) = queued h x + n)"
proof (induction es arbitrary: x)
  case Nil
  then show ?case using settles_refl by fastforce
next
  case (Cons e es)
  from Cons.prems obtain n where n: "settles h s (states x) (states (step e x)) n"
      "queued h (step e x) = queued h x + n"
    using step_settles by fastforce
  from Cons.prems have "watches h s (step e x)" "list_all (fair h s) es"
    using step_watches by simp_all
  from Cons.IH [OF this] obtain m where m: "watches h s (fold step es (step e x))"
      "settles h s (states (step e x)) (states (fold step es (step e x))) m"
      "queued h (fold step es (step e x)) = queued h (step e x) + m" by blast
  show ?case
    using m(1,3) n(2) settles_trans [OF n(1) m(2)] by (intro conjI exI [of _ "n + m"]) simp_all
qed

lemma woken_once:
  assumes "watches h s x" "list_all (fair h s) es" "states x s = Pending" "queued h x = 0"
  shows "queued h (fold step es x) = (if states (fold step es x) s = Pending then 0 else 1)"
  using run_settles [OF assms(1,2)] assms(3,4) by (auto simp: settles_def)

lemma settled_for_good:
  assumes "watches h s x" "list_all (fair h s) es" "states x s \<noteq> Pending"
  shows "states (fold step es x) s = states x s \<and> queued h (fold step es x) = queued h x"
  using run_settles [OF assms(1,2)] assms(3) by (auto simp: settles_def)

end

text \<open>A waiter is in order if it has handle \<open>h\<close> just when its wait state is \<open>s\<close>, which it then settles.\<close>

definition in_order :: "coro \<Rightarrow> nat \<Rightarrow> handle \<Rightarrow> state_ptr \<Rightarrow> wait_state \<Rightarrow> bool" where
  "in_order h s g st c \<longleftrightarrow> (g = Some h \<longleftrightarrow> st = Some s) \<and> (st = Some s \<longrightarrow> c \<noteq> Pending)"

section \<open>The reactor is a wake source\<close>

definition entry_in_order :: "coro \<Rightarrow> nat \<Rightarrow> pending_entry option \<Rightarrow> bool" where
  "entry_in_order h s p = (case p of None \<Rightarrow> True | Some e \<Rightarrow> in_order h s (p_handle e) (p_state e) (p_completion e))"

definition table_in_order :: "coro \<Rightarrow> nat \<Rightarrow> (int \<Rightarrow> fd_entry) \<Rightarrow> bool" where
  "table_in_order h s t \<longleftrightarrow> (\<forall>fd. entry_in_order h s (rd (t fd)) \<and> entry_in_order h s (wr (t fd)))"

lemma entry_in_order_None [simp]: "entry_in_order h s None"
  by (simp add: entry_in_order_def)

lemma table_in_orderD: "table_in_order h s t \<Longrightarrow> entry_in_order h s (rd (t fd)) \<and> entry_in_order h s (wr (t fd))"
  by (simp add: table_in_order_def)

lemma table_in_order_upd:
  "table_in_order h s t \<Longrightarrow> entry_in_order h s (rd e) \<Longrightarrow> entry_in_order h s (wr e) \<Longrightarrow> table_in_order h s (t(fd := e))"
  by (simp add: table_in_order_def)

lemma fire_settles:
  "entry_in_order h s (Some p) \<Longrightarrow>
     settles h s (wstate mem) (wstate (fire_mem p mem)) (count_list (fire_out p mem) h)"
  by (auto simp: entry_in_order_def in_order_def settles_def fire_mem_def fire_out_def settled_def split: option.splits)

lemma spec_event_settles:
  assumes "table_in_order h s t" "spec_event ev (t, mem, out) = (t', mem', out')"
  shows "table_in_order h s t' \<and>
    (\<exists>n. settles h s (wstate mem) (wstate mem') n \<and> count_list out' h = count_list out h + n)"
proof -
  obtain fd ep where ev: "ev = (fd, ep)" by fastforce
  let ?e = "t fd"
  define m1 where "m1 = (if takes_rd ep ?e then fire_mem (the (rd ?e)) mem else mem)"
  define o1 where "o1 = (if takes_rd ep ?e then fire_out (the (rd ?e)) mem else [])"
  define m2 where "m2 = (if takes_wr ep ?e then fire_mem (the (wr ?e)) m1 else m1)"
  define o2 where "o2 = (if takes_wr ep ?e then fire_out (the (wr ?e)) m1 else [])"
  have e: "entry_in_order h s (rd ?e)" "entry_in_order h s (wr ?e)"
    using table_in_orderD [OF assms(1)] by blast+
  have s1: "settles h s (wstate mem) (wstate m1) (count_list o1 h)"
    using e(1) fire_settles settles_refl by (auto simp: m1_def o1_def takes_rd_def)
  have s2: "settles h s (wstate m1) (wstate m2) (count_list o2 h)"
    using e(2) fire_settles settles_refl by (auto simp: m2_def o2_def takes_wr_def)
  have "spec_event (fd, ep) (t, mem, out) =
      (t(fd := \<lparr>rd = (if takes_rd ep ?e then None else rd ?e), wr = (if takes_wr ep ?e then None else wr ?e)\<rparr>), m2, out @ o1 @ o2)"
    by (simp add: spec_event_def Let_def m1_def o1_def m2_def o2_def)
  then have r: "t' = t(fd := \<lparr>rd = (if takes_rd ep ?e then None else rd ?e), wr = (if takes_wr ep ?e then None else wr ?e)\<rparr>)"
      "mem' = m2" "out' = out @ o1 @ o2"
    using assms(2) by (simp_all add: ev)
  have "table_in_order h s t'"
    unfolding r(1) by (rule table_in_order_upd [OF assms(1)]) (use e in simp_all)
  then show ?thesis
    using settles_trans [OF s1 s2] r by auto
qed

lemma spec_events_settle:
  "table_in_order h s t \<Longrightarrow> fold spec_event evs (t, mem, out) = (t', mem', out') \<Longrightarrow>
     table_in_order h s t' \<and>
     (\<exists>n. settles h s (wstate mem) (wstate mem') n \<and> count_list out' h = count_list out h + n)"
proof (induction evs arbitrary: t mem out)
  case Nil
  then show ?case using settles_refl by fastforce
next
  case (Cons ev evs)
  obtain t1 mem1 out1 where e: "spec_event ev (t, mem, out) = (t1, mem1, out1)" using prod_cases3 by blast
  from spec_event_settles [OF Cons.prems(1) e] obtain n where n: "table_in_order h s t1"
    "settles h s (wstate mem) (wstate mem1) n" "count_list out1 h = count_list out h + n" by blast
  from Cons.prems(2) e have "fold spec_event evs (t1, mem1, out1) = (t', mem', out')" by simp
  from Cons.IH [OF n(1) this] obtain m where "table_in_order h s t'"
    "settles h s (wstate mem1) (wstate mem') m" "count_list out' h = count_list out1 h + m" by blast
  then show ?case using settles_trans [OF n(2)] n(3) by (metis add.assoc)
qed

fun fair_op :: "coro \<Rightarrow> nat \<Rightarrow> reactor_op \<Rightarrow> bool" where
  "fair_op h s (RegisterRead fd g q st c) = in_order h s g st c"
| "fair_op h s (RegisterWrite fd g q st c) = in_order h s g st c"
| "fair_op h s DrainReady = False"
| "fair_op h s op = True"

definition reactor_watches :: "coro \<Rightarrow> nat \<Rightarrow> io_mem \<times> reactor \<times> 'k \<Rightarrow> bool" where
  "reactor_watches h s x = table_in_order h s (view (fst (snd x)))"

definition reactor_queued :: "coro \<Rightarrow> io_mem \<times> reactor \<times> 'k \<Rightarrow> nat" where
  "reactor_queued h x = count_list (io_ready (fst (snd x))) h"

definition reactor_states :: "io_mem \<times> reactor \<times> 'k \<Rightarrow> wait_mem" where
  "reactor_states x = wstate (fst x)"

lemmas reactor_source_defs = reactor_watches_def reactor_queued_def reactor_states_def

lemma table_shrinks:
  "table_in_order h s t \<Longrightarrow> (\<And>fd. rd (t' fd) = None \<or> rd (t' fd) = rd (t fd)) \<Longrightarrow>
    (\<And>fd. wr (t' fd) = None \<or> wr (t' fd) = wr (t fd)) \<Longrightarrow> table_in_order h s t'"
  unfolding table_in_order_def by (metis entry_in_order_None)

lemma register_read_in_order:
  assumes "table_in_order h s (view r)" "in_order h s g st c" "register_read ctl fd g q st c r k = (res, r', k')"
  shows "table_in_order h s (view r') \<and> io_ready r' = io_ready r"
proof -
  have "view r' = view r \<or> view r' = (view r)(fd := (view r fd)\<lparr>rd := Some (entry_of g q st c)\<rparr>)"
    using register_read_spec [OF assms(3)] by (auto split: if_splits prod.splits option.splits)
  moreover have "table_in_order h s ((view r)(fd := (view r fd)\<lparr>rd := Some (entry_of g q st c)\<rparr>))"
    by (rule table_in_order_upd [OF assms(1)])
      (use assms(2) table_in_orderD [OF assms(1), of fd] in \<open>simp_all add: entry_in_order_def entry_of_def\<close>)
  ultimately show ?thesis using assms(1) register_read_spec [OF assms(3)] by auto
qed

lemma register_write_in_order:
  assumes "table_in_order h s (view r)" "in_order h s g st c" "register_write ctl fd g q st c r k = (res, r', k')"
  shows "table_in_order h s (view r') \<and> io_ready r' = io_ready r"
proof -
  have "view r' = view r \<or> view r' = (view r)(fd := (view r fd)\<lparr>wr := Some (entry_of g q st c)\<rparr>)"
    using register_write_spec [OF assms(3)] by (auto split: if_splits prod.splits option.splits)
  moreover have "table_in_order h s ((view r)(fd := (view r fd)\<lparr>wr := Some (entry_of g q st c)\<rparr>))"
    by (rule table_in_order_upd [OF assms(1)])
      (use assms(2) table_in_orderD [OF assms(1), of fd] in \<open>simp_all add: entry_in_order_def entry_of_def\<close>)
  ultimately show ?thesis using assms(1) register_write_spec [OF assms(3)] by auto
qed

lemma deregister_dir_in_order:
  assumes "table_in_order h s (view r)" "deregister_dir ctl fd dir r k = (r', k')"
  shows "table_in_order h s (view r') \<and> io_ready r' = io_ready r"
  using deregister_dir_spec(1,2) [OF assms(2)] table_shrinks [OF assms(1), of "view r'"] by simp

lemma clear_in_order: "table_in_order h s (view r) \<Longrightarrow> table_in_order h s (view (clear_slot fd r))"
  unfolding view_clear_slot by (rule table_in_order_upd) simp_all

lemma clear_slot_ready [simp]: "io_ready (clear_slot fd r) = io_ready r"
  by (simp add: clear_slot_def)

lemma poll_settles:
  assumes "table_in_order h s (view r)" "poll ctl wait t mem r k = (res, mem', r', k')"
  shows "table_in_order h s (view r') \<and>
    (\<exists>n. settles h s (wstate mem) (wstate mem') n \<and> count_list (io_ready r') h = count_list (io_ready r) h + n)"
proof -
  obtain x k1 where w: "wait (epoll_fd r) kMaxEventsPerPoll (poll_timeout_ms t) k = (x, k1)" by fastforce
  show ?thesis
  proof (cases x)
    case (Inl e)
    then have "mem' = mem" "r' = r" using assms(2) w by (auto simp: poll_def split: if_splits)
    then show ?thesis using assms(1) settles_refl by fastforce
  next
    case (Inr evs)
    then obtain n where n: "fold (poll_event ctl) evs (0, mem, r, k1) = (n, mem', r', k')"
      using assms(2) w by (auto simp: poll_def split: prod.splits)
    from spec_events_settle [OF assms(1) conjunct1 [OF poll_events_spec [OF n]]] show ?thesis .
  qed
qed

lemma run_op_settles:
  assumes "table_in_order h s (view r)" "fair_op h s op" "run_op ctl wait op (mem, r, k) = (mem', r', k')"
  shows "table_in_order h s (view r') \<and>
    (\<exists>n. settles h s (wstate mem) (wstate mem') n \<and> count_list (io_ready r') h = count_list (io_ready r) h + n)"
proof (cases op)
  case (Poll t)
  then obtain res where "poll ctl wait t mem r k = (res, mem', r', k')"
    using assms(3) by (metis prod.collapse run_op.simps(7) snd_conv)
  then show ?thesis by (rule poll_settles [OF assms(1)])
next
  case (Remove fd)
  have "r' = r \<or> r' = clear_slot fd r" "mem' = mem"
    using assms(3) Remove by (auto simp: reactor_remove_def split: if_splits prod.splits option.splits)
  then show ?thesis using assms(1) clear_in_order settles_refl by fastforce
next
  case (RegisterRead fd g q st c)
  then obtain res where "register_read ctl fd g q st c r k = (res, r', k')" "mem' = mem"
    using assms(3) by (cases "register_read ctl fd g q st c r k") auto
  then show ?thesis using register_read_in_order [OF assms(1)] assms(2) RegisterRead settles_refl by fastforce
next
  case (RegisterWrite fd g q st c)
  then obtain res where "register_write ctl fd g q st c r k = (res, r', k')" "mem' = mem"
    using assms(3) by (cases "register_write ctl fd g q st c r k") auto
  then show ?thesis using register_write_in_order [OF assms(1)] assms(2) RegisterWrite settles_refl by fastforce
next
  case (DeregisterDir fd dir)
  then have "deregister_dir ctl fd dir r k = (r', k')" "mem' = mem" using assms(3) by auto
  then show ?thesis using deregister_dir_in_order [OF assms(1)] settles_refl by fastforce
next
  case (Deregister fd)
  then have "r' = clear_slot fd r" "mem' = mem" using assms(3) by (auto simp: deregister_def)
  then show ?thesis using assms(1) clear_in_order settles_refl by fastforce
qed (use assms settles_refl in \<open>fastforce+\<close>)

interpretation rs: wake_source "run_op ctl wait" reactor_states reactor_queued reactor_watches fair_op
  for ctl :: "'k epoll_ctl" and wait
proof unfold_locales
  fix h s op and x :: "io_mem \<times> reactor \<times> 'k"
  assume a: "reactor_watches h s x" "fair_op h s op"
  obtain mem r k where x: "x = (mem, r, k)" using prod_cases3 by blast
  obtain mem' r' k' where y: "run_op ctl wait op (mem, r, k) = (mem', r', k')" using prod_cases3 by blast
  note rs = run_op_settles [OF _ a(2) y]
  show "reactor_watches h s (run_op ctl wait op x)"
    and "\<exists>n. settles h s (reactor_states x) (reactor_states (run_op ctl wait op x)) n \<and>
      reactor_queued h (run_op ctl wait op x) = reactor_queued h x + n"
    using rs a(1) by (simp_all add: x y reactor_source_defs)
qed

section \<open>The timer wheel is a wake source\<close>

definition slots_in_order :: "coro \<Rightarrow> nat \<Rightarrow> table_slot list \<Rightarrow> bool" where
  "slots_in_order h s sl \<longleftrightarrow> (\<forall>x\<in>set sl. s_active x \<longrightarrow>
     in_order h s (e_handle (s_entry x)) (e_state (s_entry x)) (e_completion (s_entry x)))"

text \<open>The handle of a suspended coroutine is not done: the wheel checks that before it queues one.\<close>

definition wheel_watches :: "(coro \<Rightarrow> bool) \<Rightarrow> coro \<Rightarrow> nat \<Rightarrow> wait_mem \<times> wheel \<Rightarrow> bool" where
  "wheel_watches fin h s x \<longleftrightarrow> \<not> fin h \<and> slots_in_order h s (slotmap (snd x))"

definition wheel_queued :: "coro \<Rightarrow> wait_mem \<times> wheel \<Rightarrow> nat" where
  "wheel_queued h x = count_list (ready (snd x)) h"

fun fair_wheel_op :: "coro \<Rightarrow> nat \<Rightarrow> wheel_op \<Rightarrow> bool" where
  "fair_wheel_op h s (Schedule delay g st c) = in_order h s g st c"
| "fair_wheel_op h s op = True"

lemma slots_in_order_update:
  "slots_in_order h s sl \<Longrightarrow>
     (s_active x \<Longrightarrow> in_order h s (e_handle (s_entry x)) (e_state (s_entry x)) (e_completion (s_entry x))) \<Longrightarrow>
     slots_in_order h s (sl[i := x])"
  unfolding slots_in_order_def using set_update_subset_insert [of sl i x] by blast

lemma lookup_in_order:
  assumes "slots_in_order h s (slotmap w)" "lookup tid w = Some e"
  shows "in_order h s (e_handle e) (e_state e) (e_completion e)"
proof -
  let ?x = "slotmap w ! unat (id_index tid)"
  have "?x \<in> set (slotmap w)" "s_active ?x" "e = s_entry ?x"
    using assms(2) by (auto simp: lookup_def Let_def split: if_splits)
  with assms(1) show ?thesis by (simp add: slots_in_order_def)
qed

lemma release_in_order: "slots_in_order h s (slotmap t) \<Longrightarrow> slots_in_order h s (slotmap (release tid t))"
  by (auto simp: release_def deactivate_def Let_def intro!: slots_in_order_update)

lemma schedule_in_order:
  assumes "slots_in_order h s (slotmap w)" "in_order h s g st c"
  shows "slots_in_order h s (slotmap (snd (schedule delay g st c w)))"
proof -
  have "slots_in_order h s (slotmap (snd (take_index w)))"
    using assms(1) by (auto simp: take_index_def slots_in_order_def default_slot_def)
  then show ?thesis
    using assms(2) by (auto simp: schedule_def schedule_at_def alloc_entry_def Let_def case_prod_beta
        wheel_simps intro!: slots_in_order_update)
qed

lemma process_id_settles:
  assumes "slots_in_order h s (slotmap w)" "\<not> fin h" "process_id fin tid (n, mem, w) = (n', mem', w')"
  shows "slots_in_order h s (slotmap w') \<and>
    (\<exists>i. settles h s mem mem' i \<and> count_list (ready w') h = count_list (ready w) h + i)"
proof (cases "lookup tid w")
  case None
  then show ?thesis using assms(1,3) settles_refl by (fastforce simp: process_id_def)
next
  case (Some e)
  have o: "in_order h s (e_handle e) (e_state e) (e_completion e)"
    using lookup_in_order [OF assms(1) Some] .
  have "slots_in_order h s (slotmap (release tid w1))" if "slotmap w1 = slotmap w" for w1 :: wheel
    using release_in_order assms(1) that by metis
  moreover have "\<exists>i. settles h s mem mem' i \<and> count_list (ready w') h = count_list (ready w) h + i"
    using assms(2,3) Some o
    by (cases "e_state e"; cases "e_handle e")
      (auto simp: process_id_def push_ready_def in_order_def settles_def wheel_simps split: if_splits)
  ultimately show ?thesis
    using assms(3) Some
    by (auto simp: process_id_def push_ready_def split: if_splits option.splits)
qed

lemma process_ids_settle:
  assumes "\<not> fin h"
  shows "slots_in_order h s (slotmap w) \<Longrightarrow> fold (process_id fin) ids (n, mem, w) = (n', mem', w') \<Longrightarrow>
    slots_in_order h s (slotmap w') \<and>
    (\<exists>i. settles h s mem mem' i \<and> count_list (ready w') h = count_list (ready w) h + i)"
proof (induction ids arbitrary: n mem w)
  case Nil
  then show ?case using settles_refl by fastforce
next
  case (Cons tid ids)
  obtain n1 mem1 w1 where p: "process_id fin tid (n, mem, w) = (n1, mem1, w1)" using prod_cases3 by blast
  from process_id_settles [OF Cons.prems(1) assms p] obtain i where i: "slots_in_order h s (slotmap w1)"
    "settles h s mem mem1 i" "count_list (ready w1) h = count_list (ready w) h + i" by blast
  from Cons.prems(2) p have "fold (process_id fin) ids (n1, mem1, w1) = (n', mem', w')" by simp
  from Cons.IH [OF i(1) this] obtain j where "slots_in_order h s (slotmap w')"
    "settles h s mem1 mem' j" "count_list (ready w') h = count_list (ready w1) h + j" by blast
  then show ?case using settles_trans [OF i(2)] i(3) by (metis add.assoc)
qed

lemma tick_settles:
  assumes "slots_in_order h s (slotmap w)" "\<not> fin h" "tick fin mem w = (n, mem', w')"
  shows "slots_in_order h s (slotmap w') \<and>
    (\<exists>i. settles h s mem mem' i \<and> count_list (ready w') h = count_list (ready w) h + i)"
proof -
  let ?w = "w\<lparr>current_time := current_time w + kTickDuration\<rparr>"
  define w1 where "w1 = (if current_slot (levels ?w ! 0) = 0 then cascade 1 ?w else ?w)"
  define w2 where "w2 = set_slot 0 (current_slot (levels w1 ! 0)) [] w1"
  obtain n2 mem2 w3 where f: "fold (process_id fin) (slot_ids w1 0 (current_slot (levels w1 ! 0))) (0, mem, w2) = (n2, mem2, w3)"
    using prod_cases3 by blast
  have e: "slotmap w2 = slotmap w" "ready w2 = ready w"
    by (simp_all add: w2_def w1_def wheel_simps)
  have "tick fin mem w = (n2, mem2, set_current_slot 0 ((current_slot (levels w3 ! 0) + 1) mod kLevel0Size) w3)"
    unfolding tick_def process_current_slot_def Let_def w1_def [symmetric] w2_def [symmetric] f by simp
  then have r: "mem' = mem2" "slotmap w' = slotmap w3" "ready w' = ready w3"
    using assms(3) by (auto simp: wheel_simps)
  show ?thesis using process_ids_settle [OF assms(2) _ f] assms(1) by (simp add: e r)
qed

interpretation ws: wake_source "wheel_step fin" fst wheel_queued "wheel_watches fin" fair_wheel_op
  for fin
proof unfold_locales
  fix h s op and x :: "wait_mem \<times> wheel"
  assume a: "wheel_watches fin h s x" "fair_wheel_op h s op"
  obtain mem w where x: "x = (mem, w)" by fastforce
  obtain n mem' w' where t: "tick fin mem w = (n, mem', w')" using prod_cases3 by blast
  have o: "slots_in_order h s (slotmap w)" "\<not> fin h" using a(1) by (simp_all add: x wheel_watches_def)
  have c: "slots_in_order h s (slotmap (snd (cancel tid w)))" "ready (snd (cancel tid w)) = ready w" for tid
    using release_in_order [OF o(1)] by (simp_all add: cancel_eq wheel_simps)
  have "ready (snd (schedule delay g st cm w)) = ready w" for delay g st cm
    by (simp add: schedule_def schedule_at_def alloc_entry_def take_index_def Let_def case_prod_beta wheel_simps)
  then show "wheel_watches fin h s (wheel_step fin op x)"
    and "\<exists>n. settles h s (fst x) (fst (wheel_step fin op x)) n \<and>
      wheel_queued h (wheel_step fin op x) = wheel_queued h x + n"
    using o a(2) c schedule_in_order [OF o(1)] tick_settles [OF o t] settles_refl [of h s mem]
    by (cases op; auto simp: x t wheel_watches_def wheel_queued_def)+
qed

end
