(* ===== verification/Awaiters.thy ===== *)
theory Awaiters
  imports Event_Loop Wake_Source
begin

text \<open>
  The awaiters of \<^verbatim>\<open>src/net/io_awaiters.hpp\<close>, the sleep awaiter of \<^verbatim>\<open>src/async/timer.hpp\<close>
  and the read and write awaiters of \<^verbatim>\<open>src/async/io_reactor.hpp\<close>. Each is a record of its members;
  the members the reactor, the timer and the callbacks write through pointers (\<open>state_\<close>,
  \<open>readiness_\<close>) are cells of the core, named by their addresses. An awaiter's three functions are
  \<open>await_ready\<close>, \<open>await_suspend\<close> (the Boolean says whether the coroutine stays suspended) and
  \<open>await_resume\<close>. They run on the core's own thread.
\<close>

section \<open>Stop callbacks of an awaiter\<close>

definition install_cb :: "('v, 'w) sys \<Rightarrow> stop_token \<Rightarrow> cancel_cb \<Rightarrow> ('v, 'w) core \<Rightarrow> ('v, 'w) core" where
  "install_cb sys tok cb c =
     (if stop_possible tok
      then let (now, st) = add_callback tok cb (stops c) in fold (run_callback sys True) now (c\<lparr>stops := st\<rparr>)
      else c)"

definition reset_cb :: "stop_token \<Rightarrow> cancel_cb \<Rightarrow> ('v, 'w) core \<Rightarrow> ('v, 'w) core" where
  "reset_cb tok cb c = c\<lparr>stops := remove_callback tok cb (stops c)\<rparr>"

definition set_result :: "nat \<Rightarrow> nat result \<Rightarrow> ('v, 'w) core \<Rightarrow> ('v, 'w) core" where
  "set_result q v c = c\<lparr>cells := (cells c)\<lparr>results := (results (cells c))(q := v)\<rparr>\<rparr>"

section \<open>Sleeping (async/timer.hpp)\<close>

record sleep_awaiter =
  sl_delay :: duration
  sl_id :: timer_id
  sl_handle :: handle
  sl_state :: nat
  sl_token :: stop_token

definition sleep_for :: "duration \<Rightarrow> nat \<Rightarrow> ('v, 'w) core \<Rightarrow> sleep_awaiter \<times> ('v, 'w) core" where
  "sleep_for delay s c =
     (\<lparr>sl_delay = delay, sl_id = 0, sl_handle = None, sl_state = s, sl_token = None\<rparr>, set_wait_state s Pending c)"

definition sleep_set_cancellation :: "stop_token \<Rightarrow> sleep_awaiter \<Rightarrow> sleep_awaiter" where
  "sleep_set_cancellation tok aw = aw\<lparr>sl_token := tok\<rparr>"

definition sleep_await_ready :: "sleep_awaiter \<Rightarrow> bool" where
  "sleep_await_ready aw = (sl_delay aw \<le> 0)"

definition sleep_await_suspend ::
  "('v, 'w) sys \<Rightarrow> coro \<Rightarrow> sleep_awaiter \<Rightarrow> ('v, 'w) core \<Rightarrow> sleep_awaiter \<times> ('v, 'w) core" where
  "sleep_await_suspend sys h aw c =
     (let (tid, t) = schedule (sl_delay aw) (Some h) (Some (sl_state aw)) Ready (l_timer c);
          aw = aw\<lparr>sl_handle := Some h, sl_id := tid\<rparr>;
          c = c\<lparr>l_timer := t\<rparr>
      in (aw, install_cb sys (sl_token aw) (CancelSleep (sl_state aw) (sl_handle aw) tid) c))"

definition sleep_await_resume :: "sleep_awaiter \<Rightarrow> ('v, 'w) core \<Rightarrow> unit result \<times> ('v, 'w) core" where
  "sleep_await_resume aw c =
     (let c = reset_cb (sl_token aw) (CancelSleep (sl_state aw) (sl_handle aw) (sl_id aw)) c
      in if wstate (cells c) (sl_state aw) = Cancelled
         then (Err (make_error ECANCELED ''sleep cancelled''), c)
         else (Ok (), c))"

section \<open>Readiness (net/io_awaiters.hpp)\<close>

definition io_cancelled_error :: system_error where
  "io_cancelled_error = make_error ECANCELED ''io operation cancelled''"

record ready_awaiter =
  ra_fd :: int
  ra_handle :: handle
  ra_state :: nat
  ra_readiness :: nat
  ra_token :: stop_token

definition new_ready_awaiter ::
  "string \<Rightarrow> int \<Rightarrow> nat \<Rightarrow> nat \<Rightarrow> ('v, 'w) core \<Rightarrow> ready_awaiter \<times> ('v, 'w) core" where
  "new_ready_awaiter msg fd s q c =
     (\<lparr>ra_fd = fd, ra_handle = None, ra_state = s, ra_readiness = q, ra_token = None\<rparr>,
      set_result q (Err (make_error ECANCELED msg)) (set_wait_state s Pending c))"

definition connect_awaiter :: "int \<Rightarrow> nat \<Rightarrow> nat \<Rightarrow> ('v, 'w) core \<Rightarrow> ready_awaiter \<times> ('v, 'w) core" where
  "connect_awaiter fd s q c = new_ready_awaiter ''connect not completed'' fd s q c"

definition read_ready_awaiter :: "int \<Rightarrow> nat \<Rightarrow> nat \<Rightarrow> ('v, 'w) core \<Rightarrow> ready_awaiter \<times> ('v, 'w) core" where
  "read_ready_awaiter fd s q c = new_ready_awaiter ''read readiness not completed'' fd s q c"

definition write_ready_awaiter :: "int \<Rightarrow> nat \<Rightarrow> nat \<Rightarrow> ('v, 'w) core \<Rightarrow> ready_awaiter \<times> ('v, 'w) core" where
  "write_ready_awaiter fd s q c = new_ready_awaiter ''write readiness not completed'' fd s q c"

definition ready_set_cancellation :: "stop_token \<Rightarrow> ready_awaiter \<Rightarrow> ready_awaiter" where
  "ready_set_cancellation tok aw = aw\<lparr>ra_token := tok\<rparr>"

definition core_register ::
  "('v, 'w) sys \<Rightarrow> io_event \<Rightarrow> int \<Rightarrow> handle \<Rightarrow> nat \<Rightarrow> nat \<Rightarrow> ('v, 'w) core \<Rightarrow> unit result \<times> ('v, 'w) core" where
  "core_register sys dir fd h q s c =
     (let (res, r, w) =
        (if dir = IoRead
         then register_read (epoll_ctl sys) fd h (Some q) (Some s) Ready (l_reactor c) (world c)
         else register_write (epoll_ctl sys) fd h (Some q) (Some s) Ready (l_reactor c) (world c))
      in (res, c\<lparr>l_reactor := r, world := w\<rparr>))"

text \<open>The body that the three \<open>await_suspend\<close> share, up to the direction.\<close>

definition suspend_ready ::
  "('v, 'w) sys \<Rightarrow> io_event \<Rightarrow> coro \<Rightarrow> ready_awaiter \<Rightarrow> ('v, 'w) core \<Rightarrow> bool \<times> ready_awaiter \<times> ('v, 'w) core" where
  "suspend_ready sys dir h aw c =
     (let aw = aw\<lparr>ra_handle := Some h\<rparr>
      in case core_register sys dir (ra_fd aw) (Some h) (ra_readiness aw) (ra_state aw) c of
           (Inl e, c1) \<Rightarrow> (False, aw, set_result (ra_readiness aw) (Err e) c1)
         | (Inr _, c1) \<Rightarrow>
             (True, aw, install_cb sys (ra_token aw) (CancelIo (ra_fd aw) dir (ra_state aw) (ra_handle aw)) c1))"

definition connect_await_suspend ::
  "('v, 'w) sys \<Rightarrow> coro \<Rightarrow> ready_awaiter \<Rightarrow> ('v, 'w) core \<Rightarrow> bool \<times> ready_awaiter \<times> ('v, 'w) core" where
  "connect_await_suspend sys h aw c = suspend_ready sys IoWrite h aw c"

definition read_ready_await_suspend ::
  "('v, 'w) sys \<Rightarrow> coro \<Rightarrow> ready_awaiter \<Rightarrow> ('v, 'w) core \<Rightarrow> bool \<times> ready_awaiter \<times> ('v, 'w) core" where
  "read_ready_await_suspend sys h aw c = suspend_ready sys IoRead h aw c"

definition write_ready_await_suspend ::
  "('v, 'w) sys \<Rightarrow> coro \<Rightarrow> ready_awaiter \<Rightarrow> ('v, 'w) core \<Rightarrow> bool \<times> ready_awaiter \<times> ('v, 'w) core" where
  "write_ready_await_suspend sys h aw c = suspend_ready sys IoWrite h aw c"

definition resume_ready_wait ::
  "io_event \<Rightarrow> ready_awaiter \<Rightarrow> ('v, 'w) core \<Rightarrow> unit result \<times> ('v, 'w) core" where
  "resume_ready_wait dir aw c =
     (let c = reset_cb (ra_token aw) (CancelIo (ra_fd aw) dir (ra_state aw) (ra_handle aw)) c
      in if wstate (cells c) (ra_state aw) = Cancelled then (Err io_cancelled_error, c)
         else case results (cells c) (ra_readiness aw) of
                Inl e \<Rightarrow> (Err e, c)
              | Inr _ \<Rightarrow> (Ok (), c))"

definition read_ready_await_resume :: "ready_awaiter \<Rightarrow> ('v, 'w) core \<Rightarrow> unit result \<times> ('v, 'w) core" where
  "read_ready_await_resume aw c = resume_ready_wait IoRead aw c"

definition write_ready_await_resume :: "ready_awaiter \<Rightarrow> ('v, 'w) core \<Rightarrow> unit result \<times> ('v, 'w) core" where
  "write_ready_await_resume aw c = resume_ready_wait IoWrite aw c"

text \<open>\<open>getsockopt\<close> answers the pending error of the socket (\<open>SO_ERROR\<close>) or fails.\<close>

definition connect_await_resume ::
  "(int \<Rightarrow> 'w \<Rightarrow> (int + int) \<times> 'w) \<Rightarrow> ready_awaiter \<Rightarrow> ('v, 'w) core \<Rightarrow> unit result \<times> ('v, 'w) core" where
  "connect_await_resume getsockopt aw c =
     (case resume_ready_wait IoWrite aw c of
        (Inl e, c1) \<Rightarrow> (Err e, c1)
      | (Inr _, c1) \<Rightarrow>
          (case getsockopt (ra_fd aw) (world c1) of
             (Inl e, w) \<Rightarrow> (Err (from_errno e), c1\<lparr>world := w\<rparr>)
           | (Inr err, w) \<Rightarrow>
               (if err \<noteq> 0 then Err (make_error err ''connect failed'') else Ok (), c1\<lparr>world := w\<rparr>)))"

section \<open>Readiness with a deadline\<close>

datatype direction = DirRead | DirWrite

definition dir_event :: "direction \<Rightarrow> io_event" where
  "dir_event d = (case d of DirRead \<Rightarrow> IoRead | DirWrite \<Rightarrow> IoWrite)"

record timed_awaiter =
  ta_fd :: int
  ta_direction :: direction
  ta_timeout :: duration
  ta_timer :: timer_id
  ta_handle :: handle
  ta_state :: nat
  ta_readiness :: nat
  ta_token :: stop_token

definition timed_ready_awaiter ::
  "int \<Rightarrow> direction \<Rightarrow> duration \<Rightarrow> nat \<Rightarrow> nat \<Rightarrow> ('v, 'w) core \<Rightarrow> timed_awaiter \<times> ('v, 'w) core" where
  "timed_ready_awaiter fd d timeout s q c =
     (\<lparr>ta_fd = fd, ta_direction = d, ta_timeout = timeout, ta_timer = 0, ta_handle = None, ta_state = s,
       ta_readiness = q, ta_token = None\<rparr>,
      set_result q (Err (make_error ECANCELED ''timed readiness not completed'')) (set_wait_state s Pending c))"

definition timed_set_cancellation :: "stop_token \<Rightarrow> timed_awaiter \<Rightarrow> timed_awaiter" where
  "timed_set_cancellation tok aw = aw\<lparr>ta_token := tok\<rparr>"

definition timed_cb :: "timed_awaiter \<Rightarrow> cancel_cb" where
  "timed_cb aw = CancelTimed (ta_fd aw) (dir_event (ta_direction aw)) (ta_state aw) (ta_handle aw) (ta_timer aw)"

definition timed_await_suspend ::
  "('v, 'w) sys \<Rightarrow> coro \<Rightarrow> timed_awaiter \<Rightarrow> ('v, 'w) core \<Rightarrow> bool \<times> timed_awaiter \<times> ('v, 'w) core" where
  "timed_await_suspend sys h aw c =
     (if ta_timeout aw \<le> 0 then (False, aw, set_wait_state (ta_state aw) TimedOut c)
      else let (tid, t) = schedule (ta_timeout aw) (Some h) (Some (ta_state aw)) TimedOut (l_timer c);
               aw = aw\<lparr>ta_handle := Some h, ta_timer := tid\<rparr>;
               c = c\<lparr>l_timer := t\<rparr>
           in case core_register sys (dir_event (ta_direction aw)) (ta_fd aw) (Some h) (ta_readiness aw) (ta_state aw) c of
                (Inl e, c1) \<Rightarrow> (False, aw, set_result (ta_readiness aw) (Err e) (core_cancel_timer tid c1))
              | (Inr _, c1) \<Rightarrow> (True, aw, install_cb sys (ta_token aw) (timed_cb aw) c1))"

definition timed_await_resume ::
  "('v, 'w) sys \<Rightarrow> timed_awaiter \<Rightarrow> ('v, 'w) core \<Rightarrow> unit result \<times> ('v, 'w) core" where
  "timed_await_resume sys aw c =
     (let c = reset_cb (ta_token aw) (timed_cb aw) c
      in if wstate (cells c) (ta_state aw) = Cancelled
         then (Err io_cancelled_error, core_cancel_timer (ta_timer aw) c)
         else if wstate (cells c) (ta_state aw) = TimedOut
         then (Err (make_error ETIMEDOUT (if ta_direction aw = DirRead then ''read timeout'' else ''write timeout'')),
               core_deregister sys (ta_fd aw) (dir_event (ta_direction aw)) c)
         else let c = core_cancel_timer (ta_timer aw) c
              in case results (cells c) (ta_readiness aw) of
                   Inl e \<Rightarrow> (Err e, c)
                 | Inr _ \<Rightarrow> (Ok (), c))"

section \<open>Reading and writing through the reactor (async/io_reactor.hpp)\<close>

text \<open>
  \<open>read_call\<close> answers an error number or the bytes read, \<open>write_call\<close> an error number or the
  number of bytes taken. On Linux \<open>EWOULDBLOCK\<close> is \<open>EAGAIN\<close>.
\<close>

type_synonym 'w read_call = "int \<Rightarrow> nat \<Rightarrow> 'w \<Rightarrow> (int + u8 list) \<times> 'w"
type_synonym 'w write_call = "int \<Rightarrow> u8 list \<Rightarrow> 'w \<Rightarrow> (int + nat) \<times> 'w"

record rw_awaiter =
  rw_fd :: int
  rw_immediate :: bool
  rw_result :: "nat result"
  rw_readiness :: nat

record read_awaiter = rw_awaiter +
  rw_len :: nat
  rw_buf :: "u8 list"

record write_awaiter = rw_awaiter +
  rw_data :: "u8 list"

definition async_read :: "int \<Rightarrow> nat \<Rightarrow> nat \<Rightarrow> ('v, 'w) core \<Rightarrow> read_awaiter \<times> ('v, 'w) core" where
  "async_read fd len q c =
     (\<lparr>rw_fd = fd, rw_immediate = False, rw_result = Err (make_error ECANCELED ''read not completed''),
       rw_readiness = q, rw_len = len, rw_buf = []\<rparr>,
      set_result q (Err (make_error ECANCELED ''read readiness not completed'')) c)"

definition read_await_ready ::
  "'w read_call \<Rightarrow> read_awaiter \<Rightarrow> ('v, 'w) core \<Rightarrow> bool \<times> read_awaiter \<times> ('v, 'w) core" where
  "read_await_ready rd_call aw c =
     (case rd_call (rw_fd aw) (rw_len aw) (world c) of
        (Inr bytes, w) \<Rightarrow>
          (True, aw\<lparr>rw_result := Ok (length bytes), rw_immediate := True, rw_buf := bytes\<rparr>, c\<lparr>world := w\<rparr>)
      | (Inl e, w) \<Rightarrow>
          if e = EAGAIN then (False, aw, c\<lparr>world := w\<rparr>)
          else (True, aw\<lparr>rw_result := Err (from_errno e), rw_immediate := True\<rparr>, c\<lparr>world := w\<rparr>))"

definition read_await_suspend ::
  "('v, 'w) sys \<Rightarrow> coro \<Rightarrow> read_awaiter \<Rightarrow> ('v, 'w) core \<Rightarrow> bool \<times> ('v, 'w) core" where
  "read_await_suspend sys h aw c =
     (case register_read (epoll_ctl sys) (rw_fd aw) (Some h) (Some (rw_readiness aw)) None Ready (l_reactor c) (world c) of
        (Inl e, r, w) \<Rightarrow> (False, set_result (rw_readiness aw) (Err e) (c\<lparr>l_reactor := r, world := w\<rparr>))
      | (Inr _, r, w) \<Rightarrow> (True, c\<lparr>l_reactor := r, world := w\<rparr>))"

partial_function (option) read_retry ::
  "'w read_call \<Rightarrow> int \<Rightarrow> nat \<Rightarrow> 'w \<Rightarrow> (u8 list result \<times> 'w) option" where
  "read_retry rd_call fd len w =
     (case rd_call fd len w of
        (Inr bytes, w1) \<Rightarrow> Some (Ok bytes, w1)
      | (Inl e, w1) \<Rightarrow>
          if e = EINTR then read_retry rd_call fd len w1
          else if e = EAGAIN
          then Some (Err (make_error EAGAIN ''read would block after readiness notification''), w1)
          else Some (Err (from_errno e), w1))"

definition read_await_resume ::
  "'w read_call \<Rightarrow> read_awaiter \<Rightarrow> ('v, 'w) core \<Rightarrow> (nat result \<times> read_awaiter \<times> ('v, 'w) core) option" where
  "read_await_resume rd_call aw c =
     (if rw_immediate aw then Some (rw_result aw, aw, c)
      else case results (cells c) (rw_readiness aw) of
             Inl e \<Rightarrow> Some (Err e, aw, c)
           | Inr _ \<Rightarrow>
               (case read_retry rd_call (rw_fd aw) (rw_len aw) (world c) of
                  None \<Rightarrow> None
                | Some (Inl e, w) \<Rightarrow> Some (Err e, aw, c\<lparr>world := w\<rparr>)
                | Some (Inr bytes, w) \<Rightarrow> Some (Ok (length bytes), aw\<lparr>rw_buf := bytes\<rparr>, c\<lparr>world := w\<rparr>)))"

definition async_write :: "int \<Rightarrow> u8 list \<Rightarrow> nat \<Rightarrow> ('v, 'w) core \<Rightarrow> write_awaiter \<times> ('v, 'w) core" where
  "async_write fd buf q c =
     (\<lparr>rw_fd = fd, rw_immediate = False, rw_result = Err (make_error ECANCELED ''write not completed''),
       rw_readiness = q, rw_data = buf\<rparr>,
      set_result q (Err (make_error ECANCELED ''write readiness not completed'')) c)"

definition write_await_ready ::
  "'w write_call \<Rightarrow> write_awaiter \<Rightarrow> ('v, 'w) core \<Rightarrow> bool \<times> write_awaiter \<times> ('v, 'w) core" where
  "write_await_ready wr_call aw c =
     (case wr_call (rw_fd aw) (rw_data aw) (world c) of
        (Inr n, w) \<Rightarrow> (True, aw\<lparr>rw_result := Ok n, rw_immediate := True\<rparr>, c\<lparr>world := w\<rparr>)
      | (Inl e, w) \<Rightarrow>
          if e = EAGAIN then (False, aw, c\<lparr>world := w\<rparr>)
          else (True, aw\<lparr>rw_result := Err (from_errno e), rw_immediate := True\<rparr>, c\<lparr>world := w\<rparr>))"

definition write_await_suspend ::
  "('v, 'w) sys \<Rightarrow> coro \<Rightarrow> write_awaiter \<Rightarrow> ('v, 'w) core \<Rightarrow> bool \<times> ('v, 'w) core" where
  "write_await_suspend sys h aw c =
     (case register_write (epoll_ctl sys) (rw_fd aw) (Some h) (Some (rw_readiness aw)) None Ready (l_reactor c) (world c) of
        (Inl e, r, w) \<Rightarrow> (False, set_result (rw_readiness aw) (Err e) (c\<lparr>l_reactor := r, world := w\<rparr>))
      | (Inr _, r, w) \<Rightarrow> (True, c\<lparr>l_reactor := r, world := w\<rparr>))"

partial_function (option) write_retry ::
  "'w write_call \<Rightarrow> int \<Rightarrow> u8 list \<Rightarrow> 'w \<Rightarrow> (nat result \<times> 'w) option" where
  "write_retry wr_call fd buf w =
     (case wr_call fd buf w of
        (Inr n, w1) \<Rightarrow> Some (Ok n, w1)
      | (Inl e, w1) \<Rightarrow>
          if e = EINTR then write_retry wr_call fd buf w1
          else if e = EAGAIN
          then Some (Err (make_error EAGAIN ''write would block after readiness notification''), w1)
          else Some (Err (from_errno e), w1))"

definition write_await_resume ::
  "'w write_call \<Rightarrow> write_awaiter \<Rightarrow> ('v, 'w) core \<Rightarrow> (nat result \<times> ('v, 'w) core) option" where
  "write_await_resume wr_call aw c =
     (if rw_immediate aw then Some (rw_result aw, c)
      else case results (cells c) (rw_readiness aw) of
             Inl e \<Rightarrow> Some (Err e, c)
           | Inr _ \<Rightarrow>
               (case write_retry wr_call (rw_fd aw) (rw_data aw) (world c) of
                  None \<Rightarrow> None
                | Some (res, w) \<Rightarrow> Some (res, c\<lparr>world := w\<rparr>)))"

end
