(* ===== verification/Awaiter_Properties.thy ===== *)
theory Awaiter_Properties
  imports Awaiters
begin

text \<open>
  A suspended coroutine is woken once. The core, with its reactor, its timer wheel and the stop
  callbacks installed in it, is a \<open>wake_source\<close>, by the contracts of the reactor and the wheel
  (interpretations \<open>rs\<close> and \<open>ws\<close>); so whatever happens between the suspension of an awaiter and
  the resumption of its coroutine, the handle is queued at most once, and exactly if one of the
  competing events has settled the wait.
\<close>

section \<open>The core's steps\<close>

datatype core_ev =
    CPoll | CTimers | CDrain
  | CStop stop_token
  | CReactor reactor_op
  | CTimer wheel_op
  | CCallback stop_token cancel_cb
  | CSpawn handle

definition core_reactor_op :: "('v, 'w) sys \<Rightarrow> reactor_op \<Rightarrow> ('v, 'w) core \<Rightarrow> ('v, 'w) core" where
  "core_reactor_op sys op c =
     (let (mem, r, w) = run_op (epoll_ctl sys) (epoll_wait sys) op (cells c, l_reactor c, world c)
      in c\<lparr>cells := mem, l_reactor := r, world := w\<rparr>)"

definition core_timer_op :: "wheel_op \<Rightarrow> ('v, 'w) core \<Rightarrow> ('v, 'w) core" where
  "core_timer_op op c =
     (let (wm, t) = wheel_step (h_done (frames c)) op (wstate (cells c), l_timer c)
      in c\<lparr>cells := (cells c)\<lparr>wstate := wm\<rparr>, l_timer := t\<rparr>)"

text \<open>
  What may happen on a core while a coroutine is suspended: the loop polls, advances its timers,
  takes in submitted tasks; other coroutines use the reactor and the timers, install stop callbacks,
  spawn tasks and request stops.
\<close>

fun core_step :: "('v, 'w) sys \<Rightarrow> core_ev \<Rightarrow> ('v, 'w) core \<Rightarrow> ('v, 'w) core" where
  "core_step sys CPoll c = snd (poll_io sys c)"
| "core_step sys CTimers c = advance_timer sys c"
| "core_step sys CDrain c = drain_cross_core sys c"
| "core_step sys (CStop src) c = core_request_stop sys True src c"
| "core_step sys (CReactor op) c = core_reactor_op sys op c"
| "core_step sys (CTimer op) c = core_timer_op op c"
| "core_step sys (CCallback tok cb) c = install_cb sys tok cb c"
| "core_step sys (CSpawn h) c = spawn h c"

fun cb_in_order :: "coro \<Rightarrow> nat \<Rightarrow> cancel_cb \<Rightarrow> bool" where
  "cb_in_order h s (CancelIo fd dir s' g) = (g = Some h \<longleftrightarrow> s' = s)"
| "cb_in_order h s (CancelTimed fd dir s' g tid) = (g = Some h \<longleftrightarrow> s' = s)"
| "cb_in_order h s (CancelSleep s' g tid) = (g = Some h \<longleftrightarrow> s' = s)"

fun fair_core :: "coro \<Rightarrow> nat \<Rightarrow> core_ev \<Rightarrow> bool" where
  "fair_core h s (CReactor op) = fair_op h s op"
| "fair_core h s (CTimer op) = fair_wheel_op h s op"
| "fair_core h s (CCallback tok cb) = cb_in_order h s cb"
| "fair_core h s (CSpawn g) = (g \<noteq> Some h)"
| "fair_core h s ev = True"

definition core_states :: "('v, 'w) core \<Rightarrow> wait_mem" where
  "core_states c = wstate (cells c)"

definition core_queued :: "coro \<Rightarrow> ('v, 'w) core \<Rightarrow> nat" where
  "core_queued h c =
     count_list (ready_queue c) (Some h) + count_list (io_ready (l_reactor c)) h + count_list (ready (l_timer c)) h"

definition core_watches :: "coro \<Rightarrow> nat \<Rightarrow> ('v, 'w) core \<Rightarrow> bool" where
  "core_watches h s c \<longleftrightarrow>
     table_in_order h s (view (l_reactor c)) \<and> slots_in_order h s (slotmap (l_timer c)) \<and>
     (\<forall>i. \<forall>cb\<in>set (callbacks (stops c) i). cb_in_order h s cb) \<and>
     \<not> h_done (frames c) h \<and> Some h \<notin> set (cross_core_queue c)"

definition core_settles :: "coro \<Rightarrow> nat \<Rightarrow> ('v, 'w) core \<Rightarrow> ('v, 'w) core \<Rightarrow> bool" where
  "core_settles h s c c' \<longleftrightarrow> core_watches h s c' \<and>
     (\<exists>n. settles h s (core_states c) (core_states c') n \<and> core_queued h c' = core_queued h c + n)"

lemmas core_source_defs = core_states_def core_queued_def core_watches_def

lemma core_settles_trans:
  "core_settles h s c c1 \<Longrightarrow> core_settles h s c1 c2 \<Longrightarrow> core_settles h s c c2"
  unfolding core_settles_def using settles_trans by (metis add.assoc)

lemma count_list_map_Some: "count_list (map Some xs) (Some x) = count_list xs x"
  by (induction xs) auto

lemma core_settles_quiet:
  assumes "core_watches h s c" "core_watches h s c'" "core_states c' = core_states c" "core_queued h c' = core_queued h c"
  shows "core_settles h s c c'"
  using assms settles_refl [of h s "core_states c"] unfolding core_settles_def by (metis add.right_neutral)

section \<open>Reactor and timers\<close>

lemma core_reactor_op_settles:
  assumes "core_watches h s c" "fair_op h s op"
  shows "core_settles h s c (core_reactor_op sys op c)"
proof -
  obtain mem r w where o: "run_op (epoll_ctl sys) (epoll_wait sys) op (cells c, l_reactor c, world c) = (mem, r, w)"
    using prod_cases3 by blast
  have "reactor_watches h s (cells c, l_reactor c, world c)"
    using assms(1) by (simp add: core_watches_def reactor_watches_def)
  from rs.step_watches [OF this assms(2), of "epoll_ctl sys" "epoll_wait sys"]
    rs.step_settles [OF this assms(2), of "epoll_ctl sys" "epoll_wait sys"]
  have "table_in_order h s (view r)"
    "\<exists>n. settles h s (wstate (cells c)) (wstate mem) n \<and>
       count_list (io_ready r) h = count_list (io_ready (l_reactor c)) h + n"
    by (simp_all add: o reactor_source_defs)
  then show ?thesis
    using assms(1) by (auto simp: core_reactor_op_def o core_settles_def core_source_defs)
qed

lemma core_timer_op_settles:
  assumes "core_watches h s c" "fair_wheel_op h s op"
  shows "core_settles h s c (core_timer_op op c)"
proof -
  obtain wm t where o: "wheel_step (h_done (frames c)) op (wstate (cells c), l_timer c) = (wm, t)" by fastforce
  have "wheel_watches (h_done (frames c)) h s (wstate (cells c), l_timer c)"
    using assms(1) by (simp add: core_watches_def wheel_watches_def)
  from ws.step_watches [OF this assms(2)] ws.step_settles [OF this assms(2)]
  have "slots_in_order h s (slotmap t)"
    "\<exists>n. settles h s (wstate (cells c)) wm n \<and> count_list (ready t) h = count_list (ready (l_timer c)) h + n"
    by (simp_all add: o wheel_watches_def wheel_queued_def)
  then show ?thesis
    using assms(1) by (auto simp: core_timer_op_def o core_settles_def core_source_defs)
qed

lemma poll_io_settles:
  assumes "core_watches h s c"
  shows "core_settles h s c (snd (poll_io sys c))"
proof -
  obtain now w1 where n: "clock_now sys (world c) = (now, w1)" by fastforce
  let ?c = "c\<lparr>world := w1\<rparr>" and ?t = "poll_timeout now (l_timer c)"
  obtain res mem r w2 where p: "poll (epoll_ctl sys) (epoll_wait sys) ?t (cells c) (l_reactor c) w1 = (res, mem, r, w2)"
    using prod_cases4 by blast
  have "core_settles h s ?c (core_reactor_op sys (Poll ?t) ?c)"
    by (rule core_reactor_op_settles) (use assms in \<open>simp_all add: core_watches_def\<close>)
  then have "core_settles h s c (c\<lparr>cells := mem, l_reactor := r, world := w2\<rparr>)"
    by (simp add: core_reactor_op_def p core_settles_def core_source_defs)
  then show ?thesis
    by (cases res) (simp_all add: poll_io_def n p Let_def reactor_drain_ready_into_def core_settles_def
        core_source_defs count_list_map_Some)
qed

lemma advance_timer_settles:
  assumes "core_watches h s c"
  shows "core_settles h s c (advance_timer sys c)"
proof -
  let ?fin = "h_done (frames c)"
  obtain now w1 where n: "clock_now sys (world c) = (now, w1)" by fastforce
  obtain k wm t where a: "advance_to ?fin now (wstate (cells c)) (l_timer c) = (k, wm, t)"
    using prod_cases3 by blast
  from advance_to_ops [OF a] obtain m where
    m: "wheel_ops ?fin (replicate m Tick) (wstate (cells c), l_timer c) = (wm, t)" by blast
  have f: "wheel_ops fin ops x = fold (wheel_step fin) ops x" for fin ops x
    by (induction ops arbitrary: x) simp_all
  have "wheel_watches ?fin h s (wstate (cells c), l_timer c)"
    using assms by (simp add: core_watches_def wheel_watches_def)
  moreover have "list_all (fair_wheel_op h s) (replicate m Tick)"
    by (simp add: list_all_iff)
  ultimately have "slots_in_order h s (slotmap t)"
    "\<exists>i. settles h s (wstate (cells c)) wm i \<and> count_list (ready t) h = count_list (ready (l_timer c)) h + i"
    using ws.run_settles [of ?fin h s "(wstate (cells c), l_timer c)" "replicate m Tick"] m [unfolded f]
    by (simp_all add: wheel_watches_def wheel_queued_def)
  then show ?thesis
    using assms by (auto simp: advance_timer_def n a Let_def drain_ready_into_def core_settles_def core_source_defs count_list_map_Some)
qed

section \<open>Callbacks\<close>

lemma core_deregister_quiet [simp]:
  "core_watches h s c \<Longrightarrow> core_watches h s (core_deregister sys fd dir c)"
  "core_queued h (core_deregister sys fd dir c) = core_queued h c"
  "core_states (core_deregister sys fd dir c) = core_states c"
proof -
  obtain r w where d: "deregister_dir (epoll_ctl sys) fd dir (l_reactor c) (world c) = (r, w)" by fastforce
  show "core_watches h s (core_deregister sys fd dir c)" if "core_watches h s c"
    using deregister_dir_in_order [OF _ d, of h s] that by (simp add: core_deregister_def d core_watches_def)
  show "core_queued h (core_deregister sys fd dir c) = core_queued h c"
    "core_states (core_deregister sys fd dir c) = core_states c"
    using deregister_dir_spec(2) [OF d] by (simp_all add: core_deregister_def d core_source_defs)
qed

lemma core_cancel_timer_quiet [simp]:
  "core_watches h s c \<Longrightarrow> core_watches h s (core_cancel_timer tid c)"
  "core_queued h (core_cancel_timer tid c) = core_queued h c"
  "core_states (core_cancel_timer tid c) = core_states c"
  using release_in_order [of h s "l_timer c"]
  by (simp_all add: core_cancel_timer_def core_source_defs cancel_eq wheel_simps)

lemma set_wait_state_watches: "core_watches h s (set_wait_state s' v c) = core_watches h s c"
  by (simp add: set_wait_state_def core_watches_def)

lemma run_callback_settles:
  assumes "core_watches h s c" "cb_in_order h s cb"
  shows "core_settles h s c (run_callback sys True cb c)"
proof -
  have w: "core_watches h s (set_wait_state s' Cancelled c)" for s'
    using assms(1) by (simp add: set_wait_state_watches)
  have q: "core_queued h (set_wait_state s' v c) = core_queued h c" for s' v
    by (simp add: set_wait_state_def core_queued_def)
  have st: "core_states (set_wait_state s' v c) = (core_states c)(s' := v)" for s' v
    by (simp add: set_wait_state_def core_states_def)
  have nw: "core_watches h s (notify g x) = core_watches h s x" "core_states (notify g x) = core_states x"
      "core_queued h (notify g x) = core_queued h x + (if g = Some h then 1 else 0)" for g and x :: "('a, 'b) core"
    by (simp_all add: notify_def core_source_defs)
  have wk: "core_watches h s (x\<lparr>l_timer := wake y (l_timer x)\<rparr>) = core_watches h s x"
      "core_states (x\<lparr>l_timer := wake y (l_timer x)\<rparr>) = core_states x"
      "core_queued h (x\<lparr>l_timer := wake y (l_timer x)\<rparr>) = core_queued h x + (if y = h then 1 else 0)" for y and x :: "('a, 'b) core"
    by (simp_all add: wake_def core_source_defs)
  have id: "core_settles h s c c" by (rule core_settles_quiet [OF assms(1) assms(1)]) simp_all
  show ?thesis
    using assms(2) id
    by (cases cb)
      (auto simp: cancel_io_wait_def cancel_timed_wait_def cancel_sleep_def notify_current_def Let_def w q st nw wk
        core_settles_def settles_def core_states_def [symmetric] split: option.splits)
qed

lemma run_callbacks_settle:
  "core_watches h s c \<Longrightarrow> \<forall>cb\<in>set cbs. cb_in_order h s cb \<Longrightarrow> core_settles h s c (fold (run_callback sys True) cbs c)"
proof (induction cbs arbitrary: c)
  case Nil
  then show ?case by (simp add: core_settles_quiet)
next
  case (Cons cb cbs)
  then have 1: "core_settles h s c (run_callback sys True cb c)" by (simp add: run_callback_settles)
  then have "core_watches h s (run_callback sys True cb c)" by (simp add: core_settles_def)
  with Cons have "core_settles h s (run_callback sys True cb c) (fold (run_callback sys True) cbs (run_callback sys True cb c))"
    by simp
  with 1 show ?case by (simp add: core_settles_trans)
qed

lemma core_step_settles:
  assumes "core_watches h s c" "fair_core h s ev"
  shows "core_settles h s c (core_step sys ev c)"
proof (cases ev)
  case CDrain
  have "count_list (cross_core_queue c) (Some h) = 0"
    using assms(1) by (simp add: core_watches_def)
  then show ?thesis
    unfolding CDrain core_step.simps
    by (intro core_settles_quiet) (use assms(1) in \<open>simp_all add: core_source_defs drain_cross_core_def\<close>)
next
  case (CStop src)
  obtain cbs st where r: "source_request_stop src (stops c) = (cbs, st)" by fastforce
  have "\<forall>cb\<in>set cbs. cb_in_order h s cb" "core_watches h s (c\<lparr>stops := st\<rparr>)"
    using assms(1) r by (auto simp: source_request_stop_def core_watches_def split: option.splits if_splits)
  with run_callbacks_settle have "core_settles h s (c\<lparr>stops := st\<rparr>) (core_step sys ev c)"
    by (auto simp: CStop core_request_stop_def r)
  then show ?thesis by (simp add: core_settles_def core_states_def core_queued_def)
next
  case (CCallback tok cb)
  show ?thesis
  proof (cases "stop_possible tok")
    case True
    obtain now st where r: "add_callback tok cb (stops c) = (now, st)" by fastforce
    have "\<forall>cb\<in>set now. cb_in_order h s cb" "core_watches h s (c\<lparr>stops := st\<rparr>)"
      using assms CCallback r by (auto simp: add_callback_def core_watches_def split: option.splits if_splits)
    with run_callbacks_settle have "core_settles h s (c\<lparr>stops := st\<rparr>) (core_step sys ev c)"
      using True by (auto simp: CCallback install_cb_def r)
    then show ?thesis by (simp add: core_settles_def core_states_def core_queued_def)
  qed (use assms in \<open>simp add: CCallback install_cb_def core_settles_quiet\<close>)
next
  case (CSpawn g)
  then show ?thesis
    unfolding CSpawn core_step.simps
    by (intro core_settles_quiet) (use assms CSpawn in \<open>simp_all add: core_source_defs spawn_def enqueue_def\<close>)
qed (use assms core_reactor_op_settles core_timer_op_settles poll_io_settles advance_timer_settles in simp_all)

interpretation cs: wake_source "core_step sys" core_states core_queued core_watches fair_core
  for sys :: "('v, 'w) sys"
  by unfold_locales
    (erule (1) core_step_settles [unfolded core_settles_def, THEN conjunct1],
     erule (1) core_step_settles [unfolded core_settles_def, THEN conjunct2])

section \<open>Suspending is a sequence of such steps\<close>

definition register_op :: "io_event \<Rightarrow> int \<Rightarrow> handle \<Rightarrow> nat \<Rightarrow> nat \<Rightarrow> reactor_op" where
  "register_op dir fd h q s =
     (if dir = IoRead then RegisterRead fd h (Some q) (Some s) Ready else RegisterWrite fd h (Some q) (Some s) Ready)"

lemma core_register_step:
  "snd (core_register sys dir fd h q s c) = core_step sys (CReactor (register_op dir fd h q s)) c"
  by (auto simp: core_register_def register_op_def core_reactor_op_def split: prod.split)

lemma fair_register_op: "fair_core h s (CReactor (register_op dir fd (Some h) q s))"
  by (simp add: register_op_def in_order_def)

lemma suspend_ready_steps:
  assumes "suspend_ready sys dir h aw c = (True, aw', c')"
  shows "c' = fold (core_step sys)
      [CReactor (register_op dir (ra_fd aw) (Some h) (ra_readiness aw) (ra_state aw)),
       CCallback (ra_token aw) (CancelIo (ra_fd aw) dir (ra_state aw) (Some h))] c"
    and "ra_state aw' = ra_state aw"
  using assms core_register_step [of sys dir "ra_fd aw" "Some h" "ra_readiness aw" "ra_state aw" c]
  by (auto simp: suspend_ready_def Let_def split: prod.splits sum.splits)

lemma timed_suspend_steps:
  assumes "timed_await_suspend sys h aw c = (True, aw', c')"
  shows "\<exists>cb. cb_in_order h (ta_state aw) cb \<and> c' = fold (core_step sys)
      [CTimer (Schedule (ta_timeout aw) (Some h) (Some (ta_state aw)) TimedOut),
       CReactor (register_op (dir_event (ta_direction aw)) (ta_fd aw) (Some h) (ta_readiness aw) (ta_state aw)),
       CCallback (ta_token aw) cb] c"
    and "ta_state aw' = ta_state aw" "ta_direction aw' = ta_direction aw"
proof -
  obtain tid t where s: "schedule (ta_timeout aw) (Some h) (Some (ta_state aw)) TimedOut (l_timer c) = (tid, t)"
    by fastforce
  let ?c = "c\<lparr>l_timer := t\<rparr>"
  have c: "core_step sys (CTimer (Schedule (ta_timeout aw) (Some h) (Some (ta_state aw)) TimedOut)) c = ?c"
    by (simp add: core_timer_op_def s)
  let ?aw = "aw\<lparr>ta_handle := Some h, ta_timer := tid\<rparr>"
  have r: "c' = install_cb sys (ta_token aw) (timed_cb ?aw)
        (snd (core_register sys (dir_event (ta_direction aw)) (ta_fd aw) (Some h) (ta_readiness aw) (ta_state aw) ?c))"
      "aw' = ?aw"
    using assms by (auto simp: timed_await_suspend_def s Let_def split: if_splits prod.splits sum.splits)
  show "ta_state aw' = ta_state aw" "ta_direction aw' = ta_direction aw" by (simp_all add: r(2))
  have "c' = fold (core_step sys)
      [CTimer (Schedule (ta_timeout aw) (Some h) (Some (ta_state aw)) TimedOut),
       CReactor (register_op (dir_event (ta_direction aw)) (ta_fd aw) (Some h) (ta_readiness aw) (ta_state aw)),
       CCallback (ta_token aw) (timed_cb ?aw)] c"
    unfolding fold_simps comp_apply id_apply c r(1) core_register_step by simp
  moreover have "cb_in_order h (ta_state aw) (timed_cb ?aw)" by (simp add: timed_cb_def)
  ultimately show "\<exists>cb. cb_in_order h (ta_state aw) cb \<and> c' = fold (core_step sys)
      [CTimer (Schedule (ta_timeout aw) (Some h) (Some (ta_state aw)) TimedOut),
       CReactor (register_op (dir_event (ta_direction aw)) (ta_fd aw) (Some h) (ta_readiness aw) (ta_state aw)),
       CCallback (ta_token aw) cb] c" by blast
qed

lemma sleep_suspend_steps:
  assumes "sleep_await_suspend sys h aw c = (aw', c')"
  shows "\<exists>cb. cb_in_order h (sl_state aw) cb \<and> c' = fold (core_step sys)
      [CTimer (Schedule (sl_delay aw) (Some h) (Some (sl_state aw)) Ready), CCallback (sl_token aw) cb] c"
    and "sl_state aw' = sl_state aw"
proof -
  obtain tid t where s: "schedule (sl_delay aw) (Some h) (Some (sl_state aw)) Ready (l_timer c) = (tid, t)"
    by fastforce
  have "core_step sys (CTimer (Schedule (sl_delay aw) (Some h) (Some (sl_state aw)) Ready)) c = c\<lparr>l_timer := t\<rparr>"
    by (simp add: core_timer_op_def s)
  then show "\<exists>cb. cb_in_order h (sl_state aw) cb \<and> c' = fold (core_step sys)
      [CTimer (Schedule (sl_delay aw) (Some h) (Some (sl_state aw)) Ready), CCallback (sl_token aw) cb] c"
    and "sl_state aw' = sl_state aw"
    using assms
    by (auto simp: sleep_await_suspend_def s simp del: core_step.simps(6)
        intro!: exI [of _ "CancelSleep (sl_state aw) (Some h) tid"])
qed

section \<open>A core\<close>

text \<open>A concrete core for the witnesses, over the scripted kernel, whose clock stands at 5 ms.\<close>

definition sim_sys :: "(unit, sim_kernel) sys" where
  "sim_sys = \<lparr>epoll_create1 = (\<lambda>w. (Inr 3, w)), eventfd = (\<lambda>w. (Inr 4, w)), epoll_ctl = sim_ctl,
     epoll_wait = sim_wait, close_fd = (\<lambda>fd w. (None, w)), write_eventfd = (\<lambda>fd w. (Inr 8, w)),
     read_eventfd = (\<lambda>fd w. w), clock_now = (\<lambda>w. (5000000, w)), sys_errno = (\<lambda>w. 0), resume = (\<lambda>h c. c)\<rparr>"

definition sim_core :: "(int \<times> u32) list \<Rightarrow> (unit, sim_kernel) core" where
  "sim_core script =
     \<lparr>l_reactor = \<lparr>epoll_fd = 3, fd_slots = [], io_ready = []\<rparr>, l_timer = new_wheel 0, l_signals = None,
      owned_tasks = [], ready_queue = [], stop_source = Some 0, graceful_source = Some 1, cross_core_fd = 4,
      cross_core_queue = [], cells = \<lparr>wstate = (\<lambda>_. Pending), results = (\<lambda>_. Ok 0)\<rparr>, frames = Map.empty,
      stops = \<lparr>requested = (\<lambda>_. False), callbacks = (\<lambda>_. []), next_state = 2\<rparr>, world = (Map.empty, script)\<rparr>"

lemma sim_core_watches: "core_watches h s (sim_core script)" "core_queued h (sim_core script) = 0"
    "wstate (cells (sim_core script)) s = Pending"
  by (simp_all add: sim_core_def core_source_defs table_in_order_def view_def slots_in_order_def new_wheel_def h_done_def)

section \<open>Properties\<close>

text \<open>
  C11. A wait with a deadline wakes its coroutine exactly once. A coroutine \<open>h\<close>, queued nowhere, suspends
  in a \<open>TimedReadyAwaiter\<close> with wait state \<open>s\<close>; then anything may happen on the core, in any order
  and any number of times: polls that report its descriptor, timers that expire, its task being
  cancelled, other coroutines using the same descriptor. At every moment the handle is in the
  queues once if the wait is settled and not at all while it is pending; the first event to settle it
  decides what the coroutine is told (timed out, cancelled, or the readiness result), and nothing that
  happens later changes that or queues the handle again.
\<close>

theorem timed_wait_wakes_once:
  fixes sys :: "('v, 'w) sys"
  assumes "core_watches h s c" "wstate (cells c) s = Pending" "core_queued h c = 0" "ta_state aw = s"
    and "timed_await_suspend sys h aw c = (True, aw', c1)"
    and "list_all (fair_core h s) evs" "list_all (fair_core h s) later"
  defines "c2 \<equiv> fold (core_step sys) evs c1"
  shows "core_queued h c2 = (if wstate (cells c2) s = Pending then 0 else 1) \<and>
    (wstate (cells c2) s \<noteq> Pending \<longrightarrow>
       wstate (cells (fold (core_step sys) later c2)) s = wstate (cells c2) s \<and>
       core_queued h (fold (core_step sys) later c2) = 1) \<and>
    (wstate (cells c2) s = TimedOut \<longrightarrow>
       (\<exists>msg. fst (timed_await_resume sys aw' c2) = Err (make_error ETIMEDOUT msg))) \<and>
    (wstate (cells c2) s = Cancelled \<longrightarrow>
       fst (timed_await_resume sys aw' c2) = Err (make_error ECANCELED ''io operation cancelled''))"
proof -
  obtain cb where cb: "cb_in_order h s cb" and c1: "c1 = fold (core_step sys)
      [CTimer (Schedule (ta_timeout aw) (Some h) (Some s) TimedOut),
       CReactor (register_op (dir_event (ta_direction aw)) (ta_fd aw) (Some h) (ta_readiness aw) s),
       CCallback (ta_token aw) cb] c"
    using timed_suspend_steps(1) [OF assms(5)] assms(4) by auto
  define es where "es = [CTimer (Schedule (ta_timeout aw) (Some h) (Some s) TimedOut),
       CReactor (register_op (dir_event (ta_direction aw)) (ta_fd aw) (Some h) (ta_readiness aw) s),
       CCallback (ta_token aw) cb] @ evs"
  have c2: "c2 = fold (core_step sys) es c" by (simp add: c2_def c1 es_def)
  have f: "list_all (fair_core h s) es"
    using cb assms(6) fair_register_op by (simp add: es_def in_order_def del: fair_core.simps(1))
  have q: "core_queued h c2 = (if wstate (cells c2) s = Pending then 0 else 1)"
    unfolding c2 using cs.woken_once [OF assms(1) f] assms(2,3) by (simp add: core_states_def)
  have w: "core_watches h s c2"
    unfolding c2 using cs.run_settles [OF assms(1) f] by blast
  have l: "wstate (cells (fold (core_step sys) later c2)) s = wstate (cells c2) s \<and>
      core_queued h (fold (core_step sys) later c2) = core_queued h c2" if "wstate (cells c2) s \<noteq> Pending"
    using cs.settled_for_good [OF w assms(7)] that by (simp add: core_states_def)
  have st: "ta_state aw' = s" using timed_suspend_steps(2) [OF assms(5)] assms(4) by simp
  show ?thesis
    using q l st by (auto simp: timed_await_resume_def Let_def reset_cb_def io_cancelled_error_def)
qed

definition sim_timed :: timed_awaiter where
  "sim_timed = \<lparr>ta_fd = 5, ta_direction = DirRead, ta_timeout = 2000000, ta_timer = 0, ta_handle = None,
     ta_state = 0, ta_readiness = 0, ta_token = Some 1\<rparr>"

text \<open>
  A coroutine waits for descriptor 5 for 2 ms. The poll reports it readable, then the timers advance
  past the deadline and the task is cancelled: it was woken once, as ready.
\<close>

theorem timed_wait_wakes_once_witness:
  "case timed_await_suspend sim_sys 9 sim_timed (sim_core [(5, EPOLLIN)]) of
     (b, aw, c) \<Rightarrow> b \<and> core_queued 9 (fold (core_step sim_sys) [CPoll] c) = 1 \<and>
       wstate (cells (fold (core_step sim_sys) [CTimers, CStop (Some 1)] (fold (core_step sim_sys) [CPoll] c))) 0 = Ready \<and>
       core_queued 9 (fold (core_step sim_sys) [CTimers, CStop (Some 1)] (fold (core_step sim_sys) [CPoll] c)) = 1"
proof -
  obtain b aw c where s: "timed_await_suspend sim_sys 9 sim_timed (sim_core [(5, EPOLLIN)]) = (b, aw, c)"
    using prod_cases3 by blast
  have "case timed_await_suspend sim_sys 9 sim_timed (sim_core [(5, EPOLLIN)]) of
     (b, aw, c) \<Rightarrow> b \<and> wstate (cells (fold (core_step sim_sys) [CPoll] c)) 0 = Ready"
    by code_simp
  with s have b: "b" "wstate (cells (fold (core_step sim_sys) [CPoll] c)) 0 = Ready" by simp_all
  have "ta_state sim_timed = 0" by (simp add: sim_timed_def)
  from timed_wait_wakes_once [OF sim_core_watches(1) sim_core_watches(3) sim_core_watches(2) this s [unfolded eqTrueI [OF b(1)]],
      where evs = "[CPoll]" and later = "[CTimers, CStop (Some 1)]"] b(2)
  show ?thesis unfolding s using b(1) by simp
qed

text \<open>
  C16. The same for a sleep and for a wait without a deadline: between suspension and resumption the
  handle of the coroutine is queued exactly if the wait is settled, then exactly once, and a sleep
  reports \<open>ECANCELED\<close> just when the cancellation came before its timer.
\<close>

theorem sleep_and_ready_wake_once:
  fixes sys :: "('v, 'w) sys"
  assumes "core_watches h s c" "wstate (cells c) s = Pending" "core_queued h c = 0" "list_all (fair_core h s) evs"
  shows "(sl_state sl = s \<and> sleep_await_suspend sys h sl c = (sl', c1) \<longrightarrow>
      core_queued h (fold (core_step sys) evs c1) =
        (if wstate (cells (fold (core_step sys) evs c1)) s = Pending then 0 else 1) \<and>
      (wstate (cells (fold (core_step sys) evs c1)) s = Cancelled \<longleftrightarrow>
         fst (sleep_await_resume sl' (fold (core_step sys) evs c1)) = Err (make_error ECANCELED ''sleep cancelled''))) \<and>
    (ra_state ra = s \<and>
     (read_ready_await_suspend sys h ra c = (True, ra', c2) \<or> write_ready_await_suspend sys h ra c = (True, ra', c2) \<or>
      connect_await_suspend sys h ra c = (True, ra', c2)) \<longrightarrow>
      core_queued h (fold (core_step sys) evs c2) =
        (if wstate (cells (fold (core_step sys) evs c2)) s = Pending then 0 else 1))"
proof -
  have once: "core_queued h (fold (core_step sys) (es @ evs) c) =
      (if wstate (cells (fold (core_step sys) (es @ evs) c)) s = Pending then 0 else 1)" if "list_all (fair_core h s) es" for es
    using cs.woken_once [OF assms(1), of "es @ evs" sys] that assms(2-4) by (simp add: core_states_def)
  have sleep: "core_queued h (fold (core_step sys) evs c1) =
        (if wstate (cells (fold (core_step sys) evs c1)) s = Pending then 0 else 1)"
    if a: "sl_state sl = s" and b: "sleep_await_suspend sys h sl c = (sl', c1)"
  proof -
    obtain cb where "cb_in_order h s cb" "c1 = fold (core_step sys)
      [CTimer (Schedule (sl_delay sl) (Some h) (Some s) Ready), CCallback (sl_token sl) cb] c"
      using sleep_suspend_steps(1) [OF b] a by auto
    then show ?thesis
      using once [of "[CTimer (Schedule (sl_delay sl) (Some h) (Some s) Ready), CCallback (sl_token sl) cb]"]
      by (simp add: in_order_def)
  qed
  have ready: "core_queued h (fold (core_step sys) evs c2) =
        (if wstate (cells (fold (core_step sys) evs c2)) s = Pending then 0 else 1)"
    if "ra_state ra = s" "suspend_ready sys dir h ra c = (True, ra', c2)" for dir
    using once [of "[CReactor (register_op dir (ra_fd ra) (Some h) (ra_readiness ra) s),
        CCallback (ra_token ra) (CancelIo (ra_fd ra) dir s (Some h))]"] suspend_ready_steps(1) [OF that(2)] that(1)
      fair_register_op [of h s dir "ra_fd ra" "ra_readiness ra"]
    by (simp del: fair_core.simps(1))
  have "fst (sleep_await_resume sl' x) = Err (make_error ECANCELED ''sleep cancelled'') \<longleftrightarrow> wstate (cells x) s = Cancelled"
    if "sl_state sl = s" "sleep_await_suspend sys h sl c = (sl', c1)" for x :: "('v, 'w) core"
    using sleep_suspend_steps(2) [OF that(2)] that(1) by (simp add: sleep_await_resume_def reset_cb_def Let_def)
  with sleep ready show ?thesis
    by (auto simp: read_ready_await_suspend_def write_ready_await_suspend_def connect_await_suspend_def)
qed

definition sim_sleep :: sleep_awaiter where
  "sim_sleep = \<lparr>sl_delay = 2000000, sl_id = 0, sl_handle = None, sl_state = 0, sl_token = Some 1\<rparr>"

text \<open>A sleep is cancelled, then its deadline passes.\<close>

theorem sleep_and_ready_wake_once_witness:
  "case sleep_await_suspend sim_sys 9 sim_sleep (sim_core []) of
     (sl, c) \<Rightarrow> core_queued 9 (fold (core_step sim_sys) [CStop (Some 1), CTimers] c) = 1 \<and>
       fst (sleep_await_resume sl (fold (core_step sim_sys) [CStop (Some 1), CTimers] c)) =
         Err (make_error ECANCELED ''sleep cancelled'')"
proof -
  obtain sl c where s: "sleep_await_suspend sim_sys 9 sim_sleep (sim_core []) = (sl, c)" by fastforce
  have "case sleep_await_suspend sim_sys 9 sim_sleep (sim_core []) of
     (sl, c) \<Rightarrow> wstate (cells (fold (core_step sim_sys) [CStop (Some 1), CTimers] c)) 0 = Cancelled"
    by code_simp
  with s have b: "wstate (cells (fold (core_step sim_sys) [CStop (Some 1), CTimers] c)) 0 = Cancelled" by simp
  have st: "sl_state sim_sleep = 0" by (simp add: sim_sleep_def)
  have f: "list_all (fair_core 9 0) [CStop (Some 1), CTimers]" by simp
  from sleep_and_ready_wake_once [OF sim_core_watches(1) [where script = "[]"] sim_core_watches(3) sim_core_watches(2) f,
      where sys = sim_sys and sl = sim_sleep and sl' = sl and ?c1.0 = c] st s b
  show ?thesis unfolding s by simp
qed

end
