(* ===== verification/Loop_Properties.thy ===== *)
theory Loop_Properties
  imports Awaiter_Properties "HOL-Library.Multiset"
begin

text \<open>
  The event loop as its thread and the others see it. \<open>loop_step\<close> is one phase of \<open>run\<close> on the loop's
  thread, or a \<open>submit\<close> or \<open>request_stop\<close> by another thread between two phases (they touch only
  the queue behind the mutex, the stop state and the wake-up descriptor). \<open>loop_run\<close> records what was
  submitted, which handles were resumed and which tasks were forgotten as completed.
\<close>

section \<open>Phases and interleavings\<close>

datatype pc = AtTop | AtCheck | AtPoll | AtTimers | AtDrain | Returned "unit result"

inductive loop_step :: "('v, 'w) sys \<Rightarrow> pc \<times> ('v, 'w) core \<Rightarrow> pc \<times> ('v, 'w) core \<Rightarrow> bool"
  for sys :: "('v, 'w) sys" where
  stopped: "stop_requested (stop_source c) (stops c) \<Longrightarrow> loop_step sys (AtTop, c) (Returned (Ok ()), c)"
| exit: "check_exit sys c = (True, c1) \<Longrightarrow> loop_step sys (AtCheck, c) (Returned (Ok ()), c1)"
| go_on: "check_exit sys c = (False, c1) \<Longrightarrow> loop_step sys (AtCheck, c) (AtPoll, c1)"
| poll_failed: "poll_io sys c = (Inl e, c1) \<Longrightarrow> loop_step sys (AtPoll, c) (Returned (Err e), c1)"
| polled: "poll_io sys c = (Inr u, c1) \<Longrightarrow> loop_step sys (AtPoll, c) (AtTimers, c1)"
| timers: "loop_step sys (AtTimers, c) (AtDrain, advance_timer sys c)"
| drained: "loop_step sys (AtDrain, c) (AtTop, drain_cross_core sys c)"
| asked_to_stop: "loop_step sys (p, c) (p, request_stop sys False c)"

definition completed :: "('v, 'w) core \<Rightarrow> handle list" where
  "completed c = filter (task_finished (frames c)) (owned_tasks c)"

inductive loop_run :: "('v, 'w) sys \<Rightarrow> ('v, 'w) core \<Rightarrow> handle list \<Rightarrow> handle list \<Rightarrow> handle list \<Rightarrow> pc \<times> ('v, 'w) core \<Rightarrow> bool"
  for sys :: "('v, 'w) sys" and c0 where
  initial: "loop_run sys c0 [] [] [] (AtTop, c0)"
| phase: "loop_run sys c0 subs started fin x \<Longrightarrow> loop_step sys x y \<Longrightarrow> loop_run sys c0 subs started fin y"
| next_round: "loop_run sys c0 subs started fin (AtTop, c) \<Longrightarrow> \<not> stop_requested (stop_source c) (stops c) \<Longrightarrow>
    loop_run sys c0 subs (started @ ready_queue c) (fin @ completed (resume_ready sys c)) (AtCheck, start_round sys c)"
| submitted: "loop_run sys c0 subs started fin (p, c) \<Longrightarrow> submit sys t c = (res, c1) \<Longrightarrow>
    loop_run sys c0 (subs @ [t]) started fin (p, c1)"

text \<open>
  A coroutine body uses the loop through \<open>spawn\<close>, \<open>notify\<close> and \<open>submit\<close>, which append to its
  queues; it has no other access to them.
\<close>

definition appends_only :: "('v, 'w) sys \<Rightarrow> bool" where
  "appends_only sys \<longleftrightarrow> (\<forall>x c. (\<exists>a. owned_tasks (resume sys x c) = owned_tasks c @ a) \<and>
     (\<exists>a. cross_core_queue (resume sys x c) = cross_core_queue c @ a) \<and>
     (\<exists>a. ready_queue (resume sys x c) = ready_queue c @ a))"

section \<open>Accounting for tasks\<close>

text \<open>What grows from one state to the next, as multisets of handles.\<close>

definition grows :: "('v, 'w) core \<Rightarrow> ('v, 'w) core \<Rightarrow> bool" where
  "grows c c' \<longleftrightarrow> mset (cross_core_queue c) + mset (owned_tasks c) \<subseteq># mset (cross_core_queue c') + mset (owned_tasks c') \<and>
     set (cross_core_queue c) \<union> set (ready_queue c) \<subseteq> set (cross_core_queue c') \<union> set (ready_queue c')"

lemma grows_refl: "grows c c"
  by (simp add: grows_def)

lemma grows_trans: "grows a b \<Longrightarrow> grows b c \<Longrightarrow> grows a c"
  unfolding grows_def by (meson subset_mset.order_trans subset_trans)

lemma growsI:
  assumes "\<exists>a. owned_tasks c' = owned_tasks c @ a" "\<exists>a. cross_core_queue c' = cross_core_queue c @ a"
    "\<exists>a. ready_queue c' = ready_queue c @ a"
  shows "grows c c'"
  using assms by (auto simp: grows_def intro: subset_mset.add_mono)

lemma resume_one_grows: "appends_only sys \<Longrightarrow> grows c (resume_one sys h c)"
  by (auto simp: resume_one_def grows_refl appends_only_def intro!: growsI split: option.split)

lemma resume_list_grows: "appends_only sys \<Longrightarrow> grows c (fold (resume_one sys) hs c)"
proof (induction hs arbitrary: c)
  case Nil
  then show ?case by (simp add: grows_refl)
next
  case (Cons h hs)
  then show ?case using grows_trans [OF resume_one_grows] by fastforce
qed

lemma drain_grows: "grows c (drain_cross_core sys c)"
  by (auto simp: grows_def drain_cross_core_def)

lemma check_exit_grows: "check_exit sys c = (b, c1) \<Longrightarrow> grows c c1"
  using drain_grows by (auto simp: check_exit_def Let_def grows_refl split: if_splits)

lemma poll_io_grows: "poll_io sys c = (res, c1) \<Longrightarrow> grows c c1"
  by (auto simp: poll_io_def Let_def intro!: growsI split: prod.splits sum.splits)

lemma advance_timer_grows: "grows c (advance_timer sys c)"
  by (auto simp: advance_timer_def Let_def intro!: growsI split: prod.splits)

lemma run_callback_grows: "grows c (run_callback sys b cb c)"
  by (cases cb) (auto simp: cancel_io_wait_def cancel_timed_wait_def cancel_sleep_def notify_current_def notify_def
      core_deregister_def core_cancel_timer_def set_wait_state_def Let_def grows_refl intro!: growsI
      split: prod.splits option.splits)

lemma run_callbacks_grow: "grows c (fold (run_callback sys b) cbs c)"
proof (induction cbs arbitrary: c)
  case Nil
  then show ?case by (simp add: grows_refl)
next
  case (Cons cb cbs)
  then show ?case using grows_trans [OF run_callback_grows] by fastforce
qed

lemma request_stop_grows: "grows c (request_stop sys b c)"
proof -
  obtain cbs st where s: "source_request_stop (stop_source c) (stops c) = (cbs, st)" by fastforce
  have "grows c (c\<lparr>stops := st\<rparr>)" by (simp add: grows_def)
  from grows_trans [OF this run_callbacks_grow] show ?thesis
    by (auto simp: request_stop_def wake_loop_def core_request_stop_def s grows_def)
qed

lemma loop_step_grows: "loop_step sys (p, c) (p', c') \<Longrightarrow> grows c c'"
  by (cases rule: loop_step.cases)
    (auto intro: grows_refl check_exit_grows poll_io_grows advance_timer_grows drain_grows request_stop_grows)

lemma mset_filter_split: "mset (filter (\<lambda>x. \<not> P x) xs) + mset (filter P xs) = mset xs"
  by (induction xs) auto

lemma start_round_mset:
  "mset (owned_tasks (start_round sys c)) + mset (completed (resume_ready sys c)) = mset (owned_tasks (resume_ready sys c))"
  "cross_core_queue (start_round sys c) = cross_core_queue (resume_ready sys c)"
  "ready_queue (start_round sys c) = ready_queue (resume_ready sys c)"
  by (simp_all add: start_round_def cleanup_completed_def completed_def mset_filter_split del: mset_filter)

definition accounted :: "('v, 'w) core \<Rightarrow> handle list \<Rightarrow> handle list \<Rightarrow> handle list \<Rightarrow> ('v, 'w) core \<Rightarrow> bool" where
  "accounted c0 subs started fin c \<longleftrightarrow>
     mset (cross_core_queue c0) + mset (owned_tasks c0) + mset subs
       \<subseteq># mset (cross_core_queue c) + mset (owned_tasks c) + mset fin \<and>
     set (cross_core_queue c0) \<union> set (ready_queue c0) \<union> set subs
       \<subseteq> set (cross_core_queue c) \<union> set (ready_queue c) \<union> set started"

lemma accounted_grows: "accounted c0 subs started fin c \<Longrightarrow> grows c c' \<Longrightarrow> accounted c0 subs started fin c'"
  unfolding accounted_def grows_def
  by (auto intro: subset_mset.order_trans subset_mset.add_right_mono)

lemma start_round_accounted:
  assumes "appends_only sys" "accounted c0 subs started fin c"
  shows "accounted c0 subs (started @ ready_queue c) (fin @ completed (resume_ready sys c)) (start_round sys c)"
proof -
  let ?r = "resume_ready sys c"
  have g: "grows (c\<lparr>ready_queue := []\<rparr>) ?r"
    unfolding resume_ready_def by (rule resume_list_grows [OF assms(1)])
  have "mset (cross_core_queue c) + mset (owned_tasks c) + mset fin
      \<subseteq># mset (cross_core_queue ?r) + mset (owned_tasks ?r) + mset fin"
    using g by (auto simp: grows_def intro: subset_mset.add_right_mono)
  also have "\<dots> = mset (cross_core_queue (start_round sys c)) + mset (owned_tasks (start_round sys c)) + mset (fin @ completed ?r)"
    by (simp add: start_round_mset(2) flip: start_round_mset(1))
  finally show ?thesis
    using assms(2) g unfolding accounted_def grows_def start_round_mset(2,3)
    by (auto intro: subset_mset.order_trans)
qed

lemma submit_accounted:
  assumes "accounted c0 subs started fin c" "submit sys t c = (res, c1)"
  shows "accounted c0 (subs @ [t]) started fin c1"
proof -
  have "cross_core_queue c1 = cross_core_queue c @ [t]" "owned_tasks c1 = owned_tasks c" "ready_queue c1 = ready_queue c"
    using assms(2) by (auto simp: submit_def Let_def split: prod.splits sum.splits if_splits)
  then show ?thesis using assms(1) by (auto simp: accounted_def ac_simps)
qed

lemma loop_run_accounted:
  assumes "appends_only sys"
  shows "loop_run sys c0 subs started fin x \<Longrightarrow> accounted c0 subs started fin (snd x)"
proof (induction rule: loop_run.induct)
  case initial
  then show ?case by (simp add: accounted_def)
next
  case (phase subs started fin x y)
  then show ?case using accounted_grows loop_step_grows by (metis prod.collapse)
qed (simp_all add: start_round_accounted [OF assms] submit_accounted)

section \<open>Properties\<close>

text \<open>
  C12. No task is lost. Whatever the coroutines spawn and other threads submit while the loop runs, and
  wherever the submissions fall between the loop's phases: every task that was spawned or submitted is
  still in the cross-core queue or among the owned tasks, or has been taken off as completed; every one
  has been resumed, or is in the cross-core queue or the ready queue; and \<open>run\<close> only returns of its
  own accord when every task accepted so far has completed.
\<close>

theorem no_task_lost:
  fixes sys :: "('v, 'w) sys"
  assumes "appends_only sys" "loop_run sys c0 subs started fin (p, c)"
  shows "mset (cross_core_queue c0) + mset (owned_tasks c0) + mset subs
           \<subseteq># mset (cross_core_queue c) + mset (owned_tasks c) + mset fin \<and>
         set (cross_core_queue c0) \<union> set (ready_queue c0) \<union> set subs
           \<subseteq> set (cross_core_queue c) \<union> set (ready_queue c) \<union> set started \<and>
         (\<forall>c1. check_exit sys c = (True, c1) \<longrightarrow>
            mset (cross_core_queue c0) + mset (owned_tasks c0) + mset subs \<subseteq># mset fin)"
proof -
  have "accounted c0 subs started fin c" using loop_run_accounted [OF assms] by simp
  moreover have "cross_core_queue c = [] \<and> owned_tasks c = []" if "check_exit sys c = (True, c1)" for c1
    using that by (auto simp: check_exit_def Let_def drain_cross_core_def split: if_splits)
  ultimately show ?thesis unfolding accounted_def by auto
qed

theorem no_task_lost_witness:
  "\<exists>c. loop_run sim_sys (sim_core []) [Some 1, Some 2] [] [] (AtCheck, c) \<and>
     mset [Some 1, Some 2] \<subseteq># mset (cross_core_queue c) + mset (owned_tasks c) \<and>
     \<not> fst (check_exit sim_sys c)"
proof -
  have a: "appends_only sim_sys" by (simp add: appends_only_def sim_sys_def)
  obtain r1 c1 where 1: "submit sim_sys (Some 1) (sim_core []) = (r1, c1)" by fastforce
  obtain r2 c2 where 2: "submit sim_sys (Some 2) c1 = (r2, c2)" by fastforce
  have c2: "c2 = (sim_core [])\<lparr>cross_core_queue := [Some 1, Some 2]\<rparr>"
    using 1 2 by (auto simp: submit_def sim_sys_def sim_core_def)
  have n: "ready_queue c2 = []" "completed (resume_ready sim_sys c2) = []"
      "\<not> stop_requested (stop_source c2) (stops c2)"
    by (simp_all add: c2 sim_core_def completed_def resume_ready_def stop_requested_def)
  have run: "loop_run sim_sys (sim_core []) [Some 1, Some 2] [] [] (AtCheck, start_round sim_sys c2)"
    using loop_run.next_round [OF loop_run.submitted [OF loop_run.submitted [OF loop_run.initial 1] 2] n(3)] n
    by simp
  from no_task_lost [OF a run] show ?thesis
    using run by (intro exI [of _ "start_round sim_sys c2"]) (auto simp: sim_core_def prod_eq_iff)
qed

section \<open>The poll timeout\<close>

text \<open>
  C17. The loop never sleeps too long. The timeout it passes to \<open>epoll_wait\<close> is between 0 and 10 ms,
  survives the conversion to 32-bit milliseconds, is 0 when the reported deadline has passed, and never
  makes the loop sleep past that deadline.
\<close>

theorem poll_timeout_bounds:
  "0 \<le> poll_timeout now t \<and> poll_timeout now t \<le> 10 * ns_per_ms \<and>
   poll_timeout_ms (poll_timeout now t) = poll_timeout now t div ns_per_ms \<and>
   0 \<le> poll_timeout_ms (poll_timeout now t) \<and> poll_timeout_ms (poll_timeout now t) \<le> 10 \<and>
   (case next_deadline t of
      None \<Rightarrow> poll_timeout now t = 10 * ns_per_ms
    | Some d \<Rightarrow> now + poll_timeout now t \<le> max now d \<and> (d \<le> now \<longleftrightarrow> poll_timeout now t = 0) \<and>
              now + poll_timeout_ms (poll_timeout now t) * ns_per_ms \<le> max now d)"
proof -
  have b: "0 \<le> poll_timeout now t" "poll_timeout now t \<le> 10 * ns_per_ms"
    by (auto simp: poll_timeout_def kDefaultPollTimeout_def kTickDuration_def ns_per_ms_def Let_def split: option.splits)
  let ?m = "poll_timeout now t div ns_per_ms"
  have m: "0 \<le> ?m" "?m \<le> 10" "?m * ns_per_ms \<le> poll_timeout now t"
    using b by (auto simp: ns_per_ms_def)
  then have "signed_take_bit 31 ?m = ?m"
    by (intro signed_take_bit_int_eq_self) auto
  then have ms: "poll_timeout_ms (poll_timeout now t) = ?m"
    using b(1) m(1) by (simp add: poll_timeout_ms_def duration_cast_ms_def Let_def)
  have d: "case next_deadline t of
      None \<Rightarrow> poll_timeout now t = 10 * ns_per_ms
    | Some d \<Rightarrow> now + poll_timeout now t \<le> max now d \<and> (d \<le> now \<longleftrightarrow> poll_timeout now t = 0)"
    by (auto simp: poll_timeout_def kDefaultPollTimeout_def kTickDuration_def ns_per_ms_def Let_def split: option.splits)
  show ?thesis using b m ms d by (auto split: option.splits)
qed

section \<open>Stopping from another thread\<close>

text \<open>
  C13. A graceful stop requested by a thread without a loop wakes nobody. When the request comes from the
  loop's own thread, a service coroutine \<open>h\<close> suspended in \<open>accept\<close> is cancelled and queued. From
  any other thread, the callback runs there: it sets the wait to \<open>Cancelled\<close> and removes the reader
  from the reactor, but finds no current loop to notify, and from then on nothing that happens on the
  core queues \<open>h\<close> again.
\<close>

theorem graceful_stop_elsewhere_strands:
  fixes sys :: "('v, 'w) sys"
  assumes "core_watches h s c" "wstate (cells c) s = Pending" "core_queued h c = 0"
    and "graceful_source c = Some i" "\<not> requested (stops c) i"
    and "callbacks (stops c) i = [CancelIo fd IoRead s (Some h)]" "list_all (fair_core h s) evs"
  shows "core_queued h (request_graceful_stop sys True c) = 1 \<and>
    (let c' = request_graceful_stop sys False c
     in wstate (cells c') s = Cancelled \<and> rd (view (l_reactor c') fd) = None \<and> core_queued h c' = 0 \<and>
        core_queued h (fold (core_step sys) evs c') = 0)"
proof -
  let ?st = "(stops c)\<lparr>requested := (requested (stops c))(i := True), callbacks := (callbacks (stops c))(i := [])\<rparr>"
  let ?d = "\<lambda>x. core_deregister sys fd IoRead (set_wait_state s Cancelled x)"
  let ?c = "c\<lparr>stops := ?st\<rparr>"
  have r: "core_request_stop sys b (Some i) c = notify_current b (Some h) (?d ?c)" for b
    using assms(2,5,6) by (simp add: core_request_stop_def source_request_stop_def cancel_io_wait_def)
  have wl: "core_queued x (wake_loop sys y) = core_queued x y" "cells (wake_loop sys y) = cells y"
      "l_reactor (wake_loop sys y) = l_reactor y" "core_watches x z (wake_loop sys y) = core_watches x z y"
    for x z and y :: "('v, 'w) core"
    by (simp_all add: wake_loop_def core_source_defs)
  have nq: "core_queued h (notify (Some h) x) = Suc (core_queued h x)" for x :: "('v, 'w) core"
    by (simp add: notify_def core_queued_def)
  have w: "core_watches h s (?d ?c)"
    using assms(1) by (intro core_deregister_quiet(1)) (auto simp: set_wait_state_def core_watches_def)
  have q: "core_queued h (?d ?c) = 0"
    unfolding core_deregister_quiet using assms(3) by (simp add: core_queued_def set_wait_state_def)
  have s: "wstate (cells (?d ?c)) s = Cancelled"
    by (simp add: core_deregister_def set_wait_state_def split: prod.split)
  have v: "rd (view (l_reactor (?d ?c)) fd) = None"
    using deregister_dir_spec(1) [of "epoll_ctl sys" fd IoRead "l_reactor c" "world c"]
    by (auto simp: core_deregister_def set_wait_state_def has_flag_bits bit_io_flags split: prod.split)
  let ?f = "request_graceful_stop sys False c"
  have f: "core_watches h s ?f" "core_queued h ?f = 0" "wstate (cells ?f) s = Cancelled" "rd (view (l_reactor ?f) fd) = None"
    using w q s v by (simp_all add: request_graceful_stop_def assms(4) r wl notify_current_def)
  have "core_queued h (fold (core_step sys) evs ?f) = 0"
    using cs.settled_for_good [OF f(1) assms(7), of sys] f(2,3) by (simp add: core_states_def)
  moreover have "core_queued h (request_graceful_stop sys True c) = 1"
    using q nq by (simp add: request_graceful_stop_def assms(4) r wl notify_current_def)
  ultimately show ?thesis using f by (simp add: Let_def)
qed

definition accepting_core :: "(unit, sim_kernel) core" where
  "accepting_core =
     (sim_core [])\<lparr>stops := \<lparr>requested = (\<lambda>_. False), callbacks = (\<lambda>i. if i = 1 then [CancelIo 6 IoRead 0 (Some 9)] else []),
                            next_state = 2\<rparr>\<rparr>"

theorem graceful_stop_elsewhere_strands_witness:
  "core_queued 9 (request_graceful_stop sim_sys True accepting_core) = 1 \<and>
   wstate (cells (request_graceful_stop sim_sys False accepting_core)) 0 = Cancelled \<and>
   core_queued 9 (fold (core_step sim_sys) [CPoll, CTimers, CDrain] (request_graceful_stop sim_sys False accepting_core)) = 0"
proof -
  have w: "core_watches 9 0 accepting_core" "wstate (cells accepting_core) 0 = Pending" "core_queued 9 accepting_core = 0"
    using sim_core_watches(1) [of 9 0 "[]"] sim_core_watches(2) [of 9 "[]"] sim_core_watches(3) [of "[]" 0]
    by (simp_all add: accepting_core_def core_source_defs)
  have g: "graceful_source accepting_core = Some 1" "\<not> requested (stops accepting_core) 1"
      "callbacks (stops accepting_core) 1 = [CancelIo 6 IoRead 0 (Some 9)]"
      "list_all (fair_core 9 0) [CPoll, CTimers, CDrain]"
    by (simp_all add: accepting_core_def sim_core_def)
  from graceful_stop_elsewhere_strands [OF w g, of sim_sys] show ?thesis by (simp add: Let_def)
qed

end
