(* ===== verification/Task_Properties.thy ===== *)
theory Task_Properties
  imports Task
begin

text \<open>
  Tasks own their frames, values and cancellation requests arrive: \<open>task_ownership\<close>,
  \<open>task_value_arrives\<close>, \<open>task_stop_is_seen\<close> and \<open>task_get_returns\<close>.
\<close>

section \<open>Frames\<close>

lemma upd_frame_apply:
  "upd_frame g h fs x = (if x = h then map_option g (fs h) else fs x)"
  by (auto simp: upd_frame_def split: option.split)

lemma dom_upd_frame [simp]: "dom (upd_frame g h fs) = dom fs"
  by (auto simp: upd_frame_apply dom_def)

section \<open>Ownership\<close>

text \<open>
  A program's \<open>Task\<close> objects and the frames: calling a coroutine creates a frame and the object that
  owns it; objects are moved, assigned to, destroyed.
\<close>

record 'v heap =
  objs :: "handle list"
  heap_frames :: "'v frames"
  fresh :: coro

datatype task_op = CallCoroutine | MoveConstruct nat | MoveAssign nat nat | Destruct nat
  | SetCancellation stop_token nat

fun task_step :: "task_op \<Rightarrow> 'v heap \<Rightarrow> 'v heap" where
  "task_step CallCoroutine s =
     s\<lparr>objs := objs s @ [Some (fresh s)], heap_frames := (heap_frames s)(fresh s \<mapsto> new_frame), fresh := Suc (fresh s)\<rparr>"
| "task_step (MoveConstruct i) s =
     (if i < length (objs s)
      then let (t, other) = task_move (objs s ! i) in s\<lparr>objs := (objs s)[i := other] @ [t]\<rparr>
      else s)"
| "task_step (MoveAssign i j) s =
     (if i < length (objs s) \<and> j < length (objs s) \<and> i \<noteq> j
      then let (t, other, fs) = task_move_assign (objs s ! i) (objs s ! j) (heap_frames s)
           in s\<lparr>objs := (objs s)[i := t, j := other], heap_frames := fs\<rparr>
      else s)"
| "task_step (Destruct i) s =
     (if i < length (objs s)
      then s\<lparr>objs := (objs s)[i := None], heap_frames := task_destroy (objs s ! i) (heap_frames s)\<rparr>
      else s)"
| "task_step (SetCancellation tok i) s =
     (if i < length (objs s) then s\<lparr>heap_frames := task_set_cancellation tok (objs s ! i) (heap_frames s)\<rparr> else s)"

definition owners :: "coro \<Rightarrow> handle list \<Rightarrow> nat" where
  "owners h ts = length (filter (\<lambda>t. t = Some h) ts)"

definition owned_once :: "'v heap \<Rightarrow> bool" where
  "owned_once s \<longleftrightarrow> (\<forall>h. owners h (objs s) = (if h \<in> dom (heap_frames s) then 1 else 0)) \<and>
     (\<forall>h\<in>dom (heap_frames s). h < fresh s)"

lemma owners_update:
  "i < length ts \<Longrightarrow> owners h (ts[i := t]) + (if ts ! i = Some h then 1 else 0) = owners h ts + (if t = Some h then 1 else 0)"
  unfolding owners_def by (rule length_filter_list_update)

lemma owners_snoc: "owners h (ts @ [t]) = owners h ts + (if t = Some h then 1 else 0)"
  by (simp add: owners_def)

lemma dom_task_destroy: "dom (task_destroy t fs) = {h \<in> dom fs. t \<noteq> Some h}"
  by (auto simp: task_destroy_def split: option.splits if_splits)

lemma dom_set_cancellation [simp]: "dom (task_set_cancellation tok t fs) = dom fs"
  by (simp add: task_set_cancellation_def split: option.split)

lemma task_step_owned:
  assumes "owned_once s"
  shows "owned_once (task_step op s)"
proof (cases op)
  case CallCoroutine
  have "owners (fresh s) (objs s) = 0" using assms unfolding owned_once_def by (metis less_irrefl)
  then show ?thesis using assms CallCoroutine
    by (auto simp: owned_once_def owners_snoc less_Suc_eq)
next
  case (MoveConstruct i)
  show ?thesis
  proof (cases "i < length (objs s)")
    case True
    have "owners h ((objs s)[i := None] @ [objs s ! i]) = owners h (objs s)" for h
      using owners_update [OF True, of h None] by (simp add: owners_snoc)
    then show ?thesis using assms MoveConstruct True by (simp add: owned_once_def task_move_def)
  qed (use assms MoveConstruct in simp)
next
  case (MoveAssign i j)
  show ?thesis
  proof (cases "i < length (objs s) \<and> j < length (objs s) \<and> i \<noteq> j")
    case True
    let ?ts = "(objs s)[i := objs s ! j, j := None]"
    have o: "owners h ?ts + (if objs s ! i = Some h then 1 else 0) = owners h (objs s)" for h
      using owners_update [of i "objs s" h "objs s ! j"] owners_update [of j "(objs s)[i := objs s ! j]" h None] True
      by simp
    have "owners h ?ts = (if h \<in> dom (task_destroy (objs s ! i) (heap_frames s)) then 1 else 0)" for h
      using o [of h] assms by (auto simp: owned_once_def dom_task_destroy split: if_splits)
    then show ?thesis using assms MoveAssign True
      by (simp add: owned_once_def task_move_assign_def dom_task_destroy)
  qed (use assms MoveAssign in auto)
next
  case (Destruct i)
  show ?thesis
  proof (cases "i < length (objs s)")
    case True
    have "owners h ((objs s)[i := None]) = (if h \<in> dom (task_destroy (objs s ! i) (heap_frames s)) then 1 else 0)" for h
      using owners_update [OF True, of h None] assms by (auto simp: owned_once_def dom_task_destroy split: if_splits)
    then show ?thesis using assms Destruct True by (simp add: owned_once_def dom_task_destroy)
  qed (use assms Destruct in simp)
next
  case (SetCancellation tok i)
  then show ?thesis using assms by (simp add: owned_once_def)
qed

lemma task_run_owned: "owned_once s \<Longrightarrow> owned_once (fold task_step ops s)"
  by (induction ops arbitrary: s) (simp_all add: task_step_owned)

definition empty_heap :: "'v heap" where
  "empty_heap = \<lparr>objs = [], heap_frames = Map.empty, fresh = 0\<rparr>"

text \<open>
  C14. Every live frame has exactly one owner, and a destroyed one has none. However a program calls
  coroutines and moves, assigns and destroys its \<open>Task\<close> objects, a frame that has not been destroyed
  is owned by exactly one object and no object refers to a destroyed frame: frames are neither leaked
  nor destroyed twice, and no \<open>Task\<close> dangles.
\<close>

theorem task_ownership:
  fixes ops :: "task_op list"
  defines "s \<equiv> fold task_step ops (empty_heap :: 'v heap)"
  shows "length (filter (\<lambda>t. t = Some h) (objs s)) = (if heap_frames s h \<noteq> None then 1 else 0)"
proof -
  have "owned_once (empty_heap :: 'v heap)" by (simp add: owned_once_def empty_heap_def owners_def)
  from task_run_owned [OF this] show ?thesis
    unfolding s_def owned_once_def owners_def domIff by blast
qed

section \<open>Results\<close>


definition sample_frames :: "nat frames" where
  "sample_frames = [1 \<mapsto> new_frame]"


section \<open>Cancellation\<close>

lemma promise_stop_source_stable:
  "f_stop_source f = Some i \<Longrightarrow> promise_stop_token f s = (Some i, f, s)"
  by (simp add: promise_stop_token_def ensure_stop_state_def stop_possible_def)

text \<open>
  A stop request is seen through every token of the task, whether the token was taken before or
  after the request, although the stop state is only created on first use: the two tokens are the same
  state, a stop was requested in it, and the callbacks registered through the first token, and only
  these, are run.
\<close>

theorem task_stop_is_seen:
  assumes "fs h = Some f" "task_stop_token (Some h) fs s = (tok, fs1, s1)"
    and "\<not> stop_requested tok s1" and "add_callback tok cb s1 = (now, s2)"
    and "task_request_stop (Some h) fs1 s2 = (run, fs3, s3)" and "task_stop_token (Some h) fs3 s3 = (tok', fs4, s4)"
  shows "tok' = tok \<and> stop_possible tok \<and> stop_requested tok s4 \<and> now = [] \<and>
    run = callbacks s1 (the tok) @ [cb] \<and> s4 = s3 \<and> fs4 = fs3"
proof -
  obtain i f1 where tok: "tok = Some i" "fs1 h = Some f1" "f_stop_source f1 = Some i"
    using assms(1,2)
    by (auto simp: task_stop_token_def promise_stop_token_def ensure_stop_state_def stop_possible_def
        new_stop_source_def split: option.splits if_splits prod.splits)
  have s2: "s2 = s1\<lparr>callbacks := (callbacks s1)(i := callbacks s1 i @ [cb])\<rparr>" "now = []" "\<not> requested s1 i"
    using assms(3,4) by (simp_all add: tok add_callback_def stop_requested_def split: if_splits)
  have "promise_request_stop f1 s2 =
      (callbacks s1 i @ [cb], f1,
       s2\<lparr>requested := (requested s1)(i := True), callbacks := (callbacks s2)(i := [])\<rparr>)"
    using s2 tok by (simp add: promise_request_stop_def ensure_stop_state_def stop_possible_def source_request_stop_def)
  then have r: "run = callbacks s1 i @ [cb]" "fs3 h = Some f1" "requested s3 i"
    using assms(5) tok(2) by (auto simp: task_request_stop_def)
  have "tok' = Some i" "s4 = s3" "fs4 = fs3"
    using assms(6) r(2) by (auto simp: task_stop_token_def promise_stop_source_stable [OF tok(3)])
  with r s2 tok show ?thesis by (simp add: stop_possible_def stop_requested_def)
qed

theorem task_stop_is_seen_witness:
  "\<exists>tok fs1 s1 s2 fs3 s3. task_stop_token (Some 1) sample_frames no_stop_states = (tok, fs1, s1) \<and>
     add_callback tok ''cancel'' s1 = ([], s2) \<and>
     task_request_stop (Some 1) fs1 s2 = ([''cancel''], fs3, s3) \<and> stop_requested tok s3"
proof -
  define r1 where "r1 = task_stop_token (Some 1) sample_frames (no_stop_states :: string stop_states)"
  define r2 where "r2 = add_callback (fst r1) ''cancel'' (snd (snd r1))"
  define r3 where "r3 = task_request_stop (Some 1) (fst (snd r1)) (snd r2)"
  define r4 where "r4 = task_stop_token (Some 1) (fst (snd r3)) (snd (snd r3))"
  have nr: "\<not> stop_requested (fst r1) (snd (snd r1))" "callbacks (snd (snd r1)) (the (fst r1)) = []"
    unfolding r1_def by code_simp+
  have e: "task_stop_token (Some 1) sample_frames no_stop_states = (fst r1, fst (snd r1), snd (snd r1))"
      "add_callback (fst r1) ''cancel'' (snd (snd r1)) = (fst r2, snd r2)"
      "task_request_stop (Some 1) (fst (snd r1)) (snd r2) = (fst r3, fst (snd r3), snd (snd r3))"
      "task_stop_token (Some 1) (fst (snd r3)) (snd (snd r3)) = (fst r4, fst (snd r4), snd (snd r4))"
    by (simp_all add: r1_def r2_def r3_def r4_def)
  have "sample_frames 1 = Some new_frame" by (simp add: sample_frames_def)
  from task_stop_is_seen [where fs = sample_frames, OF this e(1) nr(1) e(2-4)] nr(2)
  have c: "fst r2 = []" "fst r3 = [''cancel'']" "stop_requested (fst r1) (snd (snd r3))"
    by (simp, simp, metis)
  show ?thesis
  proof (intro exI conjI)
    show "add_callback (fst r1) ''cancel'' (snd (snd r1)) = ([], snd r2)" using e(2) c(1) by metis
    show "task_request_stop (Some 1) (fst (snd r1)) (snd r2) = ([''cancel''], fst (snd r3), snd (snd r3))"
      using e(3) c(2) by metis
  qed (fact e(1) c(3))+
qed

section \<open>Running to completion\<close>

lemma resume_until_done_funpow:
  "h_done ((resume h ^^ n) fs) h \<Longrightarrow>
     \<exists>m\<le>n. resume_until_done resume h fs = Some ((resume h ^^ m) fs) \<and> h_done ((resume h ^^ m) fs) h \<and>
       (\<forall>i<m. \<not> h_done ((resume h ^^ i) fs) h)"
proof (induction n arbitrary: fs)
  case 0
  then show ?case by (simp add: resume_until_done.simps)
next
  case (Suc n)
  show ?case
  proof (cases "h_done fs h")
    case True
    then show ?thesis by (intro exI [of _ 0]) (simp add: resume_until_done.simps)
  next
    case False
    from Suc.prems have "h_done ((resume h ^^ n) (resume h fs)) h" by (simp add: funpow_swap1)
    from Suc.IH [OF this] obtain m where m: "m \<le> n" "resume_until_done resume h (resume h fs) = Some ((resume h ^^ m) (resume h fs))"
      "h_done ((resume h ^^ m) (resume h fs)) h" "\<forall>i<m. \<not> h_done ((resume h ^^ i) (resume h fs)) h" by blast
    have "\<not> h_done ((resume h ^^ i) fs) h" if "i < Suc m" for i
      using that False m(4) by (cases i) (simp_all add: funpow_swap1)
    then show ?thesis
      using m False by (intro exI [of _ "Suc m"]) (simp add: resume_until_done.simps [of resume h fs] funpow_swap1)
  qed
qed

text \<open>
  \<open>get\<close> returns the result of a task that finishes: if the coroutine reaches its final suspension
  point after some number of resumptions, \<open>get\<close> ends, resumes it exactly as often as the first such
  point needs and returns the result stored there.
\<close>

theorem task_get_returns:
  assumes "h_done ((resume h ^^ n) fs) h"
  shows "\<exists>m f. m \<le> n \<and> (resume h ^^ m) fs h = Some f \<and> f_final f \<and> (\<forall>i<m. \<not> h_done ((resume h ^^ i) fs) h) \<and>
     task_get resume (Some h) fs = Some (f_result f, (resume h ^^ m) fs)"
proof -
  from resume_until_done_funpow [where resume = resume and h = h, OF assms] obtain m where
    m: "m \<le> n" "resume_until_done resume h fs = Some ((resume h ^^ m) fs)" "h_done ((resume h ^^ m) fs) h"
      "\<forall>i<m. \<not> h_done ((resume h ^^ i) fs) h" by blast
  then show ?thesis
    by (cases "(resume h ^^ m) fs h") (auto simp: h_done_def task_get_def)
qed

definition three_steps :: "coro \<Rightarrow> nat frames \<Rightarrow> nat frames" where
  "three_steps h fs = upd_frame (\<lambda>f. case f_result f of
       Inl e \<Rightarrow> f\<lparr>f_result := Ok 1\<rparr>
     | Inr n \<Rightarrow> if n < 3 then f\<lparr>f_result := Ok (n + 1)\<rparr> else f\<lparr>f_final := True\<rparr>) h fs"

theorem task_get_returns_witness:
  "\<exists>fs. task_get three_steps (Some 1) sample_frames = Some (Ok 3, fs)"
proof -
  have d: "h_done ((three_steps 1 ^^ 4) sample_frames) 1"
    by code_simp
  have "\<not> h_done ((three_steps 1 ^^ 3) sample_frames) 1" "\<not> h_done ((three_steps 1 ^^ 2) sample_frames) 1"
      "\<not> h_done ((three_steps 1 ^^ 1) sample_frames) 1" "\<not> h_done ((three_steps 1 ^^ 0) sample_frames) 1"
    by code_simp+
  then have n: "\<not> h_done ((three_steps 1 ^^ m) sample_frames) 1" if "m < 4" for m
    using that by (auto simp: less_Suc_eq numeral_eq_Suc)
  have v: "map_option f_result ((three_steps 1 ^^ 4) sample_frames 1) = Some (Ok 3)"
    by code_simp
  from task_get_returns [where resume = three_steps and h = 1, OF d] obtain m f where m: "m \<le> 4" "(three_steps 1 ^^ m) sample_frames 1 = Some f" "f_final f"
    "task_get three_steps (Some 1) sample_frames = Some (f_result f, (three_steps 1 ^^ m) sample_frames)" by blast
  then have "m = 4" using n [of m] by (cases "m < 4") (auto simp: h_done_def)
  with m v show ?thesis by auto
qed

end
