(* ===== verification/Channel.thy ===== *)
theory Channel
  imports Core
begin

text \<open>
  The channel of \<^verbatim>\<open>src/sync/channel.hpp\<close>. Every member function holds \<open>mutex_\<close> for its
  whole body, except while it waits on a condition variable, so one function here is one critical
  section: what a call does from the moment it holds the lock until it returns or starts to wait.
  A blocking call whose wait predicate is false answers \<open>None\<close>; it is run again when it wakes. The
  notifications a call sends while it holds the lock are part of its result.
\<close>

section \<open>State and critical sections\<close>

record 'a chan =
  queue :: "'a list"
  capacity :: nat
  closed :: bool

datatype cond_var = NotEmpty | NotFull

datatype notification = NotifyOne cond_var | NotifyAll cond_var

definition make_channel :: "nat \<Rightarrow> 'a chan" where
  "make_channel cap = \<lparr>queue = [], capacity = cap, closed = False\<rparr>"

definition closed_error :: system_error where
  "closed_error = make_error EPIPE ''send on closed channel''"

definition full_error :: system_error where
  "full_error = make_error EAGAIN ''send on full channel''"

definition send :: "'a \<Rightarrow> 'a chan \<Rightarrow> (unit result \<times> 'a chan \<times> notification list) option" where
  "send value c =
     (if capacity c > 0 \<and> \<not> (length (queue c) < capacity c \<or> closed c) then None
      else if closed c then Some (Err closed_error, c, [])
      else Some (Ok (), c\<lparr>queue := queue c @ [value]\<rparr>, [NotifyOne NotEmpty]))"

definition try_send :: "'a \<Rightarrow> 'a chan \<Rightarrow> unit result \<times> 'a chan \<times> notification list" where
  "try_send value c =
     (if closed c then (Err closed_error, c, [])
      else if capacity c > 0 \<and> length (queue c) \<ge> capacity c then (Err full_error, c, [])
      else (Ok (), c\<lparr>queue := queue c @ [value]\<rparr>, [NotifyOne NotEmpty]))"

text \<open>The tail that \<open>recv\<close>, \<open>try_recv\<close> and \<open>recv_timeout\<close> share.\<close>

definition pop_front :: "'a chan \<Rightarrow> 'a option \<times> 'a chan \<times> notification list" where
  "pop_front c =
     (case queue c of
        [] \<Rightarrow> (None, c, [])
      | v # vs \<Rightarrow> (Some v, c\<lparr>queue := vs\<rparr>, [NotifyOne NotFull]))"

definition recv :: "'a chan \<Rightarrow> ('a option \<times> 'a chan \<times> notification list) option" where
  "recv c = (if \<not> (queue c \<noteq> [] \<or> closed c) then None else Some (pop_front c))"

definition try_recv :: "'a chan \<Rightarrow> 'a option \<times> 'a chan \<times> notification list" where
  "try_recv c = pop_front c"

text \<open>\<open>expired\<close> says whether the time-out of \<open>wait_for\<close> has passed.\<close>

definition recv_timeout ::
  "bool \<Rightarrow> 'a chan \<Rightarrow> ('a option \<times> 'a chan \<times> notification list) option" where
  "recv_timeout expired c =
     (if \<not> (queue c \<noteq> [] \<or> closed c) then (if expired then Some (None, c, []) else None)
      else Some (pop_front c))"

definition close_chan :: "'a chan \<Rightarrow> 'a chan \<times> notification list" where
  "close_chan c = (c\<lparr>closed := True\<rparr>, [NotifyAll NotEmpty, NotifyAll NotFull])"

definition is_closed :: "'a chan \<Rightarrow> bool" where
  "is_closed c = closed c"

definition size_chan :: "'a chan \<Rightarrow> nat" where
  "size_chan c = length (queue c)"

section \<open>The sequential contract\<close>

definition chan_inv :: "'a chan \<Rightarrow> bool" where
  "chan_inv c \<longleftrightarrow> (capacity c > 0 \<longrightarrow> length (queue c) \<le> capacity c)"

lemma make_channel_inv [simp]: "chan_inv (make_channel cap)"
  by (simp add: chan_inv_def make_channel_def)

lemma send_eq [chan_simps]:
  "send v c =
     (if capacity c > 0 \<and> capacity c \<le> length (queue c) \<and> \<not> closed c then None
      else Some (try_send v c))"
  by (auto simp: send_def try_send_def)

lemma recv_eq [chan_simps]:
  "recv c = (if queue c = [] \<and> \<not> closed c then None else Some (try_recv c))"
  by (simp add: recv_def try_recv_def)

lemma recv_timeout_eq [chan_simps]:
  "recv_timeout expired c =
     (if queue c = [] \<and> \<not> closed c \<and> expired then Some (None, c, []) else recv c)"
  by (simp add: recv_timeout_def recv_def)

lemma try_send_cases:
  assumes "try_send v c = (r, c', ns)"
  obtains (accepted) "r = Ok ()" "\<not> closed c" "c' = c\<lparr>queue := queue c @ [v]\<rparr>" "ns = [NotifyOne NotEmpty]"
      "capacity c > 0 \<longrightarrow> length (queue c) < capacity c"
    | (refused) e where "r = Err e" "c' = c" "ns = []"
  using assms by (auto simp: try_send_def split: if_splits)

lemma try_recv_cases:
  assumes "try_recv c = (r, c', ns)"
  obtains (empty) "queue c = []" "r = None" "c' = c" "ns = []"
    | (got) v vs where "queue c = v # vs" "r = Some v" "c' = c\<lparr>queue := vs\<rparr>" "ns = [NotifyOne NotFull]"
  using assms by (auto simp: try_recv_def pop_front_def split: list.splits)

lemma try_send_inv: "try_send v c = (r, c', ns) \<Longrightarrow> chan_inv c \<Longrightarrow> chan_inv c'"
  by (erule try_send_cases) (auto simp: chan_inv_def)

lemma try_recv_inv: "try_recv c = (r, c', ns) \<Longrightarrow> chan_inv c \<Longrightarrow> chan_inv c'"
  by (erule try_recv_cases) (auto simp: chan_inv_def)

text \<open>
  What a client of a closable queue relies on. A session is a list of puts (\<open>Inl\<close>) and gets
  (\<open>Inr\<close>), run on a queue; it yields the values that were accepted and those that were handed out.
\<close>

fun session ::
  "('a \<Rightarrow> 'c \<Rightarrow> bool \<times> 'c) \<Rightarrow> ('c \<Rightarrow> 'a option \<times> 'c) \<Rightarrow> ('a + unit) list \<Rightarrow> 'c
     \<Rightarrow> 'a list \<times> 'a list \<times> 'c" where
  "session put get [] c = ([], [], c)"
| "session put get (Inl v # ops) c =
     (let (ok, c1) = put v c; (acc, out, c2) = session put get ops c1
      in ((if ok then v # acc else acc), out, c2))"
| "session put get (Inr u # ops) c =
     (let (r, c1) = get c; (acc, out, c2) = session put get ops c1
      in (acc, (case r of None \<Rightarrow> out | Some v \<Rightarrow> v # out), c2))"

locale closable_queue =
  fixes contents :: "'c \<Rightarrow> 'a list"
    and shut :: "'c \<Rightarrow> bool"
    and put :: "'a \<Rightarrow> 'c \<Rightarrow> bool \<times> 'c"
    and get :: "'c \<Rightarrow> 'a option \<times> 'c"
  assumes put_contents: "contents (snd (put v c)) = (if fst (put v c) then contents c @ [v] else contents c)"
    and put_shut: "shut (snd (put v c)) = shut c"
    and put_refused: "shut c \<Longrightarrow> \<not> fst (put v c)"
    and get_contents: "get c = (r, c') \<Longrightarrow> contents c = (case r of None \<Rightarrow> [] | Some v \<Rightarrow> v # contents c')
      \<and> (r = None \<longrightarrow> c' = c)"
    and get_shut: "shut (snd (get c)) = shut c"
begin

text \<open>Nothing is lost, duplicated or reordered.\<close>

lemma session_fifo:
  "session put get ops c = (acc, out, c') \<Longrightarrow> contents c @ acc = out @ contents c'"
proof (induction ops arbitrary: c acc out)
  case (Cons op ops)
  show ?case
  proof (cases op)
    case (Inl v)
    obtain ok c1 where p: "put v c = (ok, c1)" by (cases "put v c")
    obtain acc1 out1 where s: "session put get ops c1 = (acc1, out1, c')"
      using Cons.prems Inl p by (auto split: prod.splits)
    show ?thesis
      using Cons.IH [OF s] Cons.prems put_contents [of v c] by (auto simp: Inl p s)
  next
    case (Inr u)
    obtain r c1 where g: "get c = (r, c1)" by (cases "get c")
    obtain acc1 out1 where s: "session put get ops c1 = (acc1, out1, c')"
      using Cons.prems Inr g by (auto split: prod.splits)
    have "acc = acc1" "out = (case r of None \<Rightarrow> out1 | Some v \<Rightarrow> v # out1)"
      using Cons.prems by (simp_all add: Inr g s)
    then show ?thesis
      using Cons.IH [OF s] get_contents [OF g] by (cases r) auto
  qed
qed simp

text \<open>After the shutdown nothing more is accepted.\<close>

lemma session_shut:
  "session put get ops c = (acc, out, c') \<Longrightarrow> shut c \<Longrightarrow> acc = [] \<and> shut c'"
proof (induction ops arbitrary: c acc out)
  case (Cons op ops)
  show ?case
  proof (cases op)
    case (Inl v)
    obtain c1 where p: "put v c = (False, c1)"
      using put_refused [OF Cons.prems(2), of v] by (cases "put v c") simp
    obtain out1 where s: "session put get ops c1 = (acc, out1, c')"
      using Cons.prems(1) by (auto simp: Inl p split: prod.splits)
    show ?thesis
      using Cons.IH [OF s] put_shut [of v c] Cons.prems(2) by (simp add: p)
  next
    case (Inr u)
    obtain r c1 where g: "get c = (r, c1)" by (cases "get c")
    obtain out1 where s: "session put get ops c1 = (acc, out1, c')"
      using Cons.prems(1) by (auto simp: Inr g split: prod.splits)
    show ?thesis
      using Cons.IH [OF s] get_shut [of c] Cons.prems(2) by (simp add: g)
  qed
qed simp

text \<open>Enough gets hand out everything that was in the queue.\<close>

lemma session_drain:
  "length (contents c) \<le> n \<Longrightarrow> session put get (replicate n (Inr ())) c = (acc, out, c') \<Longrightarrow>
     out = contents c \<and> contents c' = []"
proof (induction n arbitrary: c acc out)
  case (Suc n)
  obtain r c1 where g: "get c = (r, c1)" by (cases "get c")
  obtain acc1 out1 where s: "session put get (replicate n (Inr ())) c1 = (acc1, out1, c')"
    using Suc.prems(2) g by (auto split: prod.splits)
  have "out = (case r of None \<Rightarrow> out1 | Some v \<Rightarrow> v # out1)"
    using Suc.prems(2) by (simp add: g s)
  then show ?case
    using Suc.IH [OF _ s] get_contents [OF g] Suc.prems(1) by (cases r) auto
qed simp

end

definition put_chan :: "'a \<Rightarrow> 'a chan \<Rightarrow> bool \<times> 'a chan" where
  "put_chan v c = (case try_send v c of (r, c', ns) \<Rightarrow> (is_ok r, c'))"

definition get_chan :: "'a chan \<Rightarrow> 'a option \<times> 'a chan" where
  "get_chan c = (case try_recv c of (r, c', ns) \<Rightarrow> (r, c'))"

interpretation cq: closable_queue queue closed put_chan get_chan
proof
  fix v :: 'a and c c' :: "'a chan" and r
  obtain r1 c1 n1 where t: "try_send v c = (r1, c1, n1)" by (cases "try_send v c")
  show "queue (snd (put_chan v c)) = (if fst (put_chan v c) then queue c @ [v] else queue c)"
    "closed (snd (put_chan v c)) = closed c"
    by (rule try_send_cases [OF t]; simp add: put_chan_def t)+
  show "\<not> fst (put_chan v c)" if "closed c"
    using that by (simp add: put_chan_def try_send_def)
  obtain r2 c2 n2 where g: "try_recv c = (r2, c2, n2)" by (cases "try_recv c")
  show "queue c = (case r of None \<Rightarrow> [] | Some v \<Rightarrow> v # queue c') \<and> (r = None \<longrightarrow> c' = c)"
    if "get_chan c = (r, c')"
    by (rule try_recv_cases [OF g]) (use that in \<open>auto simp: get_chan_def g\<close>)
  show "closed (snd (get_chan c)) = closed c"
    by (rule try_recv_cases [OF g]; simp add: get_chan_def g)
qed

end
