(* ===== verification/Channel_Monitor.thy ===== *)
theory Channel_Monitor
  imports Channel
begin

text \<open>
  The channel of \<^verbatim>\<open>src/sync/channel.hpp\<close> under concurrent callers. A thread inside a blocking
  member function is either trying (it wants the lock, to run its critical section) or asleep on
  the condition variable its wait predicate belongs to. One step of \<open>mstep\<close> is one critical section
  with the notifications it sends, or a wake-up nobody asked for, which condition variables allow and
  which also stands for the expiry of a timed wait. The lists \<open>accepted\<close> and \<open>handed\<close> record the
  values that went in and came out, in order.
\<close>

section \<open>Threads and steps\<close>

datatype 'a call = CallSend 'a | CallRecv | CallRecvTimeout

datatype 'a thread = Idle | Trying "'a call" | Asleep "'a call"

record 'a monitor =
  chan :: "'a chan"
  threads :: "'a thread list"
  accepted :: "'a list"
  handed :: "'a list"

fun waits_on :: "'a call \<Rightarrow> cond_var" where
  "waits_on (CallSend v) = NotFull"
| "waits_on CallRecv = NotEmpty"
| "waits_on CallRecvTimeout = NotEmpty"

text \<open>
  The critical section of a call: the values it put in, the values it took out, the channel it
  leaves and its notifications; \<open>None\<close> when it has to wait.
\<close>

fun attempt ::
  "bool \<Rightarrow> 'a call \<Rightarrow> 'a chan \<Rightarrow> ('a list \<times> 'a list \<times> 'a chan \<times> notification list) option" where
  "attempt expired (CallSend v) c =
     map_option (\<lambda>(r, c', ns). (if is_ok r then [v] else [], [], c', ns)) (send v c)"
| "attempt expired CallRecv c =
     map_option (\<lambda>(r, c', ns). ([], case r of None \<Rightarrow> [] | Some v \<Rightarrow> [v], c', ns)) (recv c)"
| "attempt expired CallRecvTimeout c =
     map_option (\<lambda>(r, c', ns). ([], case r of None \<Rightarrow> [] | Some v \<Rightarrow> [v], c', ns)) (recv_timeout expired c)"

fun wake_thread :: "cond_var \<Rightarrow> 'a thread \<Rightarrow> 'a thread" where
  "wake_thread cv (Asleep k) = (if waits_on k = cv then Trying k else Asleep k)"
| "wake_thread cv t = t"

fun asleep_on :: "cond_var \<Rightarrow> 'a thread \<Rightarrow> bool" where
  "asleep_on cv (Asleep k) = (waits_on k = cv)"
| "asleep_on cv t = False"

fun trying_on :: "cond_var \<Rightarrow> 'a thread \<Rightarrow> bool" where
  "trying_on cv (Trying k) = (waits_on k = cv)"
| "trying_on cv t = False"

inductive notify :: "notification \<Rightarrow> 'a thread list \<Rightarrow> 'a thread list \<Rightarrow> bool" where
  notify_one: "i < length ts \<Longrightarrow> asleep_on cv (ts ! i) \<Longrightarrow>
    notify (NotifyOne cv) ts (ts[i := wake_thread cv (ts ! i)])"
| notify_none: "\<forall>t \<in> set ts. \<not> asleep_on cv t \<Longrightarrow> notify (NotifyOne cv) ts ts"
| notify_all: "notify (NotifyAll cv) ts (map (wake_thread cv) ts)"

inductive notifies :: "notification list \<Rightarrow> 'a thread list \<Rightarrow> 'a thread list \<Rightarrow> bool" where
  nil: "notifies [] ts ts"
| cons: "notify n ts ts1 \<Longrightarrow> notifies ns ts1 ts2 \<Longrightarrow> notifies (n # ns) ts ts2"

inductive_simps notify_simps:
  "notify (NotifyOne cv) ts ts'"
  "notify (NotifyAll cv) ts ts'"

inductive_simps notifies_simps [simp]:
  "notifies [] ts ts'"
  "notifies (n # ns) ts ts'"

inductive mstep :: "'a monitor \<Rightarrow> 'a monitor \<Rightarrow> bool" where
  call: "i < length (threads m) \<Longrightarrow> threads m ! i = Idle \<Longrightarrow>
    mstep m (m\<lparr>threads := (threads m)[i := Trying k]\<rparr>)"
| block: "i < length (threads m) \<Longrightarrow> threads m ! i = Trying k \<Longrightarrow> attempt e k (chan m) = None \<Longrightarrow>
    mstep m (m\<lparr>threads := (threads m)[i := Asleep k]\<rparr>)"
| finish: "i < length (threads m) \<Longrightarrow> threads m ! i = Trying k \<Longrightarrow>
    attempt e k (chan m) = Some (a, h, c', ns) \<Longrightarrow> notifies ns ((threads m)[i := Idle]) ts' \<Longrightarrow>
    mstep m \<lparr>chan = c', threads = ts', accepted = accepted m @ a, handed = handed m @ h\<rparr>"
| wake: "i < length (threads m) \<Longrightarrow> threads m ! i = Asleep k \<Longrightarrow>
    mstep m (m\<lparr>threads := (threads m)[i := Trying k]\<rparr>)"
| try_send: "try_send v (chan m) = (r, c', ns) \<Longrightarrow> notifies ns (threads m) ts' \<Longrightarrow>
    mstep m (m\<lparr>chan := c', threads := ts', accepted := accepted m @ (if is_ok r then [v] else [])\<rparr>)"
| try_recv: "try_recv (chan m) = (r, c', ns) \<Longrightarrow> notifies ns (threads m) ts' \<Longrightarrow>
    mstep m (m\<lparr>chan := c', threads := ts',
      handed := handed m @ (case r of None \<Rightarrow> [] | Some v \<Rightarrow> [v])\<rparr>)"
| close: "close_chan (chan m) = (c', ns) \<Longrightarrow> notifies ns (threads m) ts' \<Longrightarrow>
    mstep m (m\<lparr>chan := c', threads := ts'\<rparr>)"

definition start_monitor :: "nat \<Rightarrow> nat \<Rightarrow> 'a monitor" where
  "start_monitor cap n =
     \<lparr>chan = make_channel cap, threads = replicate n Idle, accepted = [], handed = []\<rparr>"

inductive reach :: "'a monitor \<Rightarrow> bool" where
  start: "reach (start_monitor cap n)"
| step: "reach m \<Longrightarrow> mstep m m' \<Longrightarrow> reach m'"

section \<open>Counting threads\<close>

definition sleepers :: "cond_var \<Rightarrow> 'a thread list \<Rightarrow> nat" where
  "sleepers cv ts = length (filter (asleep_on cv) ts)"

definition tryers :: "cond_var \<Rightarrow> 'a thread list \<Rightarrow> nat" where
  "tryers cv ts = length (filter (trying_on cv) ts)"

lemma sleepers_update:
  "i < length ts \<Longrightarrow> sleepers cv (ts[i := t]) + (if asleep_on cv (ts ! i) then 1 else 0)
     = sleepers cv ts + (if asleep_on cv t then 1 else 0)"
  unfolding sleepers_def using length_filter_list_update [of i ts "asleep_on cv" t] length_filter_pos [of i ts "asleep_on cv"]
  by auto

lemma tryers_update:
  "i < length ts \<Longrightarrow> tryers cv (ts[i := t]) + (if trying_on cv (ts ! i) then 1 else 0)
     = tryers cv ts + (if trying_on cv t then 1 else 0)"
  unfolding tryers_def using length_filter_list_update [of i ts "trying_on cv" t] length_filter_pos [of i ts "trying_on cv"]
  by auto

lemma sleepers_zero: "sleepers cv ts = 0 \<longleftrightarrow> (\<forall>t \<in> set ts. \<not> asleep_on cv t)"
  by (auto simp: sleepers_def filter_empty_conv)

lemma notify_one_counts:
  assumes "notify (NotifyOne cv) ts ts'"
  shows "sleepers cv ts = 0 \<and> ts' = ts \<or>
    sleepers cv ts = sleepers cv ts' + 1 \<and> tryers cv ts' = tryers cv ts + 1 \<and>
    (\<forall>cv'. cv' \<noteq> cv \<longrightarrow> sleepers cv' ts' = sleepers cv' ts \<and> tryers cv' ts' = tryers cv' ts)"
proof -
  consider (one) i where "i < length ts" "asleep_on cv (ts ! i)" "ts' = ts[i := wake_thread cv (ts ! i)]"
    | (none) "sleepers cv ts = 0" "ts' = ts"
    using assms by (auto simp: notify_simps sleepers_zero)
  then show ?thesis
  proof cases
    case one
    then obtain k where k: "ts ! i = Asleep k" "waits_on k = cv" by (cases "ts ! i") auto
    have "sleepers cv ts = sleepers cv ts' + 1" "tryers cv ts' = tryers cv ts + 1"
      using sleepers_update [OF one(1), of cv "Trying k"] tryers_update [OF one(1), of cv "Trying k"]
      by (simp_all add: one(3) k)
    moreover have "sleepers cv' ts' = sleepers cv' ts \<and> tryers cv' ts' = tryers cv' ts" if "cv' \<noteq> cv" for cv'
      using sleepers_update [OF one(1), of cv' "Trying k"] tryers_update [OF one(1), of cv' "Trying k"] that
      by (simp add: one(3) k)
    ultimately show ?thesis by blast
  qed blast
qed

lemma asleep_on_wake_thread: "asleep_on cv' (wake_thread cv t) \<longleftrightarrow> cv' \<noteq> cv \<and> asleep_on cv' t"
  by (cases t) auto

lemma notify_all_counts:
  "notify (NotifyAll cv) ts ts' \<Longrightarrow> sleepers cv ts' = 0 \<and> (sleepers cv' ts = 0 \<longrightarrow> sleepers cv' ts' = 0)"
  by (auto simp: notify_simps sleepers_zero asleep_on_wake_thread)

section \<open>The invariant\<close>

text \<open>
  Values come out in the order they went in, the capacity is respected, and no wake-up is lost: while
  some receiver sleeps the channel is open and every queued value has a receiver on its way to it;
  while some sender sleeps the channel is open and every free place has a sender on its way.
\<close>

definition minv :: "'a monitor \<Rightarrow> bool" where
  "minv m \<longleftrightarrow>
     chan_inv (chan m) \<and> accepted m = handed m @ queue (chan m) \<and>
     (sleepers NotEmpty (threads m) > 0 \<longrightarrow>
        \<not> closed (chan m) \<and> length (queue (chan m)) \<le> tryers NotEmpty (threads m)) \<and>
     (sleepers NotFull (threads m) > 0 \<longrightarrow>
        \<not> closed (chan m) \<and> capacity (chan m) > 0 \<and>
        capacity (chan m) - length (queue (chan m)) \<le> tryers NotFull (threads m))"

lemma minvI:
  assumes "chan_inv c" "acc = out @ queue c"
    and "sleepers NotEmpty ts > 0 \<Longrightarrow> \<not> closed c \<and> length (queue c) \<le> tryers NotEmpty ts"
    and "sleepers NotFull ts > 0 \<Longrightarrow> \<not> closed c \<and> capacity c > 0 \<and>
           capacity c - length (queue c) \<le> tryers NotFull ts"
  shows "minv \<lparr>chan = c, threads = ts, accepted = acc, handed = out\<rparr>"
  using assms by (simp add: minv_def)

lemma monitor_upd:
  "m\<lparr>threads := ts\<rparr> = \<lparr>chan = chan m, threads = ts, accepted = accepted m, handed = handed m\<rparr>"
  "m\<lparr>chan := c, threads := ts\<rparr> = \<lparr>chan = c, threads = ts, accepted = accepted m, handed = handed m\<rparr>"
  "m\<lparr>chan := c, threads := ts, accepted := a\<rparr> = \<lparr>chan = c, threads = ts, accepted = a, handed = handed m\<rparr>"
  "m\<lparr>chan := c, threads := ts, handed := h\<rparr> = \<lparr>chan = c, threads = ts, accepted = accepted m, handed = h\<rparr>"
  by simp_all

lemma start_minv: "minv (start_monitor cap n)"
  by (simp add: minv_def start_monitor_def make_channel_def chan_inv_def sleepers_def)

text \<open>A thread that starts or resumes trying only raises the number of those on their way.\<close>

lemma minv_trying:
  assumes "minv m" "i < length (threads m)" "\<not> trying_on NotEmpty (threads m ! i)" "\<not> trying_on NotFull (threads m ! i)"
  shows "minv (m\<lparr>threads := (threads m)[i := Trying k]\<rparr>)"
proof -
  have "sleepers cv ((threads m)[i := Trying k]) \<le> sleepers cv (threads m)" for cv
    using sleepers_update [OF assms(2), of cv "Trying k"] by simp
  moreover have "tryers cv (threads m) \<le> tryers cv ((threads m)[i := Trying k])" for cv
    using tryers_update [OF assms(2), of cv "Trying k"] assms(3,4) by (cases cv) simp_all
  ultimately show ?thesis
    using assms(1) unfolding monitor_upd minv_def
    by (intro minvI [unfolded minv_def]) (metis less_le_trans le_trans)+
qed

lemma minv_block:
  assumes "minv m" "i < length (threads m)" "threads m ! i = Trying k" "attempt e k (chan m) = None"
  shows "minv (m\<lparr>threads := (threads m)[i := Asleep k]\<rparr>)"
proof -
  have s: "sleepers cv ((threads m)[i := Asleep k]) = sleepers cv (threads m) + (if waits_on k = cv then 1 else 0)" for cv
    using sleepers_update [OF assms(2), of cv "Asleep k"] assms(3) by simp
  have t: "tryers cv ((threads m)[i := Asleep k]) = tryers cv (threads m) - (if waits_on k = cv then 1 else 0)" for cv
    using tryers_update [OF assms(2), of cv "Asleep k"] assms(3) by simp
  have "waits_on k = NotEmpty \<Longrightarrow> queue (chan m) = [] \<and> \<not> closed (chan m)"
    "waits_on k = NotFull \<Longrightarrow> capacity (chan m) > 0 \<and> capacity (chan m) \<le> length (queue (chan m)) \<and> \<not> closed (chan m)"
    using assms(4) by (cases k; auto simp: chan_simps split: if_splits)+
  then show ?thesis
    using assms(1) unfolding monitor_upd
    by (intro minvI; cases "waits_on k") (simp_all add: s t minv_def)
qed

lemma minv_put:
  assumes "chan_inv c" "\<not> closed c" "capacity c > 0 \<longrightarrow> length (queue c) < capacity c"
    and "acc = out @ queue c" "notify (NotifyOne NotEmpty) ts ts'"
    and "sleepers NotEmpty ts > 0 \<Longrightarrow> length (queue c) \<le> tryers NotEmpty ts"
    and "sleepers NotFull ts > 0 \<Longrightarrow> capacity c > 0 \<and> capacity c - length (queue c) \<le> tryers NotFull ts + 1"
  shows "minv \<lparr>chan = c\<lparr>queue := queue c @ [v]\<rparr>, threads = ts', accepted = acc @ [v], handed = out\<rparr>"
proof (rule minvI)
  show "chan_inv (c\<lparr>queue := queue c @ [v]\<rparr>)"
    using assms(1,3) by (auto simp: chan_inv_def)
  show "\<not> closed (c\<lparr>queue := queue c @ [v]\<rparr>) \<and> length (queue (c\<lparr>queue := queue c @ [v]\<rparr>)) \<le> tryers NotEmpty ts'"
    if "sleepers NotEmpty ts' > 0"
    using notify_one_counts [OF assms(5)] that assms(2,6) by auto
  show "\<not> closed (c\<lparr>queue := queue c @ [v]\<rparr>) \<and> capacity (c\<lparr>queue := queue c @ [v]\<rparr>) > 0 \<and>
      capacity (c\<lparr>queue := queue c @ [v]\<rparr>) - length (queue (c\<lparr>queue := queue c @ [v]\<rparr>)) \<le> tryers NotFull ts'"
    if "sleepers NotFull ts' > 0"
    using notify_one_counts [OF assms(5)] that assms(2,7) by auto
qed (use assms(4) in simp)

lemma minv_take:
  assumes "chan_inv c" "queue c = v # vs" "acc = out @ queue c" "notify (NotifyOne NotFull) ts ts'"
    and "sleepers NotEmpty ts > 0 \<Longrightarrow> \<not> closed c \<and> length (queue c) \<le> tryers NotEmpty ts + 1"
    and "sleepers NotFull ts > 0 \<Longrightarrow> \<not> closed c \<and> capacity c > 0 \<and> capacity c - length (queue c) \<le> tryers NotFull ts"
  shows "minv \<lparr>chan = c\<lparr>queue := vs\<rparr>, threads = ts', accepted = acc, handed = out @ [v]\<rparr>"
proof (rule minvI)
  show "chan_inv (c\<lparr>queue := vs\<rparr>)"
    using assms(1,2) by (auto simp: chan_inv_def)
  show "\<not> closed (c\<lparr>queue := vs\<rparr>) \<and> length (queue (c\<lparr>queue := vs\<rparr>)) \<le> tryers NotEmpty ts'"
    if "sleepers NotEmpty ts' > 0"
    using notify_one_counts [OF assms(4)] that assms(2,5) by auto
  show "\<not> closed (c\<lparr>queue := vs\<rparr>) \<and> capacity (c\<lparr>queue := vs\<rparr>) > 0 \<and>
      capacity (c\<lparr>queue := vs\<rparr>) - length (queue (c\<lparr>queue := vs\<rparr>)) \<le> tryers NotFull ts'"
    if "sleepers NotFull ts' > 0"
    using notify_one_counts [OF assms(4)] that assms(2,6) by auto
qed (use assms(2,3) in simp)

lemma attempt_cases:
  assumes "attempt e k c = Some (a, h, c', ns)"
  obtains (put) v where "waits_on k = NotFull" "a = [v]" "h = []" "\<not> closed c"
      "capacity c > 0 \<longrightarrow> length (queue c) < capacity c" "c' = c\<lparr>queue := queue c @ [v]\<rparr>" "ns = [NotifyOne NotEmpty]"
    | (take) v vs where "waits_on k = NotEmpty" "a = []" "h = [v]" "queue c = v # vs" "c' = c\<lparr>queue := vs\<rparr>"
      "ns = [NotifyOne NotFull]"
    | (leave) "a = []" "h = []" "c' = c" "ns = []" "closed c \<or> waits_on k = NotEmpty \<and> queue c = []"
  using assms
  by (cases k)
    (auto simp: send_def recv_def recv_timeout_def pop_front_def split: if_splits list.splits)

lemma minv_leave:
  assumes "minv m" "i < length (threads m)" "threads m ! i = Trying k"
    and "closed (chan m) \<or> waits_on k = NotEmpty \<and> queue (chan m) = []"
  shows "minv (m\<lparr>threads := (threads m)[i := Idle]\<rparr>)"
proof -
  have s: "sleepers cv ((threads m)[i := Idle]) = sleepers cv (threads m)" for cv
    using sleepers_update [OF assms(2), of cv Idle] assms(3) by simp
  have t: "tryers cv ((threads m)[i := Idle]) = tryers cv (threads m) - (if waits_on k = cv then 1 else 0)" for cv
    using tryers_update [OF assms(2), of cv Idle] assms(3) by simp
  show ?thesis
    using assms(1,4) unfolding monitor_upd
    by (intro minvI) (auto simp: s t minv_def)
qed

lemma minv_finish:
  assumes "minv m" "i < length (threads m)" "threads m ! i = Trying k"
    and "attempt e k (chan m) = Some (a, h, c', ns)" "notifies ns ((threads m)[i := Idle]) ts'"
  shows "minv \<lparr>chan = c', threads = ts', accepted = accepted m @ a, handed = handed m @ h\<rparr>"
proof -
  let ?ts = "(threads m)[i := Idle]"
  have s: "sleepers cv ?ts = sleepers cv (threads m)" for cv
    using sleepers_update [OF assms(2), of cv Idle] assms(3) by simp
  have t: "tryers cv ?ts + (if waits_on k = cv then 1 else 0) = tryers cv (threads m)" for cv
    using tryers_update [OF assms(2), of cv Idle] assms(3) by simp
  have tE: "tryers NotEmpty (threads m) \<le> tryers NotEmpty ?ts + 1" "tryers NotFull (threads m) \<le> tryers NotFull ?ts + 1"
    using t [of NotEmpty] t [of NotFull] by (simp_all split: if_splits)
  note inv = assms(1) [unfolded minv_def]
  show ?thesis
    using assms(4)
  proof (cases rule: attempt_cases)
    case (put v)
    have "minv \<lparr>chan = (chan m)\<lparr>queue := queue (chan m) @ [v]\<rparr>, threads = ts', accepted = accepted m @ [v],
        handed = handed m\<rparr>"
      by (rule minv_put [where ts = ?ts])
        (use inv put assms(5) s t [of NotEmpty] tE(2) in \<open>auto\<close>)
    then show ?thesis by (simp add: put)
  next
    case (take v vs)
    have "minv \<lparr>chan = (chan m)\<lparr>queue := vs\<rparr>, threads = ts', accepted = accepted m,
        handed = handed m @ [v]\<rparr>"
      by (rule minv_take [where ts = ?ts])
        (use inv take assms(5) s t [of NotFull] tE(1) in \<open>auto\<close>)
    then show ?thesis by (simp add: take)
  next
    case leave
    then show ?thesis
      using minv_leave [OF assms(1-3)] assms(5) by (simp add: monitor_upd)
  qed
qed

lemma mstep_minv: "mstep m m' \<Longrightarrow> minv m \<Longrightarrow> minv m'"
proof (induction rule: mstep.induct)
  case (try_send v m r c' ns ts')
  show ?case
    using try_send.hyps(1)
  proof (cases rule: try_send_cases)
    case accepted
    have "minv \<lparr>chan = (chan m)\<lparr>queue := queue (chan m) @ [v]\<rparr>, threads = ts', accepted = accepted m @ [v],
        handed = handed m\<rparr>"
      by (rule minv_put [where ts = "threads m"])
        (use try_send accepted in \<open>auto simp: minv_def\<close>)
    then show ?thesis by (simp add: accepted monitor_upd)
  qed (use try_send in simp)
next
  case (try_recv m r c' ns ts')
  show ?case
    using try_recv.hyps(1)
  proof (cases rule: try_recv_cases)
    case (got v vs)
    have "minv \<lparr>chan = (chan m)\<lparr>queue := vs\<rparr>, threads = ts', accepted = accepted m,
        handed = handed m @ [v]\<rparr>"
      by (rule minv_take [where ts = "threads m"])
        (use try_recv got in \<open>auto simp: minv_def\<close>)
    then show ?thesis by (simp add: got monitor_upd)
  qed (use try_recv in simp)
next
  case (close m c' ns ts')
  obtain ts1 where n: "notify (NotifyAll NotEmpty) (threads m) ts1" "notify (NotifyAll NotFull) ts1 ts'"
    and c': "c' = (chan m)\<lparr>closed := True\<rparr>"
    using close.hyps by (auto simp: close_chan_def)
  have "sleepers NotEmpty ts' = 0" "sleepers NotFull ts' = 0"
    using notify_all_counts [OF n(1)] notify_all_counts [OF n(2)] by auto
  then show ?case
    using close.prems unfolding monitor_upd c' by (intro minvI) (auto simp: minv_def chan_inv_def)
qed (auto intro: minv_trying minv_block minv_finish)

lemma reach_minv: "reach m \<Longrightarrow> minv m"
  by (induction rule: reach.induct) (auto intro: start_minv mstep_minv)

section \<open>Properties\<close>

text \<open>
  C27. The channel is a bounded FIFO under any interleaving: the values handed out so far, followed by
  the queue, are exactly the values accepted so far, in order, and the queue never exceeds a
  positive capacity.
\<close>

theorem channel_fifo:
  assumes "reach m"
  shows "accepted m = handed m @ queue (chan m) \<and>
    (capacity (chan m) > 0 \<longrightarrow> length (queue (chan m)) \<le> capacity (chan m))"
  using reach_minv [OF assms] by (simp add: minv_def chan_inv_def)

definition sample_monitor :: "nat monitor" where
  "sample_monitor = \<lparr>chan = \<lparr>queue = [4], capacity = 1, closed = False\<rparr>, threads = [Idle, Idle],
     accepted = [4], handed = []\<rparr>"

lemma sample_reach: "reach sample_monitor"
proof -
  have "mstep (start_monitor 1 2) ((start_monitor 1 2)\<lparr>chan := \<lparr>queue = [4], capacity = 1, closed = False\<rparr>,
      threads := [Idle, Idle], accepted := accepted (start_monitor 1 2) @ (if is_ok (Ok ()) then [4 :: nat] else [])\<rparr>)"
    by (rule mstep.try_send [where ns = "[NotifyOne NotEmpty]"])
      (simp_all add: start_monitor_def make_channel_def try_send_def notify_simps numeral_2_eq_2)
  then have "mstep (start_monitor 1 2) sample_monitor"
    by (simp add: start_monitor_def sample_monitor_def)
  then show ?thesis by (rule reach.step [OF reach.start])
qed

theorem channel_fifo_witness:
  "accepted sample_monitor = handed sample_monitor @ queue (chan sample_monitor)"
  using channel_fifo [OF sample_reach] by simp

text \<open>
  C28. No wake-up is lost. When no thread is on its way to the lock, a thread that sleeps in a receive
  sleeps because the channel is open and empty, and one that sleeps in \<open>send\<close> because it is open and
  full; the two do not occur together.
\<close>

theorem channel_no_lost_wakeup:
  assumes "reach m" "\<forall>k. Trying k \<notin> set (threads m)"
  shows "(\<forall>k. Asleep k \<in> set (threads m) \<and> waits_on k = NotEmpty \<longrightarrow> queue (chan m) = [] \<and> \<not> closed (chan m)) \<and>
    (\<forall>k. Asleep k \<in> set (threads m) \<and> waits_on k = NotFull \<longrightarrow>
       capacity (chan m) > 0 \<and> length (queue (chan m)) = capacity (chan m) \<and> \<not> closed (chan m)) \<and>
    (\<forall>k k'. Asleep k \<in> set (threads m) \<and> Asleep k' \<in> set (threads m) \<longrightarrow> waits_on k = waits_on k')"
proof -
  have none: "tryers cv (threads m) = 0" for cv
  proof -
    have "\<not> trying_on cv t" if "t \<in> set (threads m)" for t
      using that assms(2) by (cases t rule: thread.exhaust) auto
    then show ?thesis by (simp add: tryers_def)
  qed
  have sl: "sleepers (waits_on k) (threads m) > 0" if "Asleep k \<in> set (threads m)" for k
    using that sleepers_zero [of "waits_on k" "threads m"] by fastforce
  have e: "queue (chan m) = [] \<and> \<not> closed (chan m)" if "Asleep k \<in> set (threads m)" "waits_on k = NotEmpty" for k
    using sl [OF that(1)] that(2) reach_minv [OF assms(1)] none by (simp add: minv_def)
  have f: "capacity (chan m) > 0 \<and> length (queue (chan m)) = capacity (chan m) \<and> \<not> closed (chan m)"
    if "Asleep k \<in> set (threads m)" "waits_on k = NotFull" for k
    using sl [OF that(1)] that(2) reach_minv [OF assms(1)] none by (auto simp: minv_def chan_inv_def)
  have "waits_on k = waits_on k'" if "Asleep k \<in> set (threads m)" "Asleep k' \<in> set (threads m)" for k k'
    using e [of k] e [of k'] f [of k] f [of k'] that by (cases "waits_on k"; cases "waits_on k'") auto
  with e f show ?thesis by blast
qed

definition waiting_monitor :: "nat monitor" where
  "waiting_monitor = \<lparr>chan = make_channel 1, threads = [Asleep CallRecv], accepted = [], handed = []\<rparr>"

lemma waiting_reach: "reach waiting_monitor"
proof -
  let ?m = "\<lparr>chan = make_channel 1, threads = [Trying CallRecv], accepted = [], handed = []\<rparr> :: nat monitor"
  have "mstep (start_monitor 1 1) ?m"
    using mstep.call [of 0 "start_monitor 1 1" CallRecv] by (simp add: start_monitor_def)
  then have "reach ?m" by (rule reach.step [OF reach.start])
  moreover have "mstep ?m waiting_monitor"
    using mstep.block [of 0 ?m CallRecv False] by (simp add: waiting_monitor_def make_channel_def recv_def)
  ultimately show ?thesis by (rule reach.step)
qed

theorem channel_no_lost_wakeup_witness:
  "threads waiting_monitor = [Asleep CallRecv] \<and> queue (chan waiting_monitor) = [] \<and> \<not> closed (chan waiting_monitor)"
  using channel_no_lost_wakeup [OF waiting_reach] by (simp add: waiting_monitor_def)

text \<open>
  Closing releases everybody: once the channel is closed no thread sleeps in it, and whatever
  call a thread makes ends in one critical section.
\<close>

theorem channel_close_releases:
  assumes "reach m" "closed (chan m)"
  shows "(\<forall>k. Asleep k \<notin> set (threads m)) \<and> (\<forall>e k. attempt e k (chan m) \<noteq> None)"
proof -
  have "sleepers cv (threads m) = 0" for cv
    using reach_minv [OF assms(1)] assms(2) by (cases cv) (auto simp: minv_def)
  then have "Asleep k \<notin> set (threads m)" for k
    using sleepers_zero [of "waits_on k" "threads m"] by fastforce
  moreover have "attempt e k (chan m) \<noteq> None" for e k
    using assms(2) by (cases k) (simp_all add: send_def recv_def recv_timeout_def)
  ultimately show ?thesis by blast
qed

definition closed_monitor :: "nat monitor" where
  "closed_monitor = \<lparr>chan = \<lparr>queue = [], capacity = 0, closed = True\<rparr>, threads = [], accepted = [], handed = []\<rparr>"

lemma closed_reach: "reach closed_monitor"
proof -
  have "mstep (start_monitor 0 0) ((start_monitor 0 0)\<lparr>chan := (make_channel 0)\<lparr>closed := True\<rparr>, threads := []\<rparr>)"
    by (rule mstep.close [where ns = "[NotifyAll NotEmpty, NotifyAll NotFull]"])
      (simp_all add: start_monitor_def close_chan_def notify_simps)
  then have "mstep (start_monitor 0 0) closed_monitor"
    by (simp add: start_monitor_def closed_monitor_def make_channel_def)
  then show ?thesis by (rule reach.step [OF reach.start])
qed

theorem channel_close_releases_witness: "attempt False CallRecv (chan closed_monitor) \<noteq> None"
  using channel_close_releases [OF closed_reach] by (auto simp: closed_monitor_def simp del: attempt.simps)

text \<open>
  A closed channel is drained, not discarded: after \<open>close\<close> every send is refused, while as many
  receives as there are queued values hand out exactly those, in order.
\<close>

theorem channel_closed_drains:
  assumes "length (queue c) \<le> n"
    and "session put_chan get_chan (map Inl vs @ replicate n (Inr ())) (fst (close_chan c)) = (acc, out, c')"
  shows "acc = [] \<and> out = queue c \<and> queue c' = []"
proof -
  let ?c = "fst (close_chan c)"
  have cl: "closed ?c" "queue ?c = queue c" by (simp_all add: close_chan_def)
  have refuse: "put_chan v ?c = (False, ?c)" for v
    using cl by (simp add: put_chan_def try_send_def)
  have "session put_chan get_chan (map Inl vs @ ops) ?c = session put_chan get_chan ops ?c" for ops
    by (induction vs) (simp_all add: refuse split: prod.split)
  with assms(2) have s: "session put_chan get_chan (replicate n (Inr ())) ?c = (acc, out, c')" by simp
  show ?thesis
    using cq.session_drain [OF _ s] cq.session_shut [OF s] assms(1) cl by simp
qed

theorem channel_closed_drains_witness:
  "session put_chan get_chan (map Inl [9] @ replicate 2 (Inr ())) (fst (close_chan \<lparr>queue = [1, 2 :: nat], capacity = 0, closed = False\<rparr>))
     = ([], [1, 2], \<lparr>queue = [], capacity = 0, closed = True\<rparr>)"
  using channel_closed_drains [of "\<lparr>queue = [1, 2 :: nat], capacity = 0, closed = False\<rparr>" 2 "[9]" "[]" "[1, 2]"
      "\<lparr>queue = [], capacity = 0, closed = True\<rparr>"]
  by (simp add: close_chan_def put_chan_def get_chan_def try_send_def try_recv_def pop_front_def numeral_2_eq_2)

end
