(* ===== verification/Spinlock.thy ===== *)
theory Spinlock
  imports Rain_Prelude
begin

text \<open>
  The spin lock of \<^verbatim>\<open>src/sync/spinlock.hpp\<close>. The flag is atomic, so a test-and-set and a clear are
  single steps; a thread in \<open>lock\<close> repeats the test-and-set until it finds the flag clear. A
  \<open>LockGuard\<close> releases what its constructor acquired, so only a holder clears the flag.
\<close>

definition test_and_set :: "bool \<Rightarrow> bool \<times> bool" where
  "test_and_set flag = (flag, True)"

definition clear :: "bool \<Rightarrow> bool" where
  "clear flag = False"

datatype spin_thread = Outside | Spinning | Holding

record spin =
  flag :: bool
  spinners :: "spin_thread list"

text \<open>One round of the loop in \<open>lock\<close>, by thread \<open>i\<close>.\<close>

definition lock_round :: "nat \<Rightarrow> spin \<Rightarrow> spin" where
  "lock_round i s =
     (let (old, new) = test_and_set (flag s)
      in if old then s\<lparr>flag := new\<rparr> else s\<lparr>flag := new, spinners := (spinners s)[i := Holding]\<rparr>)"

definition unlock :: "nat \<Rightarrow> spin \<Rightarrow> spin" where
  "unlock i s = s\<lparr>flag := clear (flag s), spinners := (spinners s)[i := Outside]\<rparr>"

inductive spin_reach :: "spin \<Rightarrow> bool" where
  init: "spin_reach \<lparr>flag = False, spinners = replicate n Outside\<rparr>"
| enter: "spin_reach s \<Longrightarrow> i < length (spinners s) \<Longrightarrow> spinners s ! i = Outside \<Longrightarrow>
    spin_reach (s\<lparr>spinners := (spinners s)[i := Spinning]\<rparr>)"
| round: "spin_reach s \<Longrightarrow> i < length (spinners s) \<Longrightarrow> spinners s ! i = Spinning \<Longrightarrow> spin_reach (lock_round i s)"
| leave: "spin_reach s \<Longrightarrow> i < length (spinners s) \<Longrightarrow> spinners s ! i = Holding \<Longrightarrow> spin_reach (unlock i s)"

definition holders :: "spin \<Rightarrow> nat" where
  "holders s = length (filter ((=) Holding) (spinners s))"

lemma holders_update:
  "i < length ts \<Longrightarrow> length (filter ((=) Holding) (ts[i := t])) + (if ts ! i = Holding then 1 else 0)
     = length (filter ((=) Holding) ts) + (if t = Holding then 1 else 0)"
  using length_filter_list_update [of i ts "(=) Holding" t] by (simp add: eq_commute)

lemma spin_inv: "spin_reach s \<Longrightarrow> holders s = (if flag s then 1 else 0)"
proof (induction rule: spin_reach.induct)
  case (enter s i)
  then show ?case using holders_update [of i "spinners s" Spinning] by (simp add: holders_def)
next
  case (round s i)
  then show ?case
    using holders_update [of i "spinners s" Holding]
    by (simp add: holders_def lock_round_def test_and_set_def)
next
  case (leave s i)
  then show ?case
    using holders_update [of i "spinners s" Outside]
    by (simp add: holders_def unlock_def clear_def split: if_splits)
qed (simp add: holders_def)

text \<open>
  C29. Mutual exclusion and progress of the spin lock: in every reachable state at most one thread
  holds it, the flag says whether one does, and when none does the next round of any spinning
  thread acquires it.
\<close>

theorem spinlock_mutual_exclusion:
  assumes "spin_reach s"
  shows "holders s \<le> 1 \<and> (flag s \<longleftrightarrow> Holding \<in> set (spinners s)) \<and>
    (\<forall>i < length (spinners s). holders s = 0 \<longrightarrow> spinners (lock_round i s) ! i = Holding)"
proof -
  have "holders s = 0 \<longleftrightarrow> Holding \<notin> set (spinners s)"
    by (auto simp: holders_def filter_empty_conv)
  then show ?thesis
    using spin_inv [OF assms] by (auto simp: lock_round_def test_and_set_def split: if_splits)
qed

theorem spinlock_mutual_exclusion_witness:
  "holders (lock_round 1 \<lparr>flag = False, spinners = [Outside, Spinning]\<rparr>) \<le> 1"
proof -
  have "spin_reach \<lparr>flag = False, spinners = [Outside, Spinning]\<rparr>"
    using spin_reach.enter [OF spin_reach.init [of 2], of 1] by (simp add: numeral_2_eq_2)
  then have "spin_reach (lock_round 1 \<lparr>flag = False, spinners = [Outside, Spinning]\<rparr>)"
    by (rule spin_reach.round) simp_all
  from spinlock_mutual_exclusion [OF this] show ?thesis by simp
qed

end
