(* ===== verification/Combinators.thy ===== *)
theory Combinators
  imports Event_Loop
begin

text \<open>
  Task combinators, \<^verbatim>\<open>src/async/combinators.hpp\<close>.

  The sequential ones (deadline check, the pipe operators, \<open>retry\<close>) only await one task after the
  other: there a task is a computation on the world, and \<open>None\<close> is a task that never completes.
  The concurrent ones (\<open>when_all\<close>, \<open>when_any\<close>, \<open>timeout\<close>) spawn racers on the event loop
  that meet in a shared state: there each piece of a coroutine between two suspension points is a
  function on that state and the core. The frames of the racers and of the tasks are given by their
  handles.
\<close>

section \<open>Errors and awaited tasks\<close>

definition make_timed_out_error :: system_error where
  "make_timed_out_error = make_error ETIMEDOUT ''operation timed out''"

type_synonym ('a, 'w) task = "'w \<Rightarrow> ('a \<times> 'w) option"

definition co_return :: "'a \<Rightarrow> ('a, 'w) task" where
  "co_return v w = Some (v, w)"

definition co_await :: "('a, 'w) task \<Rightarrow> ('a \<Rightarrow> ('b, 'w) task) \<Rightarrow> ('b, 'w) task" where
  "co_await t k w = (case t w of None \<Rightarrow> None | Some (v, w1) \<Rightarrow> k v w1)"

text \<open>A synchronous call that acts on the world: a clock reading, a user's function.\<close>

definition call :: "('w \<Rightarrow> 'a \<times> 'w) \<Rightarrow> ('a, 'w) task" where
  "call f w = Some (f w)"

definition with_deadline_check ::
  "('w \<Rightarrow> time_point \<times> 'w) \<Rightarrow> ('a result, 'w) task \<Rightarrow> duration \<Rightarrow> ('a result, 'w) task" where
  "with_deadline_check clock task timeout =
     co_await (call clock) (\<lambda>start.
       let deadline = start + timeout
       in co_await task (\<lambda>result.
            co_await (call clock) (\<lambda>now.
              if deadline < now then co_return (Err make_timed_out_error) else co_return result)))"

section \<open>Pipe operators\<close>

definition pipe_and_then :: "('a result, 'w) task \<Rightarrow> ('a \<Rightarrow> ('b result, 'w) task) \<Rightarrow> ('b result, 'w) task" where
  "pipe_and_then task f =
     co_await task (\<lambda>result. case result of Inl e \<Rightarrow> co_return (Err e) | Inr v \<Rightarrow> co_await (f v) co_return)"

definition pipe_map :: "('a result, 'w) task \<Rightarrow> ('a \<Rightarrow> 'w \<Rightarrow> 'b \<times> 'w) \<Rightarrow> ('b result, 'w) task" where
  "pipe_map task f =
     co_await task (\<lambda>result. case result of
       Inl e \<Rightarrow> co_return (Err e) | Inr v \<Rightarrow> co_await (call (f v)) (\<lambda>u. co_return (Ok u)))"

definition pipe_map_err ::
  "('a result, 'w) task \<Rightarrow> (system_error \<Rightarrow> 'w \<Rightarrow> system_error \<times> 'w) \<Rightarrow> ('a result, 'w) task" where
  "pipe_map_err task f =
     co_await task (\<lambda>result. case result of
       Inl e \<Rightarrow> co_await (call (f e)) (\<lambda>e'. co_return (Err e')) | Inr v \<Rightarrow> co_return (Ok v))"

definition pipe_or_else :: "('a result, 'w) task \<Rightarrow> (system_error \<Rightarrow> ('a result, 'w) task) \<Rightarrow> ('a result, 'w) task" where
  "pipe_or_else task f =
     co_await task (\<lambda>result. case result of Inl e \<Rightarrow> co_await (f e) co_return | Inr v \<Rightarrow> co_return (Ok v))"

definition pipe_inspect :: "('a result, 'w) task \<Rightarrow> ('a \<Rightarrow> 'w \<Rightarrow> 'w) \<Rightarrow> ('a result, 'w) task" where
  "pipe_inspect task f =
     co_await task (\<lambda>result. case result of
       Inr v \<Rightarrow> co_await (call (\<lambda>w. ((), f v w))) (\<lambda>_. co_return result) | Inl _ \<Rightarrow> co_return result)"

definition pipe_inspect_err ::
  "('a result, 'w) task \<Rightarrow> (system_error \<Rightarrow> 'w \<Rightarrow> 'w) \<Rightarrow> ('a result, 'w) task" where
  "pipe_inspect_err task f =
     co_await task (\<lambda>result. case result of
       Inl e \<Rightarrow> co_await (call (\<lambda>w. ((), f e w))) (\<lambda>_. co_return result) | Inr _ \<Rightarrow> co_return result)"

section \<open>Retry\<close>

text \<open>
  \<open>sleep_timer\<close> is \<open>sleep_for(*g_timer, ...)\<close>, present when \<open>g_timer\<close> is not null. The counter is a
  32-bit word, as in the source.
\<close>

lemma unat_suc_below:
  fixes a b :: "'a :: len word"
  assumes "a < b"
  shows "unat (a + 1) = Suc (unat a)"
proof -
  have "unat a < unat b" "unat b < 2 ^ LENGTH('a)" using assms by (simp_all add: word_less_nat_alt)
  then have "Suc (unat a) < 2 ^ LENGTH('a)" by linarith
  then show ?thesis by (simp add: unat_word_ariths(1))
qed

function retry_from ::
  "(duration \<Rightarrow> (unit result, 'w) task) option \<Rightarrow> ('a result, 'w) task \<Rightarrow> u32 \<Rightarrow> duration \<Rightarrow> u32 \<Rightarrow> ('a result, 'w) task" where
  "retry_from sleep_timer factory max_attempts delay_between attempt w =
     (if attempt < max_attempts
      then (case factory w of
              None \<Rightarrow> None
            | Some (result, w1) \<Rightarrow>
                if is_ok result then Some (result, w1)
                else if max_attempts \<le> attempt + 1 then Some (result, w1)
                else (case (if 0 < delay_between then sleep_timer else None) of
                        None \<Rightarrow> retry_from sleep_timer factory max_attempts delay_between (attempt + 1) w1
                      | Some sleep \<Rightarrow>
                          (case sleep delay_between w1 of
                             None \<Rightarrow> None
                           | Some (_, w2) \<Rightarrow> retry_from sleep_timer factory max_attempts delay_between (attempt + 1) w2)))
      else Some (Err make_cancelled_error, w))"
  by pat_completeness auto
termination
  by (relation "measure (\<lambda>(_, _, m, _, a, _). unat m - unat a)")
    (auto simp: unat_suc_below dest: unat_mono)

declare retry_from.simps [simp del]

definition retry ::
  "(duration \<Rightarrow> (unit result, 'w) task) option \<Rightarrow> ('a result, 'w) task \<Rightarrow> u32 \<Rightarrow> duration \<Rightarrow> ('a result, 'w) task" where
  "retry sleep_timer factory max_attempts delay_between = retry_from sleep_timer factory max_attempts delay_between 0"

section \<open>when_all\<close>

record 'a all_state =
  all_remaining :: u64
  all_results :: "'a result list"
  all_waiter :: handle

text \<open>What a racer does once the task it awaits has completed with \<open>r\<close>.\<close>

definition when_all_racer ::
  "bool \<Rightarrow> nat \<Rightarrow> 'a result \<Rightarrow> 'a all_state \<times> ('v, 'w) core \<Rightarrow> 'a all_state \<times> ('v, 'w) core" where
  "when_all_racer owner idx r = (\<lambda>(st, c).
     let st1 = st\<lparr>all_results := (all_results st)[idx := r], all_remaining := all_remaining st - 1\<rparr>
     in (st1, if all_remaining st1 = 0 then notify_current owner (all_waiter st1) c else c))"

definition all_await_ready :: "'a all_state \<Rightarrow> bool" where
  "all_await_ready st = (all_remaining st = 0)"

definition all_await_suspend :: "coro \<Rightarrow> 'a all_state \<Rightarrow> bool \<times> 'a all_state" where
  "all_await_suspend h st = (all_remaining st \<noteq> 0, st\<lparr>all_waiter := Some h\<rparr>)"

definition all_await_resume :: "'a all_state \<Rightarrow> 'a result list \<times> 'a all_state" where
  "all_await_resume st = (all_results st, st\<lparr>all_results := []\<rparr>)"

text \<open>
  The body up to its suspension point, in coroutine \<open>h\<close> with the handles of the racers: whether it
  suspends, and the states then. What it returns afterwards is \<open>all_await_resume\<close>.
\<close>

definition when_all ::
  "coro \<Rightarrow> handle list \<Rightarrow> ('v, 'w) core \<Rightarrow> bool \<times> 'a all_state \<times> ('v, 'w) core" where
  "when_all h racers c =
     (let st = \<lparr>all_remaining = word_of_nat (length racers),
                all_results = replicate (length racers) (Err make_cancelled_error), all_waiter = None\<rparr>;
          c1 = fold spawn racers c
      in if all_await_ready st then (False, st, c1)
         else let (b, st1) = all_await_suspend h st in (b, st1, c1))"

section \<open>when_any\<close>

record 'a any_state =
  any_resolved :: bool
  any_remaining :: u64
  any_result :: "'a result"
  any_waiter :: handle
  any_sources :: "stop_token list"

definition when_any_racer ::
  "('v, 'w) sys \<Rightarrow> bool \<Rightarrow> 'a result \<Rightarrow> 'a any_state \<times> ('v, 'w) core \<Rightarrow> 'a any_state \<times> ('v, 'w) core" where
  "when_any_racer sys owner r = (\<lambda>(st, c).
     let st1 = st\<lparr>any_remaining := any_remaining st - 1\<rparr>;
         last = (any_remaining st1 = 0)
     in if \<not> any_resolved st1 \<and> (is_ok r \<or> last)
        then let st2 = st1\<lparr>any_resolved := True, any_result := r\<rparr>;
                 c1 = fold (core_request_stop sys owner) (any_sources st2) c
             in (st2, notify_current owner (any_waiter st2) c1)
        else (st1, c))"

definition any_await_ready :: "'a any_state \<Rightarrow> bool" where
  "any_await_ready st = any_resolved st"

definition any_await_suspend :: "coro \<Rightarrow> 'a any_state \<Rightarrow> bool \<times> 'a any_state" where
  "any_await_suspend h st = (\<not> any_resolved st, st\<lparr>any_waiter := Some h\<rparr>)"

text \<open>\<open>leave\<close> is what a move of the result leaves behind in the place it was moved from.\<close>

definition any_await_resume :: "('a result \<Rightarrow> 'a result) \<Rightarrow> 'a any_state \<Rightarrow> 'a result \<times> 'a any_state" where
  "any_await_resume leave st = (any_result st, st\<lparr>any_result := leave (any_result st)\<rparr>)"

definition when_any_spawn ::
  "handle \<times> handle \<Rightarrow> 'a any_state \<times> ('v, 'w) core \<Rightarrow> 'a any_state \<times> ('v, 'w) core" where
  "when_any_spawn = (\<lambda>(task, racer) (st, c).
     let (src, ss) = new_stop_source (stops c);
         c1 = c\<lparr>stops := ss, frames := task_set_cancellation src task (frames c)\<rparr>
     in (st\<lparr>any_sources := any_sources st @ [src]\<rparr>, spawn racer c1))"

text \<open>
  The body up to its suspension point, with the handles of each task and its racer; for no tasks it
  returns at once (the left side). What it returns afterwards is \<open>when_any_return\<close>: the value of the
  \<open>co_await\<close> expression is dropped and the result moved out of the state once more.
\<close>

definition when_any ::
  "coro \<Rightarrow> (handle \<times> handle) list \<Rightarrow> ('v, 'w) core \<Rightarrow> 'a result + bool \<times> 'a any_state \<times> ('v, 'w) core" where
  "when_any h tasks c =
     (if tasks = [] then Inl (Err make_cancelled_error)
      else let st = \<lparr>any_resolved = False, any_remaining = word_of_nat (length tasks),
                     any_result = Err make_cancelled_error, any_waiter = None, any_sources = []\<rparr>;
               (st1, c1) = fold when_any_spawn tasks (st, c)
           in Inr (if any_await_ready st1 then (False, st1, c1)
                   else let (b, st2) = any_await_suspend h st1 in (b, st2, c1)))"

definition when_any_return :: "('a result \<Rightarrow> 'a result) \<Rightarrow> 'a any_state \<Rightarrow> 'a result" where
  "when_any_return leave st =
     (let (_, st1) = any_await_resume leave st in any_result st1)"

section \<open>timeout\<close>

record 'a timeout_state =
  to_resolved :: bool
  to_result :: "'a result"
  to_waiter :: handle

text \<open>The racers, from where what they await has completed; the sources are those the loser listens to.\<close>

definition timeout_settle ::
  "('v, 'w) sys \<Rightarrow> bool \<Rightarrow> stop_token \<Rightarrow> 'a result \<Rightarrow> 'a timeout_state \<times> ('v, 'w) core \<Rightarrow> 'a timeout_state \<times> ('v, 'w) core" where
  "timeout_settle sys owner src r = (\<lambda>(st, c).
     if \<not> to_resolved st
     then let st1 = st\<lparr>to_resolved := True, to_result := r\<rparr>
          in (st1, notify_current owner (to_waiter st1) (core_request_stop sys owner src c))
     else (st, c))"

definition timeout_task_racer ::
  "('v, 'w) sys \<Rightarrow> bool \<Rightarrow> stop_token \<Rightarrow> 'a result \<Rightarrow> 'a timeout_state \<times> ('v, 'w) core \<Rightarrow> 'a timeout_state \<times> ('v, 'w) core" where
  "timeout_task_racer sys owner timer_src r = timeout_settle sys owner timer_src r"

definition timeout_timer_racer ::
  "('v, 'w) sys \<Rightarrow> bool \<Rightarrow> stop_token \<Rightarrow> unit result \<Rightarrow> 'a timeout_state \<times> ('v, 'w) core \<Rightarrow> 'a timeout_state \<times> ('v, 'w) core" where
  "timeout_timer_racer sys owner task_src slept s =
     (if \<not> is_ok slept then s else timeout_settle sys owner task_src (Err make_timed_out_error) s)"

definition to_await_ready :: "'a timeout_state \<Rightarrow> bool" where
  "to_await_ready st = to_resolved st"

definition to_await_suspend :: "coro \<Rightarrow> 'a timeout_state \<Rightarrow> bool \<times> 'a timeout_state" where
  "to_await_suspend h st = (\<not> to_resolved st, st\<lparr>to_waiter := Some h\<rparr>)"

definition to_await_resume :: "('a result \<Rightarrow> 'a result) \<Rightarrow> 'a timeout_state \<Rightarrow> 'a result \<times> 'a timeout_state" where
  "to_await_resume leave st = (to_result st, st\<lparr>to_result := leave (to_result st)\<rparr>)"

text \<open>
  The body up to its suspension point, with the handles of the task and of the two racers; it also
  gives the sources \<open>task_src\<close> and \<open>timer_src\<close> that the racers hold.
\<close>

definition timeout ::
  "coro \<Rightarrow> handle \<Rightarrow> handle \<Rightarrow> handle \<Rightarrow> ('v, 'w) core \<Rightarrow>
     bool \<times> stop_token \<times> stop_token \<times> 'a timeout_state \<times> ('v, 'w) core" where
  "timeout h task task_racer timer_racer c =
     (let st = \<lparr>to_resolved = False, to_result = Err make_cancelled_error, to_waiter = None\<rparr>;
          (task_src, ss1) = new_stop_source (stops c);
          (timer_src, ss2) = new_stop_source ss1;
          fs1 = task_set_cancellation task_src task (frames c);
          fs2 = task_set_cancellation timer_src timer_racer fs1;
          c1 = spawn timer_racer (spawn task_racer (c\<lparr>stops := ss2, frames := fs2\<rparr>))
      in if to_await_ready st then (False, task_src, timer_src, st, c1)
         else let (b, st1) = to_await_suspend h st in (b, task_src, timer_src, st1, c1))"

definition timeout_return :: "('a result \<Rightarrow> 'a result) \<Rightarrow> 'a timeout_state \<Rightarrow> 'a result" where
  "timeout_return leave st =
     (let (_, st1) = to_await_resume leave st in to_result st1)"

end
