(* ===== verification/Race_Properties.thy ===== *)
theory Race_Properties
  imports Combinators Awaiter_Properties
begin

text \<open>
  The concurrent combinators. After the combinator has suspended in coroutine \<open>h\<close>, its racers finish in
  any order, each in one piece, and the core does other things in between: resumes, polls, fires timers,
  spawns. \<open>Other g\<close> is such an activity; the hypotheses on it are that it does not queue \<open>h\<close>, which nothing
  but the combinator knows, and that stop requests stay made.
\<close>

section \<open>Activities and the queue\<close>

definition queued :: "coro \<Rightarrow> ('v, 'w) core \<Rightarrow> nat" where
  "queued h c = count_list (ready_queue c) (Some h)"

fun cb_handle :: "cancel_cb \<Rightarrow> handle" where
  "cb_handle (CancelIo fd dir s h) = h"
| "cb_handle (CancelTimed fd dir s h tid) = h"
| "cb_handle (CancelSleep s h tid) = h"

definition unknown_to_cbs :: "coro \<Rightarrow> ('v, 'w) core \<Rightarrow> bool" where
  "unknown_to_cbs h c \<longleftrightarrow> (\<forall>i. \<forall>cb\<in>set (callbacks (stops c) i). cb_handle cb \<noteq> Some h)"

definition calm :: "coro \<Rightarrow> (('v, 'w) core \<Rightarrow> ('v, 'w) core) \<Rightarrow> bool" where
  "calm h g \<longleftrightarrow> (\<forall>c. unknown_to_cbs h c \<longrightarrow>
     unknown_to_cbs h (g c) \<and> queued h (g c) = queued h c \<and>
     (\<forall>t. stop_requested t (stops c) \<longrightarrow> stop_requested t (stops (g c))))"

lemma calmD:
  assumes "calm h g" "unknown_to_cbs h c"
  shows "unknown_to_cbs h (g c)" "queued h (g c) = queued h c"
    "stop_requested t (stops c) \<Longrightarrow> stop_requested t (stops (g c))"
  using assms by (auto simp: calm_def)

lemma notify_current_simps [simp]:
  "queued h (notify_current owner x c) = queued h c + (if owner \<and> x = Some h then 1 else 0)"
  "stops (notify_current owner x c) = stops c"
  by (auto simp: notify_current_def notify_def queued_def)

lemma queued_stops [simp]: "queued h (c\<lparr>stops := st\<rparr>) = queued h c"
  by (simp add: queued_def)

lemma unknown_notify [simp]: "unknown_to_cbs h (notify_current owner x c) = unknown_to_cbs h c"
  by (simp add: unknown_to_cbs_def)

lemma core_helper_simps [simp]:
  "ready_queue (set_wait_state s v c) = ready_queue c" "stops (set_wait_state s v c) = stops c"
  "ready_queue (core_deregister sys fd dir c) = ready_queue c" "stops (core_deregister sys fd dir c) = stops c"
  "ready_queue (core_cancel_timer tid c) = ready_queue c" "stops (core_cancel_timer tid c) = stops c"
  by (simp_all add: set_wait_state_def core_deregister_def core_cancel_timer_def Let_def split: prod.split)

lemma run_callback_calm:
  "stops (run_callback sys owner cb c) = stops c"
  "cb_handle cb \<noteq> Some h \<Longrightarrow> queued h (run_callback sys owner cb c) = queued h c"
  by (cases cb; auto simp: cancel_io_wait_def cancel_timed_wait_def cancel_sleep_def queued_def notify_current_def
      notify_def Let_def split: option.split)+

lemma run_callbacks_calm:
  "stops (fold (run_callback sys owner) cbs c) = stops c"
  "(\<forall>cb\<in>set cbs. cb_handle cb \<noteq> Some h) \<Longrightarrow> queued h (fold (run_callback sys owner) cbs c) = queued h c"
  by (induction cbs arbitrary: c) (simp_all add: run_callback_calm)

lemma core_request_stop_calm: "calm h (core_request_stop sys owner src)"
proof -
  have "unknown_to_cbs h (core_request_stop sys owner src c) \<and> queued h (core_request_stop sys owner src c) = queued h c \<and>
      (stop_requested t (stops c) \<longrightarrow> stop_requested t (stops (core_request_stop sys owner src c)))"
    if u: "unknown_to_cbs h c" for c :: "('a, 'b) core" and t
  proof -
    obtain cbs st where r: "source_request_stop src (stops c) = (cbs, st)" by fastforce
    have "\<forall>cb\<in>set cbs. cb_handle cb \<noteq> Some h" "unknown_to_cbs h (c\<lparr>stops := st\<rparr>)"
      "stop_requested t (stops c) \<longrightarrow> stop_requested t st"
      using u r by (auto simp: source_request_stop_def unknown_to_cbs_def stop_requested_def split: option.splits if_splits)
    then show ?thesis
      by (simp add: core_request_stop_def r run_callbacks_calm unknown_to_cbs_def)
  qed
  then show ?thesis unfolding calm_def by blast
qed

lemma core_request_stop_requested: "stop_possible src \<Longrightarrow> stop_requested src (stops (core_request_stop sys owner src c))"
  by (auto simp: core_request_stop_def run_callbacks_calm source_request_stop_def stop_requested_def stop_possible_def
      split: option.split prod.split)

lemma calm_fold: "(\<forall>x\<in>set xs. calm h (f x)) \<Longrightarrow> calm h (fold f xs)"
proof (induction xs)
  case (Cons x xs)
  then have "calm h (f x)" "calm h (fold f xs)" by simp_all
  then show ?case unfolding calm_def fold_simps by (metis (no_types, lifting))
qed (simp add: calm_def)

lemma request_all_stopped:
  assumes "\<forall>s\<in>set srcs. stop_possible s" "unknown_to_cbs h c" "s \<in> set srcs"
  shows "stop_requested s (stops (fold (core_request_stop sys owner) srcs c))"
  using assms
proof (induction srcs arbitrary: c)
  case (Cons x srcs)
  have u: "unknown_to_cbs h (core_request_stop sys owner x c)"
    using calmD(1) [OF core_request_stop_calm Cons.prems(2)] .
  show ?case
  proof (cases "s = x")
    case True
    have "stop_requested s (stops (core_request_stop sys owner x c))"
      using Cons.prems(1) True by (simp add: core_request_stop_requested)
    moreover have "calm h (fold (core_request_stop sys owner) srcs)"
      by (rule calm_fold) (simp add: core_request_stop_calm)
    ultimately show ?thesis using calmD(3) [OF _ u] by simp
  qed (use Cons u in simp)
qed simp

section \<open>when_all\<close>

datatype ('a, 'v, 'w) race_ev = Finish nat "'a result" | Other "('v, 'w) core \<Rightarrow> ('v, 'w) core"

fun all_step :: "bool \<Rightarrow> ('a, 'v, 'w) race_ev \<Rightarrow> 'a all_state \<times> ('v, 'w) core \<Rightarrow> 'a all_state \<times> ('v, 'w) core" where
  "all_step owner (Finish i r) s = when_all_racer owner i r s"
| "all_step owner (Other g) s = (fst s, g (snd s))"

fun finish_of :: "('a, 'v, 'w) race_ev \<Rightarrow> (nat \<times> 'a result) list" where
  "finish_of (Finish i r) = [(i, r)]"
| "finish_of (Other g) = []"

definition finishes :: "('a, 'v, 'w) race_ev list \<Rightarrow> (nat \<times> 'a result) list" where
  "finishes evs = concat (map finish_of evs)"

fun calm_ev :: "coro \<Rightarrow> ('a, 'v, 'w) race_ev \<Rightarrow> bool" where
  "calm_ev h (Finish i r) = True"
| "calm_ev h (Other g) = calm h g"

lemma finishes_simps [simp]: "finishes [] = []" "finishes (evs @ [e]) = finishes evs @ finish_of e"
  by (simp_all add: finishes_def)

text \<open>What the results hold while the racers \<open>fin\<close> of \<open>n\<close> have finished.\<close>

definition collected :: "nat \<Rightarrow> (nat \<times> 'a result) list \<Rightarrow> 'a result list" where
  "collected n fin = map (\<lambda>i. case map_of fin i of None \<Rightarrow> Err make_cancelled_error | Some r \<Rightarrow> r) [0..<n]"

lemma collected_Nil [simp]: "collected n [] = replicate n (Err make_cancelled_error)"
  by (simp add: collected_def map_replicate_const)

lemma collected_snoc:
  "i \<notin> fst ` set fin \<Longrightarrow> (collected n fin)[i := r] = collected n (fin @ [(i, r)])"
  by (rule nth_equalityI) (auto simp: collected_def nth_list_update map_add_def dest!: map_of_SomeD split: option.split, force)

lemma distinct_indices_length:
  assumes "distinct (map fst fin)" "\<forall>p\<in>set fin. fst p < n"
  shows "length fin \<le> n"
proof -
  have "length fin = card (fst ` set fin)" using distinct_card [OF assms(1)] by simp
  also have "\<dots> \<le> card {..<n}" by (rule card_mono) (use assms(2) in auto)
  finally show ?thesis by simp
qed

lemma when_all_run:
  assumes "distinct (map fst (finishes evs))" "\<forall>p\<in>set (finishes evs). fst p < n" "\<forall>e\<in>set evs. calm_ev h e"
    and "0 < n" "n < 2 ^ 64" "unknown_to_cbs h c"
    and "st = \<lparr>all_remaining = word_of_nat n, all_results = collected n [], all_waiter = Some h\<rparr>"
    and "fold (all_step True) evs (st, c) = (st', c')"
  shows "unat (all_remaining st') = n - length (finishes evs) \<and> all_results st' = collected n (finishes evs) \<and>
    all_waiter st' = Some h \<and> unknown_to_cbs h c' \<and> queued h c' = queued h c + (if length (finishes evs) = n then 1 else 0)"
  using assms(1-3,8)
proof (induction evs arbitrary: st' c' rule: rev_induct)
  case Nil
  then have "st' = st" "c' = c" by simp_all
  then show ?case using assms(4-7) by (simp add: unat_of_nat)
next
  case (snoc e evs)
  obtain s1 c1 where p: "fold (all_step True) evs (st, c) = (s1, c1)" by fastforce
  have ih: "unat (all_remaining s1) = n - length (finishes evs)" "all_results s1 = collected n (finishes evs)"
    "all_waiter s1 = Some h" "unknown_to_cbs h c1" "queued h c1 = queued h c + (if length (finishes evs) = n then 1 else 0)"
    using snoc.IH [OF _ _ _ p] snoc.prems(1-3) by auto
  show ?case
  proof (cases e)
    case (Finish i r)
    have "length (finishes evs @ [(i, r)]) \<le> n"
      by (rule distinct_indices_length) (use snoc.prems(1,2) Finish in auto)
    then have lt: "length (finishes evs) < n" by simp
    then have nz: "all_remaining s1 \<noteq> 0" using ih(1) by auto
    then have u: "unat (all_remaining s1 - 1) = n - Suc (length (finishes evs))"
      using ih(1) by (simp add: unat_minus_one)
    then have z: "all_remaining s1 - 1 = 0 \<longleftrightarrow> Suc (length (finishes evs)) = n"
      using lt by (metis Suc_leI diff_is_0_eq le_antisym unat_eq_0 order_refl)
    have "i \<notin> fst ` set (finishes evs)" using snoc.prems(1) Finish by auto
    then show ?thesis
      using snoc.prems(4) p Finish ih u z lt
      by (auto simp: when_all_racer_def Let_def collected_snoc)
  next
    case (Other g)
    then show ?thesis using snoc.prems(3,4) p ih calmD [of h g c1] by auto
  qed
qed

lemma fold_spawn [simp]:
  "ready_queue (fold spawn hs c) = ready_queue c @ hs" "owned_tasks (fold spawn hs c) = owned_tasks c @ hs"
  "stops (fold spawn hs c) = stops c"
  by (induction hs arbitrary: c) (simp_all add: spawn_def enqueue_def)


lemma calm_spawn: "x \<noteq> Some h \<Longrightarrow> calm h (spawn x)"
  by (simp add: calm_def spawn_def enqueue_def unknown_to_cbs_def queued_def)

lemma sim_core_unknown [simp]: "unknown_to_cbs h (sim_core [])" "queued h (sim_core []) = 0"
  by (simp_all add: unknown_to_cbs_def queued_def sim_core_def)


section \<open>when_any\<close>

fun any_step :: "('v, 'w) sys \<Rightarrow> bool \<Rightarrow> ('a, 'v, 'w) race_ev \<Rightarrow> 'a any_state \<times> ('v, 'w) core \<Rightarrow> 'a any_state \<times> ('v, 'w) core" where
  "any_step sys owner (Finish i r) s = when_any_racer sys owner r s"
| "any_step sys owner (Other g) s = (fst s, g (snd s))"

text \<open>The outcome of racers that finished with \<open>rs\<close>, in this order, out of \<open>n\<close>: the first success, or the last error of all.\<close>

definition first_success :: "nat \<Rightarrow> 'a result list \<Rightarrow> 'a result option" where
  "first_success n rs = (case find is_ok rs of Some r \<Rightarrow> Some r | None \<Rightarrow> if length rs = n then Some (last rs) else None)"

lemma first_success_snoc:
  assumes "length rs < n"
  shows "first_success n (rs @ [r]) = (case first_success n rs of
     Some x \<Rightarrow> Some x | None \<Rightarrow> if is_ok r \<or> Suc (length rs) = n then Some r else None)"
proof -
  have "find is_ok (rs @ [r]) = (case find is_ok rs of Some x \<Rightarrow> Some x | None \<Rightarrow> if is_ok r then Some r else None)"
    by (induction rs) auto
  then show ?thesis using assms by (auto simp: first_success_def split: option.splits)
qed

lemma when_any_run:
  assumes "length (finishes evs) \<le> n" "\<forall>e\<in>set evs. calm_ev h e"
    and "0 < n" "n < 2 ^ 64" "unknown_to_cbs h c" "\<forall>s\<in>set srcs. stop_possible s"
    and "st = \<lparr>any_resolved = False, any_remaining = word_of_nat n, any_result = Err make_cancelled_error,
               any_waiter = Some h, any_sources = srcs\<rparr>"
    and "fold (any_step sys True) evs (st, c) = (st', c')"
  shows "unat (any_remaining st') = n - length (finishes evs) \<and> any_waiter st' = Some h \<and> any_sources st' = srcs \<and>
    unknown_to_cbs h c' \<and>
    (case first_success n (map snd (finishes evs)) of
       None \<Rightarrow> \<not> any_resolved st' \<and> queued h c' = queued h c
     | Some r \<Rightarrow> any_resolved st' \<and> any_result st' = r \<and> queued h c' = queued h c + 1 \<and>
         (\<forall>s\<in>set srcs. stop_requested s (stops c')))"
  using assms(1,2,8)
proof (induction evs arbitrary: st' c' rule: rev_induct)
  case Nil
  then have "st' = st" "c' = c" by simp_all
  then show ?case using assms(3-7) by (simp add: unat_of_nat first_success_def)
next
  case (snoc e evs)
  obtain s1 c1 where p: "fold (any_step sys True) evs (st, c) = (s1, c1)" by fastforce
  note ih = snoc.IH [OF _ _ p]
  show ?case
  proof (cases e)
    case (Finish i r)
    have ih: "unat (any_remaining s1) = n - length (finishes evs)" "any_waiter s1 = Some h" "any_sources s1 = srcs"
      "unknown_to_cbs h c1" "case first_success n (map snd (finishes evs)) of
       None \<Rightarrow> \<not> any_resolved s1 \<and> queued h c1 = queued h c
     | Some r \<Rightarrow> any_resolved s1 \<and> any_result s1 = r \<and> queued h c1 = queued h c + 1 \<and>
         (\<forall>s\<in>set srcs. stop_requested s (stops c1))"
      using ih snoc.prems(1,2) Finish by auto
    have lt: "length (finishes evs) < n" using snoc.prems(1) Finish by simp
    then have nz: "any_remaining s1 \<noteq> 0" using ih(1) by auto
    then have u: "unat (any_remaining s1 - 1) = n - Suc (length (finishes evs))"
      using ih(1) by (simp add: unat_minus_one)
    then have z: "any_remaining s1 - 1 = 0 \<longleftrightarrow> Suc (length (finishes evs)) = n"
      using lt by (metis Suc_leI diff_is_0_eq le_antisym unat_eq_0 order_refl)
    let ?c2 = "fold (core_request_stop sys True) srcs c1"
    have calm: "calm h (fold (core_request_stop sys True) srcs)" by (rule calm_fold) (simp add: core_request_stop_calm)
    note q = calmD(1,2) [OF calm ih(4)]
    have stp: "\<forall>s\<in>set srcs. stop_requested s (stops ?c2)" using request_all_stopped [OF assms(6) ih(4)] by blast
    have "(st', c') = when_any_racer sys True r (s1, c1)" using snoc.prems(3) p Finish by simp
    then show ?thesis
      using Finish ih u z q stp first_success_snoc [of "map snd (finishes evs)" n r] lt
      by (cases "first_success n (map snd (finishes evs))") (auto simp: when_any_racer_def Let_def)
  next
    case (Other g)
    then show ?thesis using snoc.prems p ih calmD [of h g c1]
      by (auto split: option.split)
  qed
qed

lemma when_any_spawn_step:
  assumes "when_any_spawn p (st, c) = (st', c')"
  shows "ready_queue c' = ready_queue c @ [snd p]" "unknown_to_cbs h c \<Longrightarrow> unknown_to_cbs h c'"
    "\<exists>src. st' = st\<lparr>any_sources := any_sources st @ [src]\<rparr> \<and> stop_possible src \<and>
       frames c' = task_set_cancellation src (fst p) (frames c)"
  using assms
  by (auto simp: when_any_spawn_def new_stop_source_def spawn_def enqueue_def unknown_to_cbs_def stop_possible_def
      split: prod.splits if_splits)

lemma when_any_spawns:
  assumes "fold when_any_spawn tasks (st, c) = (st', c')" "unknown_to_cbs h c" "\<forall>s\<in>set (any_sources st). stop_possible s"
  shows "ready_queue c' = ready_queue c @ map snd tasks \<and> unknown_to_cbs h c' \<and>
    (\<exists>srcs. st' = st\<lparr>any_sources := srcs\<rparr> \<and> length srcs = length (any_sources st) + length tasks \<and> (\<forall>s\<in>set srcs. stop_possible s))"
  using assms
proof (induction tasks arbitrary: st c)
  case Nil
  then show ?case by (auto intro!: exI [of _ "any_sources st'"])
next
  case (Cons p tasks)
  obtain s1 c1 where p: "when_any_spawn p (st, c) = (s1, c1)" by fastforce
  note l = when_any_spawn_step [OF p]
  obtain src where src: "s1 = st\<lparr>any_sources := any_sources st @ [src]\<rparr>" "stop_possible src" using l(3) by blast
  have f: "fold when_any_spawn tasks (s1, c1) = (st', c')" using Cons.prems(1) p by simp
  have "\<forall>s\<in>set (any_sources s1). stop_possible s" using src Cons.prems(3) by auto
  from Cons.IH [OF f l(2) [OF Cons.prems(2)] this] show ?case
    using l(1) src by auto
qed



section \<open>timeout\<close>

datatype ('a, 'v, 'w) timeout_ev =
    TaskDone "'a result"
  | Slept "unit result"
  | TimeoutOther "('v, 'w) core \<Rightarrow> ('v, 'w) core"

fun timeout_step :: "('v, 'w) sys \<Rightarrow> stop_token \<Rightarrow> stop_token \<Rightarrow> ('a, 'v, 'w) timeout_ev \<Rightarrow>
    'a timeout_state \<times> ('v, 'w) core \<Rightarrow> 'a timeout_state \<times> ('v, 'w) core" where
  "timeout_step sys task_src timer_src (TaskDone r) s = timeout_task_racer sys True timer_src r s"
| "timeout_step sys task_src timer_src (Slept r) s = timeout_timer_racer sys True task_src r s"
| "timeout_step sys task_src timer_src (TimeoutOther g) s = (fst s, g (snd s))"

text \<open>What an event contributes to the outcome: the result, and the source of the side that lost.\<close>

fun settling :: "stop_token \<Rightarrow> stop_token \<Rightarrow> ('a, 'v, 'w) timeout_ev \<Rightarrow> ('a result \<times> stop_token) option" where
  "settling task_src timer_src (TaskDone r) = Some (r, timer_src)"
| "settling task_src timer_src (Slept r) = (if is_ok r then Some (Err make_timed_out_error, task_src) else None)"
| "settling task_src timer_src (TimeoutOther g) = None"

definition first_settling :: "stop_token \<Rightarrow> stop_token \<Rightarrow> ('a, 'v, 'w) timeout_ev list \<Rightarrow> ('a result \<times> stop_token) option" where
  "first_settling task_src timer_src evs =
     (case List.map_filter (settling task_src timer_src) evs of [] \<Rightarrow> None | x # _ \<Rightarrow> Some x)"

fun calm_timeout_ev :: "coro \<Rightarrow> ('a, 'v, 'w) timeout_ev \<Rightarrow> bool" where
  "calm_timeout_ev h (TimeoutOther g) = calm h g"
| "calm_timeout_ev h ev = True"

lemma first_settling_simps [simp]:
  "first_settling ts ms [] = None"
  "first_settling ts ms (evs @ [e]) = (case first_settling ts ms evs of Some x \<Rightarrow> Some x | None \<Rightarrow> settling ts ms e)"
  by (simp add: first_settling_def, cases "settling ts ms e") (auto simp: first_settling_def map_filter_def split: list.split option.split)

lemma timeout_settle_calm:
  assumes "timeout_settle sys True src r (st, c) = (st', c')" "unknown_to_cbs h c" "stop_possible src" "to_waiter st = Some h"
  shows "to_waiter st' = Some h \<and> unknown_to_cbs h c' \<and>
    (if to_resolved st then st' = st \<and> c' = c
     else to_resolved st' \<and> to_result st' = r \<and> queued h c' = queued h c + 1 \<and> stop_requested src (stops c'))"
  using assms calmD [OF core_request_stop_calm [of h sys True src] assms(2)] core_request_stop_requested [OF assms(3), of sys True c]
  by (auto simp: timeout_settle_def Let_def)

lemma timeout_run:
  assumes "\<forall>e\<in>set evs. calm_timeout_ev h e" "unknown_to_cbs h c" "stop_possible ts" "stop_possible ms"
    and "st = \<lparr>to_resolved = False, to_result = Err make_cancelled_error, to_waiter = Some h\<rparr>"
    and "fold (timeout_step sys ts ms) evs (st, c) = (st', c')"
  shows "to_waiter st' = Some h \<and> unknown_to_cbs h c' \<and>
    (case first_settling ts ms evs of
       None \<Rightarrow> \<not> to_resolved st' \<and> queued h c' = queued h c
     | Some (r, src) \<Rightarrow> to_resolved st' \<and> to_result st' = r \<and> queued h c' = queued h c + 1 \<and> stop_requested src (stops c'))"
  using assms(1,6)
proof (induction evs arbitrary: st' c' rule: rev_induct)
  case Nil
  then have "st' = st" "c' = c" by simp_all
  then show ?case using assms(2,5) by simp
next
  case (snoc e evs)
  obtain s1 c1 where p: "fold (timeout_step sys ts ms) evs (st, c) = (s1, c1)" by fastforce
  have e: "timeout_step sys ts ms e (s1, c1) = (st', c')" using snoc.prems(2) p by simp
  have ih: "to_waiter s1 = Some h" "unknown_to_cbs h c1" "case first_settling ts ms evs of
       None \<Rightarrow> \<not> to_resolved s1 \<and> queued h c1 = queued h c
     | Some (r, src) \<Rightarrow> to_resolved s1 \<and> to_result s1 = r \<and> queued h c1 = queued h c + 1 \<and> stop_requested src (stops c1)"
    using snoc.IH [OF _ p] snoc.prems(1) by auto
  show ?case
  proof (cases e)
    case (TaskDone r)
    then show ?thesis
      using e ih timeout_settle_calm [of sys ms r s1 c1 st' c' h] assms(4)
      by (auto simp: timeout_task_racer_def split: option.splits if_splits)
  next
    case (Slept r)
    then show ?thesis
      using e ih timeout_settle_calm [of sys ts "Err make_timed_out_error" s1 c1 st' c' h] assms(3)
      by (auto simp: timeout_timer_racer_def split: option.splits if_splits)
  next
    case (TimeoutOther g)
    then show ?thesis
      using e ih calmD [of h g c1] snoc.prems(1) by (auto split: option.splits)
  qed
qed



end
