(* ===== verification/Stream_Io.thy ===== *)
theory Stream_Io
  imports Awaiters
begin

text \<open>
  The coroutines under a TCP stream, \<^verbatim>\<open>src/net/stream_io_ops.hpp\<close>. A coroutine runs on the core
  of its loop; where it suspends, \<open>until_resumed\<close> is everything the core does before it resumes this
  coroutine, \<open>None\<close> if it never does. The awaiters it uses are those of \<open>Awaiters\<close>. \<open>EWOULDBLOCK\<close>
  is \<open>EAGAIN\<close>. The loops may run as long as the kernel keeps refusing, so not returning is \<open>None\<close>.
\<close>

section \<open>The coroutine and its surroundings\<close>

text \<open>
  The coroutine: its handle, the addresses of the wait state and of the readiness cell in its frame, and
  the cancellation token its promise passes to what it awaits.
\<close>

record stream_co =
  co_handle :: coro
  co_state :: nat
  co_cell :: nat
  co_token :: stop_token

record ('v, 'w) stream_env =
  e_sys :: "('v, 'w) sys"
  e_read :: "'w read_call"
  e_write :: "'w write_call"
  e_sendfile :: "int \<Rightarrow> int \<Rightarrow> int \<Rightarrow> nat \<Rightarrow> 'w \<Rightarrow> (int + nat \<times> int) \<times> 'w"
  e_has_timer :: bool
  until_resumed :: "coro \<Rightarrow> ('v, 'w) core \<Rightarrow> ('v, 'w) core option"

definition suspended ::
  "('v, 'w) stream_env \<Rightarrow> coro \<Rightarrow> bool \<Rightarrow> ('v, 'w) core \<Rightarrow> ('v, 'w) core option" where
  "suspended env h b c = (if b then until_resumed env h c else Some c)"

definition await_readable ::
  "('v, 'w) stream_env \<Rightarrow> stream_co \<Rightarrow> int \<Rightarrow> ('v, 'w) core \<Rightarrow> (unit result \<times> ('v, 'w) core) option" where
  "await_readable env co fd c =
     (let (aw, c1) = read_ready_awaiter fd (co_state co) (co_cell co) c;
          (b, aw, c2) = read_ready_await_suspend (e_sys env) (co_handle co) (ready_set_cancellation (co_token co) aw) c1
      in map_option (read_ready_await_resume aw) (suspended env (co_handle co) b c2))"

definition await_writable ::
  "('v, 'w) stream_env \<Rightarrow> stream_co \<Rightarrow> int \<Rightarrow> ('v, 'w) core \<Rightarrow> (unit result \<times> ('v, 'w) core) option" where
  "await_writable env co fd c =
     (let (aw, c1) = write_ready_awaiter fd (co_state co) (co_cell co) c;
          (b, aw, c2) = write_ready_await_suspend (e_sys env) (co_handle co) (ready_set_cancellation (co_token co) aw) c1
      in map_option (write_ready_await_resume aw) (suspended env (co_handle co) b c2))"

definition await_timed ::
  "('v, 'w) stream_env \<Rightarrow> stream_co \<Rightarrow> int \<Rightarrow> direction \<Rightarrow> duration \<Rightarrow> ('v, 'w) core \<Rightarrow>
     (unit result \<times> ('v, 'w) core) option" where
  "await_timed env co fd d timeout c =
     (let (aw, c1) = timed_ready_awaiter fd d timeout (co_state co) (co_cell co) c;
          (b, aw, c2) = timed_await_suspend (e_sys env) (co_handle co) (timed_set_cancellation (co_token co) aw) c1
      in map_option (timed_await_resume (e_sys env) aw) (suspended env (co_handle co) b c2))"

definition core_now :: "('v, 'w) stream_env \<Rightarrow> ('v, 'w) core \<Rightarrow> time_point \<times> ('v, 'w) core" where
  "core_now env c = (let (t, w) = clock_now (e_sys env) (world c) in (t, c\<lparr>world := w\<rparr>))"

section \<open>Reading\<close>

partial_function (option) read_some ::
  "('v, 'w) stream_env \<Rightarrow> stream_co \<Rightarrow> int \<Rightarrow> nat \<Rightarrow> ('v, 'w) core \<Rightarrow> (u8 list result \<times> ('v, 'w) core) option" where
  "read_some env co fd len c =
     (case e_read env fd len (world c) of
        (Inr bytes, w) \<Rightarrow> Some (Ok bytes, c\<lparr>world := w\<rparr>)
      | (Inl e, w) \<Rightarrow>
          if e = EINTR then read_some env co fd len (c\<lparr>world := w\<rparr>)
          else if e = EAGAIN
          then (case await_readable env co fd (c\<lparr>world := w\<rparr>) of
                  None \<Rightarrow> None
                | Some (Inl err, c1) \<Rightarrow> Some (Err err, c1)
                | Some (Inr _, c1) \<Rightarrow> read_some env co fd len c1)
          else Some (Err (from_errno e), c\<lparr>world := w\<rparr>))"

partial_function (option) read_until ::
  "('v, 'w) stream_env \<Rightarrow> stream_co \<Rightarrow> int \<Rightarrow> nat \<Rightarrow> time_point \<Rightarrow> ('v, 'w) core \<Rightarrow>
     (u8 list result \<times> ('v, 'w) core) option" where
  "read_until env co fd len deadline c =
     (case e_read env fd len (world c) of
        (Inr bytes, w) \<Rightarrow> Some (Ok bytes, c\<lparr>world := w\<rparr>)
      | (Inl e, w) \<Rightarrow>
          if e = EINTR then read_until env co fd len deadline (c\<lparr>world := w\<rparr>)
          else if e = EAGAIN
          then (case core_now env (c\<lparr>world := w\<rparr>) of
                  (now, c1) \<Rightarrow>
                    if deadline \<le> now then Some (Err (make_error ETIMEDOUT ''read timeout''), c1)
                    else (case await_timed env co fd DirRead (deadline - now) c1 of
                            None \<Rightarrow> None
                          | Some (Inl err, c2) \<Rightarrow> Some (Err err, c2)
                          | Some (Inr _, c2) \<Rightarrow> read_until env co fd len deadline c2))
          else Some (Err (from_errno e), c\<lparr>world := w\<rparr>))"

definition read_some_with_timeout ::
  "('v, 'w) stream_env \<Rightarrow> stream_co \<Rightarrow> int \<Rightarrow> nat \<Rightarrow> duration \<Rightarrow> ('v, 'w) core \<Rightarrow>
     (u8 list result \<times> ('v, 'w) core) option" where
  "read_some_with_timeout env co fd len timeout c =
     (if timeout \<le> 0 then read_some env co fd len c
      else if \<not> e_has_timer env
      then Some (Err (make_error EPERM ''read_with_timeout requires event loop timer''), c)
      else let (now, c1) = core_now env c in read_until env co fd len (now + timeout) c1)"

section \<open>Writing\<close>

partial_function (option) write_some ::
  "('v, 'w) stream_env \<Rightarrow> stream_co \<Rightarrow> int \<Rightarrow> u8 list \<Rightarrow> ('v, 'w) core \<Rightarrow> (nat result \<times> ('v, 'w) core) option" where
  "write_some env co fd buf c =
     (case e_write env fd buf (world c) of
        (Inr n, w) \<Rightarrow> Some (Ok n, c\<lparr>world := w\<rparr>)
      | (Inl e, w) \<Rightarrow>
          if e = EINTR then write_some env co fd buf (c\<lparr>world := w\<rparr>)
          else if e = EAGAIN
          then (case await_writable env co fd (c\<lparr>world := w\<rparr>) of
                  None \<Rightarrow> None
                | Some (Inl err, c1) \<Rightarrow> Some (Err err, c1)
                | Some (Inr _, c1) \<Rightarrow> write_some env co fd buf c1)
          else Some (Err (from_errno e), c\<lparr>world := w\<rparr>))"

partial_function (option) write_until ::
  "('v, 'w) stream_env \<Rightarrow> stream_co \<Rightarrow> int \<Rightarrow> u8 list \<Rightarrow> time_point \<Rightarrow> ('v, 'w) core \<Rightarrow>
     (nat result \<times> ('v, 'w) core) option" where
  "write_until env co fd buf deadline c =
     (case e_write env fd buf (world c) of
        (Inr n, w) \<Rightarrow> Some (Ok n, c\<lparr>world := w\<rparr>)
      | (Inl e, w) \<Rightarrow>
          if e = EINTR then write_until env co fd buf deadline (c\<lparr>world := w\<rparr>)
          else if e = EAGAIN
          then (case core_now env (c\<lparr>world := w\<rparr>) of
                  (now, c1) \<Rightarrow>
                    if deadline \<le> now then Some (Err (make_error ETIMEDOUT ''write timeout''), c1)
                    else (case await_timed env co fd DirWrite (deadline - now) c1 of
                            None \<Rightarrow> None
                          | Some (Inl err, c2) \<Rightarrow> Some (Err err, c2)
                          | Some (Inr _, c2) \<Rightarrow> write_until env co fd buf deadline c2))
          else Some (Err (from_errno e), c\<lparr>world := w\<rparr>))"

definition write_some_with_timeout ::
  "('v, 'w) stream_env \<Rightarrow> stream_co \<Rightarrow> int \<Rightarrow> u8 list \<Rightarrow> duration \<Rightarrow> ('v, 'w) core \<Rightarrow>
     (nat result \<times> ('v, 'w) core) option" where
  "write_some_with_timeout env co fd buf timeout c =
     (if timeout \<le> 0 then write_some env co fd buf c
      else if \<not> e_has_timer env
      then Some (Err (make_error EPERM ''write_with_timeout requires event loop timer''), c)
      else let (now, c1) = core_now env c in write_until env co fd buf (now + timeout) c1)"

partial_function (option) write_all_from ::
  "('v, 'w) stream_env \<Rightarrow> stream_co \<Rightarrow> int \<Rightarrow> u8 list \<Rightarrow> nat \<Rightarrow> ('v, 'w) core \<Rightarrow> (nat result \<times> ('v, 'w) core) option" where
  "write_all_from env co fd buf tot c =
     (if tot < length buf
      then (case write_some env co fd (drop tot buf) c of
              None \<Rightarrow> None
            | Some (Inl e, c1) \<Rightarrow> Some (Err e, c1)
            | Some (Inr n, c1) \<Rightarrow>
                if n = 0 then Some (Err (make_error EPIPE ''write_all: connection closed''), c1)
                else write_all_from env co fd buf (tot + n) c1)
      else Some (Ok tot, c))"

definition write_all ::
  "('v, 'w) stream_env \<Rightarrow> stream_co \<Rightarrow> int \<Rightarrow> u8 list \<Rightarrow> ('v, 'w) core \<Rightarrow> (nat result \<times> ('v, 'w) core) option" where
  "write_all env co fd buf c = write_all_from env co fd buf 0 c"

partial_function (option) write_all_until ::
  "('v, 'w) stream_env \<Rightarrow> stream_co \<Rightarrow> int \<Rightarrow> u8 list \<Rightarrow> time_point \<Rightarrow> nat \<Rightarrow> ('v, 'w) core \<Rightarrow>
     (nat result \<times> ('v, 'w) core) option" where
  "write_all_until env co fd buf deadline tot c =
     (if tot < length buf
      then (case core_now env c of
              (now, c1) \<Rightarrow>
                if deadline \<le> now then Some (Err (make_error ETIMEDOUT ''write_all timeout''), c1)
                else (case write_some_with_timeout env co fd (drop tot buf) (deadline - now) c1 of
                        None \<Rightarrow> None
                      | Some (Inl e, c2) \<Rightarrow> Some (Err e, c2)
                      | Some (Inr n, c2) \<Rightarrow>
                          if n = 0
                          then Some (Err (make_error EPIPE ''write_all_with_timeout: connection closed''), c2)
                          else write_all_until env co fd buf deadline (tot + n) c2))
      else Some (Ok tot, c))"

definition write_all_with_timeout ::
  "('v, 'w) stream_env \<Rightarrow> stream_co \<Rightarrow> int \<Rightarrow> u8 list \<Rightarrow> duration \<Rightarrow> ('v, 'w) core \<Rightarrow>
     (nat result \<times> ('v, 'w) core) option" where
  "write_all_with_timeout env co fd buf timeout c =
     (if timeout \<le> 0 then write_all env co fd buf c
      else let (now, c1) = core_now env c in write_all_until env co fd buf (now + timeout) 0 c1)"

section \<open>Sending files\<close>

text \<open>The offset is passed by reference: it is an argument and part of the result.\<close>

partial_function (option) send_file_some ::
  "('v, 'w) stream_env \<Rightarrow> stream_co \<Rightarrow> int \<Rightarrow> int \<Rightarrow> int \<Rightarrow> nat \<Rightarrow> ('v, 'w) core \<Rightarrow>
     (nat result \<times> int \<times> ('v, 'w) core) option" where
  "send_file_some env co fd in_fd offset cnt c =
     (case e_sendfile env fd in_fd offset cnt (world c) of
        (Inr (n, offset1), w) \<Rightarrow> Some (Ok n, offset1, c\<lparr>world := w\<rparr>)
      | (Inl e, w) \<Rightarrow>
          if e = EINTR then send_file_some env co fd in_fd offset cnt (c\<lparr>world := w\<rparr>)
          else if e = EAGAIN
          then (case await_writable env co fd (c\<lparr>world := w\<rparr>) of
                  None \<Rightarrow> None
                | Some (Inl err, c1) \<Rightarrow> Some (Err err, offset, c1)
                | Some (Inr _, c1) \<Rightarrow> send_file_some env co fd in_fd offset cnt c1)
          else Some (Err (from_errno e), offset, c\<lparr>world := w\<rparr>))"

partial_function (option) send_file_until ::
  "('v, 'w) stream_env \<Rightarrow> stream_co \<Rightarrow> int \<Rightarrow> int \<Rightarrow> int \<Rightarrow> nat \<Rightarrow> time_point \<Rightarrow> ('v, 'w) core \<Rightarrow>
     (nat result \<times> int \<times> ('v, 'w) core) option" where
  "send_file_until env co fd in_fd offset cnt deadline c =
     (case e_sendfile env fd in_fd offset cnt (world c) of
        (Inr (n, offset1), w) \<Rightarrow> Some (Ok n, offset1, c\<lparr>world := w\<rparr>)
      | (Inl e, w) \<Rightarrow>
          if e = EINTR then send_file_until env co fd in_fd offset cnt deadline (c\<lparr>world := w\<rparr>)
          else if e = EAGAIN
          then (case core_now env (c\<lparr>world := w\<rparr>) of
                  (now, c1) \<Rightarrow>
                    if deadline \<le> now then Some (Err (make_error ETIMEDOUT ''sendfile timeout''), offset, c1)
                    else (case await_timed env co fd DirWrite (deadline - now) c1 of
                            None \<Rightarrow> None
                          | Some (Inl err, c2) \<Rightarrow> Some (Err err, offset, c2)
                          | Some (Inr _, c2) \<Rightarrow> send_file_until env co fd in_fd offset cnt deadline c2))
          else Some (Err (from_errno e), offset, c\<lparr>world := w\<rparr>))"

definition send_file_some_with_timeout ::
  "('v, 'w) stream_env \<Rightarrow> stream_co \<Rightarrow> int \<Rightarrow> int \<Rightarrow> int \<Rightarrow> nat \<Rightarrow> duration \<Rightarrow> ('v, 'w) core \<Rightarrow>
     (nat result \<times> int \<times> ('v, 'w) core) option" where
  "send_file_some_with_timeout env co fd in_fd offset cnt timeout c =
     (if timeout \<le> 0 then send_file_some env co fd in_fd offset cnt c
      else if \<not> e_has_timer env
      then Some (Err (make_error EPERM ''send_file_with_timeout requires event loop timer''), offset, c)
      else let (now, c1) = core_now env c in send_file_until env co fd in_fd offset cnt (now + timeout) c1)"

partial_function (option) send_file_all_from ::
  "('v, 'w) stream_env \<Rightarrow> stream_co \<Rightarrow> int \<Rightarrow> int \<Rightarrow> int \<Rightarrow> nat \<Rightarrow> duration \<Rightarrow> time_point \<Rightarrow> nat \<Rightarrow> ('v, 'w) core \<Rightarrow>
     (nat result \<times> ('v, 'w) core) option" where
  "send_file_all_from env co fd in_fd offset cnt timeout deadline tot c =
     (if tot < cnt
      then if 0 < timeout
      then (case core_now env c of
              (now, c1) \<Rightarrow>
                if deadline \<le> now then Some (Err (make_error ETIMEDOUT ''sendfile timeout''), c1)
                else (case send_file_some_with_timeout env co fd in_fd offset (cnt - tot) (deadline - now) c1 of
                        None \<Rightarrow> None
                      | Some (Inl e, _, c2) \<Rightarrow> Some (Err e, c2)
                      | Some (Inr n, offset1, c2) \<Rightarrow>
                          if n = 0
                          then Some (Err (make_error EIO ''sendfile reached EOF before requested byte count''), c2)
                          else send_file_all_from env co fd in_fd offset1 cnt timeout deadline (tot + n) c2))
      else (case send_file_some env co fd in_fd offset (cnt - tot) c of
              None \<Rightarrow> None
            | Some (Inl e, _, c2) \<Rightarrow> Some (Err e, c2)
            | Some (Inr n, offset1, c2) \<Rightarrow>
                if n = 0
                then Some (Err (make_error EIO ''sendfile reached EOF before requested byte count''), c2)
                else send_file_all_from env co fd in_fd offset1 cnt timeout deadline (tot + n) c2)
      else Some (Ok tot, c))"

definition send_file_all_with_timeout ::
  "('v, 'w) stream_env \<Rightarrow> stream_co \<Rightarrow> int \<Rightarrow> int \<Rightarrow> int \<Rightarrow> nat \<Rightarrow> duration \<Rightarrow> ('v, 'w) core \<Rightarrow>
     (nat result \<times> ('v, 'w) core) option" where
  "send_file_all_with_timeout env co fd in_fd offset cnt timeout c =
     (let (now, c1) = core_now env c in send_file_all_from env co fd in_fd offset cnt timeout (now + timeout) 0 c1)"

end
