(* ===== verification/Address.thy ===== *)
theory Address
  imports Core
begin

text \<open>
  Socket addresses, \<^verbatim>\<open>src/net/address.hpp\<close>. A \<open>sockaddr_storage\<close> is its 128 bytes, laid out as on
  Linux on a little-endian machine: the family in bytes 0 and 1, the port in network order in bytes 2 and 3,
  an IPv4 address in bytes 4 to 7, an IPv6 address in bytes 8 to 23. \<open>inet_pton\<close> and \<open>inet_ntop\<close> are
  parameters: the bytes a text stands for, and the text of an address.
\<close>

section \<open>Bytes\<close>

type_synonym storage = "u8 list"

definition storage_size :: nat where
  "storage_size = 128"

definition AF_INET :: u16 where "AF_INET = 2"
definition AF_INET6 :: u16 where "AF_INET6 = 10"

definition htons :: "u16 \<Rightarrow> u16" where
  "htons x = (push_bit 8 x) OR (drop_bit 8 x)"

definition ntohs :: "u16 \<Rightarrow> u16" where
  "ntohs x = (push_bit 8 x) OR (drop_bit 8 x)"

definition store16 :: "nat \<Rightarrow> u16 \<Rightarrow> storage \<Rightarrow> storage" where
  "store16 i x s = s[i := ucast x, Suc i := ucast (drop_bit 8 x)]"

definition load16 :: "nat \<Rightarrow> storage \<Rightarrow> u16" where
  "load16 i s = (ucast (s ! i)) OR (push_bit 8 (ucast (s ! Suc i)))"

definition store_bytes :: "nat \<Rightarrow> u8 list \<Rightarrow> storage \<Rightarrow> storage" where
  "store_bytes i bs s = take i s @ bs @ drop (i + length bs) s"

definition load_bytes :: "nat \<Rightarrow> nat \<Rightarrow> storage \<Rightarrow> u8 list" where
  "load_bytes i n s = take n (drop i s)"

text \<open>\<open>htonl\<close> followed by a store on a little-endian machine: the most significant byte first.\<close>

definition network_bytes32 :: "u32 \<Rightarrow> u8 list" where
  "network_bytes32 x = [ucast (drop_bit 24 x), ucast (drop_bit 16 x), ucast (drop_bit 8 x), ucast x]"

section \<open>Construction\<close>

definition zero_storage :: storage where
  "zero_storage = replicate storage_size 0"

definition c_str :: "string \<Rightarrow> string" where
  "c_str s = takeWhile (\<lambda>ch. ch \<noteq> CHR 0x00) s"

definition from_ipv4 :: "(string \<Rightarrow> u8 list option) \<Rightarrow> string \<Rightarrow> u16 \<Rightarrow> storage result" where
  "from_ipv4 inet_pton ip port =
     (let addr = store16 2 (htons port) (store16 0 AF_INET zero_storage)
      in case inet_pton (c_str ip) of
           None \<Rightarrow> Err (make_error EINVAL (''invalid IPv4 address: '' @ ip))
         | Some bs \<Rightarrow> Ok (store_bytes 4 bs addr))"

definition from_ipv6 :: "(string \<Rightarrow> u8 list option) \<Rightarrow> string \<Rightarrow> u16 \<Rightarrow> storage result" where
  "from_ipv6 inet_pton6 ip port =
     (let addr = store16 2 (htons port) (store16 0 AF_INET6 zero_storage)
      in case inet_pton6 (c_str ip) of
           None \<Rightarrow> Err (make_error EINVAL (''invalid IPv6 address: '' @ ip))
         | Some bs \<Rightarrow> Ok (store_bytes 8 bs addr))"

definition INADDR_ANY :: u32 where "INADDR_ANY = 0"
definition INADDR_LOOPBACK :: u32 where "INADDR_LOOPBACK = 0x7F000001"

definition addr_any :: "u16 \<Rightarrow> storage" where
  "addr_any port = store_bytes 4 (network_bytes32 INADDR_ANY) (store16 2 (htons port) (store16 0 AF_INET zero_storage))"

definition addr_loopback :: "u16 \<Rightarrow> storage" where
  "addr_loopback port =
     store_bytes 4 (network_bytes32 INADDR_LOOPBACK) (store16 2 (htons port) (store16 0 AF_INET zero_storage))"

definition from_raw :: "storage \<Rightarrow> u32 \<Rightarrow> storage" where
  "from_raw raw len = (let n = min (unat len) storage_size in take n raw @ drop n zero_storage)"

section \<open>Access\<close>

definition addr_family :: "storage \<Rightarrow> u16" where
  "addr_family a = load16 0 a"

definition addr_port :: "storage \<Rightarrow> u16" where
  "addr_port a =
     (if addr_family a = AF_INET then ntohs (load16 2 a)
      else if addr_family a = AF_INET6 then ntohs (load16 2 a)
      else 0)"

text \<open>\<open>inet_ntop\<close> of both families, from the bytes of the address.\<close>

definition ip_string :: "(u8 list \<Rightarrow> string) \<Rightarrow> (u8 list \<Rightarrow> string) \<Rightarrow> storage \<Rightarrow> string" where
  "ip_string ntop ntop6 a =
     (if addr_family a = AF_INET then ntop (load_bytes 4 4 a)
      else if addr_family a = AF_INET6 then ntop6 (load_bytes 8 16 a)
      else [])"

text \<open>The decimal text of a number, as \<open>std::format\<close> writes an integer.\<close>

definition digit :: "nat \<Rightarrow> char" where
  "digit d = char_of (48 + d)"

fun decimal :: "nat \<Rightarrow> string" where
  "decimal n = (if n < 10 then [digit n] else decimal (n div 10) @ [digit (n mod 10)])"

declare decimal.simps [simp del]

definition addr_to_string :: "(u8 list \<Rightarrow> string) \<Rightarrow> (u8 list \<Rightarrow> string) \<Rightarrow> storage \<Rightarrow> string" where
  "addr_to_string ntop ntop6 a =
     (if addr_family a = AF_INET6 then ''['' @ ip_string ntop ntop6 a @ '']:'' @ decimal (unat (addr_port a))
      else ip_string ntop ntop6 a @ '':'' @ decimal (unat (addr_port a)))"

definition sockaddr_len :: "storage \<Rightarrow> u32" where
  "sockaddr_len a = (if addr_family a = AF_INET6 then 28 else 16)"

definition addr_eq :: "(u8 list \<Rightarrow> string) \<Rightarrow> (u8 list \<Rightarrow> string) \<Rightarrow> storage \<Rightarrow> storage \<Rightarrow> bool" where
  "addr_eq ntop ntop6 a b \<longleftrightarrow> addr_family a = addr_family b \<and> addr_port a = addr_port b \<and>
     ip_string ntop ntop6 a = ip_string ntop ntop6 b"

section \<open>Byte order\<close>

lemma load_store16 [simp]:
  assumes "Suc i < length s"
  shows "load16 i (store16 i x s) = x"
proof -
  have "(ucast (ucast x :: u8)) OR (push_bit 8 (ucast (ucast (drop_bit 8 x) :: u8))) = x"
    by (rule bit_word_eqI) (auto simp: bit_simps)
  with assms show ?thesis by (simp add: load16_def store16_def)
qed

lemma load_store16_other [simp]: "i < j \<Longrightarrow> Suc i < j \<Longrightarrow> load16 i (store16 j x s) = load16 i s"
  by (simp add: load16_def store16_def)

lemma load16_store_bytes [simp]: "Suc i < j \<Longrightarrow> j \<le> length s \<Longrightarrow> load16 i (store_bytes j bs s) = load16 i s"
  by (simp add: load16_def store_bytes_def nth_append)

lemma length_stores [simp]:
  "length (store16 i x s) = length s" "i + length bs \<le> length s \<Longrightarrow> length (store_bytes i bs s) = length s"
  "length zero_storage = 128"
  by (simp_all add: store16_def store_bytes_def zero_storage_def storage_size_def)

lemma load_store_bytes [simp]:
  "i \<le> length s \<Longrightarrow> n = length bs \<Longrightarrow> load_bytes i n (store_bytes i bs s) = bs"
  by (simp add: load_bytes_def store_bytes_def)

lemma ntohs_htons [simp]: "ntohs (htons x) = x"
  unfolding ntohs_def htons_def by (rule bit_word_eqI) (auto simp: bit_simps)

lemma families [simp]: "AF_INET \<noteq> AF_INET6" "AF_INET6 \<noteq> AF_INET"
  by (simp_all add: AF_INET_def AF_INET6_def)

text \<open>Only the first bytes of an address count: those its family uses.\<close>

lemma addr_eq_prefix:
  assumes "length a = 128" "length b = 128" "take (unat (sockaddr_len a)) a = take (unat (sockaddr_len a)) b"
  shows "addr_eq ntop ntop6 b a"
proof -
  have le: "16 \<le> unat (sockaddr_len a)" by (simp add: sockaddr_len_def)
  have nth: "a ! i = b ! i" if "i < unat (sockaddr_len a)" for i
    using arg_cong [OF assms(3), of "\<lambda>xs. xs ! i"] that by simp
  then have h: "load16 0 b = load16 0 a" "load16 2 b = load16 2 a"
    using le by (simp_all add: load16_def)
  have v4: "load_bytes 4 4 b = load_bytes 4 4 a"
    by (rule nth_equalityI) (use assms(1,2) nth le in \<open>auto simp: load_bytes_def\<close>)
  have v6: "load_bytes 8 16 b = load_bytes 8 16 a" if "addr_family a = AF_INET6"
    by (rule nth_equalityI) (use assms(1,2) nth that in \<open>auto simp: load_bytes_def sockaddr_len_def\<close>)
  show ?thesis using h v4 v6 by (auto simp: addr_eq_def addr_family_def addr_port_def ip_string_def)
qed

section \<open>Properties\<close>

definition addr_wf :: "storage \<Rightarrow> bool" where
  "addr_wf a \<longleftrightarrow> length a = storage_size"

text \<open>What \<open>inet_pton\<close> promises: 4 bytes for an IPv4 text, 16 for an IPv6 text.\<close>

definition pton_law :: "(string \<Rightarrow> u8 list option) \<Rightarrow> (string \<Rightarrow> u8 list option) \<Rightarrow> bool" where
  "pton_law pton pton6 \<longleftrightarrow> (\<forall>t bs. pton t = Some bs \<longrightarrow> length bs = 4) \<and> (\<forall>t bs. pton6 t = Some bs \<longrightarrow> length bs = 16)"

lemma from_raw_wf: "addr_wf raw \<Longrightarrow> addr_wf (from_raw raw len)"
  by (simp add: addr_wf_def from_raw_def Let_def storage_size_def zero_storage_def min_def)


definition sim_pton :: "string \<Rightarrow> u8 list option" where
  "sim_pton t = (if t = ''127.0.0.1'' then Some [127, 0, 0, 1] else None)"

definition sim_pton6 :: "string \<Rightarrow> u8 list option" where
  "sim_pton6 t = (if t = ''::1'' then Some (replicate 15 0 @ [1]) else None)"

lemma sim_pton_law: "pton_law sim_pton sim_pton6"
  by (simp add: pton_law_def sim_pton_def sim_pton6_def)




end
