(* ===== verification/Tcp.thy ===== *)
theory Tcp
  imports Stream_Io Address
begin

text \<open>
  TCP sockets: \<^verbatim>\<open>src/net/socket_fd_ops.hpp\<close>, \<^verbatim>\<open>src/net/listener_socket_ops.hpp\<close>,
  \<^verbatim>\<open>src/net/accept_awaiter.hpp\<close>, \<^verbatim>\<open>src/net/tcp_stream.hpp\<close>, \<^verbatim>\<open>src/net/tcp_listener.hpp\<close>
  and \<^verbatim>\<open>src/net/listen_options.hpp\<close>. The system calls act on the world of the core; each answers an
  error number or its result.
\<close>

record 'w sock_calls =
  sk_socket :: "u16 \<Rightarrow> 'w \<Rightarrow> (int + int) \<times> 'w"
  sk_setsockopt :: "int \<Rightarrow> int \<Rightarrow> int \<Rightarrow> int \<Rightarrow> 'w \<Rightarrow> int option \<times> 'w"
  sk_bind :: "int \<Rightarrow> storage \<Rightarrow> u32 \<Rightarrow> 'w \<Rightarrow> int option \<times> 'w"
  sk_listen :: "int \<Rightarrow> int \<Rightarrow> 'w \<Rightarrow> int option \<times> 'w"
  sk_connect :: "int \<Rightarrow> storage \<Rightarrow> u32 \<Rightarrow> 'w \<Rightarrow> int option \<times> 'w"
  sk_accept4 :: "int \<Rightarrow> 'w \<Rightarrow> (int + int \<times> storage \<times> u32) \<times> 'w"
  sk_getpeername :: "int \<Rightarrow> 'w \<Rightarrow> (int + storage \<times> u32) \<times> 'w"
  sk_getsockname :: "int \<Rightarrow> 'w \<Rightarrow> (int + storage \<times> u32) \<times> 'w"
  sk_shutdown :: "int \<Rightarrow> int \<Rightarrow> 'w \<Rightarrow> int option \<times> 'w"
  sk_getfl :: "int \<Rightarrow> 'w \<Rightarrow> (int + u32) \<times> 'w"
  sk_setfl :: "int \<Rightarrow> u32 \<Rightarrow> 'w \<Rightarrow> int option \<times> 'w"
  sk_so_error :: "int \<Rightarrow> 'w \<Rightarrow> (int + int) \<times> 'w"
  sk_close :: "int \<Rightarrow> 'w \<Rightarrow> int option \<times> 'w"

text \<open>Constants of Linux.\<close>

definition O_NONBLOCK :: u32 where "O_NONBLOCK = 0x800"
definition SOL_SOCKET :: int where "SOL_SOCKET = 1"
definition SO_REUSEADDR :: int where "SO_REUSEADDR = 2"
definition SO_KEEPALIVE :: int where "SO_KEEPALIVE = 9"
definition SO_REUSEPORT :: int where "SO_REUSEPORT = 15"
definition IPPROTO_TCP :: int where "IPPROTO_TCP = 6"
definition TCP_NODELAY :: int where "TCP_NODELAY = 1"

text \<open>A call that only succeeds or fails, as a result.\<close>

definition checked :: "int option \<times> 'w \<Rightarrow> unit result \<times> 'w" where
  "checked = (\<lambda>(r, w). (case r of Some e \<Rightarrow> Err (from_errno e) | None \<Rightarrow> Ok (), w))"

section \<open>Operations on a descriptor (net/socket_fd_ops.hpp)\<close>

definition ensure_nonblocking :: "'w sock_calls \<Rightarrow> int \<Rightarrow> 'w \<Rightarrow> unit result \<times> 'w" where
  "ensure_nonblocking calls fd w =
     (case sk_getfl calls fd w of
        (Inl e, w1) \<Rightarrow> (Err (from_errno e), w1)
      | (Inr flags, w1) \<Rightarrow>
          if flags AND O_NONBLOCK = 0 then checked (sk_setfl calls fd (flags OR O_NONBLOCK) w1) else (Ok (), w1))"

definition set_nodelay :: "'w sock_calls \<Rightarrow> int \<Rightarrow> bool \<Rightarrow> 'w \<Rightarrow> unit result \<times> 'w" where
  "set_nodelay calls fd enable w =
     checked (sk_setsockopt calls fd IPPROTO_TCP TCP_NODELAY (if enable then 1 else 0) w)"

definition set_keepalive :: "'w sock_calls \<Rightarrow> int \<Rightarrow> bool \<Rightarrow> 'w \<Rightarrow> unit result \<times> 'w" where
  "set_keepalive calls fd enable w =
     checked (sk_setsockopt calls fd SOL_SOCKET SO_KEEPALIVE (if enable then 1 else 0) w)"

definition peer_address :: "'w sock_calls \<Rightarrow> int \<Rightarrow> 'w \<Rightarrow> storage result \<times> 'w" where
  "peer_address calls fd w =
     (case sk_getpeername calls fd w of
        (Inl e, w1) \<Rightarrow> (Err (from_errno e), w1)
      | (Inr (st, len), w1) \<Rightarrow> (Ok (from_raw st len), w1))"

definition local_address :: "'w sock_calls \<Rightarrow> int \<Rightarrow> 'w \<Rightarrow> storage result \<times> 'w" where
  "local_address calls fd w =
     (case sk_getsockname calls fd w of
        (Inl e, w1) \<Rightarrow> (Err (from_errno e), w1)
      | (Inr (st, len), w1) \<Rightarrow> (Ok (from_raw st len), w1))"

definition shutdown_socket :: "'w sock_calls \<Rightarrow> int \<Rightarrow> int \<Rightarrow> 'w \<Rightarrow> unit result \<times> 'w" where
  "shutdown_socket calls fd how w = checked (sk_shutdown calls fd how w)"

definition core_remove :: "('v, 'w) sys \<Rightarrow> int \<Rightarrow> ('v, 'w) core \<Rightarrow> unit result \<times> ('v, 'w) core" where
  "core_remove sys fd c =
     (let (res, r, w) = reactor_remove (epoll_ctl sys) fd (l_reactor c) (world c) in (res, c\<lparr>l_reactor := r, world := w\<rparr>))"

text \<open>The descriptor is passed by reference; \<open>bound\<close> says that the reactor pointer is not null.\<close>

definition socket_close_fd ::
  "('v, 'w) sys \<Rightarrow> 'w sock_calls \<Rightarrow> bool \<Rightarrow> int \<Rightarrow> ('v, 'w) core \<Rightarrow> unit result \<times> int \<times> ('v, 'w) core" where
  "socket_close_fd sys calls bound fd c =
     (if fd < 0 then (Ok (), fd, c)
      else let (removed, c1) = (if bound then core_remove sys fd c else (Ok (), c));
               (closed, w) = checked (sk_close calls fd (world c1))
           in (case removed of Inl e \<Rightarrow> Err e | Inr _ \<Rightarrow> closed, -1, c1\<lparr>world := w\<rparr>))"

section \<open>Listening sockets (net/listener_socket_ops.hpp)\<close>

record listen_options =
  backlog :: u32
  reuse_addr :: bool
  reuse_port :: bool

definition default_listen_options :: listen_options where
  "default_listen_options = \<lparr>backlog = 128, reuse_addr = True, reuse_port = True\<rparr>"

text \<open>A step of the set-up: after an error the descriptor is closed.\<close>

definition or_close ::
  "'w sock_calls \<Rightarrow> int \<Rightarrow> int option \<times> 'w \<Rightarrow> ('w \<Rightarrow> int result \<times> 'w) \<Rightarrow> int result \<times> 'w" where
  "or_close calls fd call_result k =
     (case call_result of
        (Some e, w) \<Rightarrow> (Err (from_errno e), snd (sk_close calls fd w))
      | (None, w) \<Rightarrow> k w)"

definition bind_listener_socket :: "'w sock_calls \<Rightarrow> storage \<Rightarrow> listen_options \<Rightarrow> 'w \<Rightarrow> int result \<times> 'w" where
  "bind_listener_socket calls addr opts w =
     (case sk_socket calls (addr_family addr) w of
        (Inl e, w1) \<Rightarrow> (Err (from_errno e), w1)
      | (Inr fd, w1) \<Rightarrow>
          or_close calls fd (if reuse_addr opts then sk_setsockopt calls fd SOL_SOCKET SO_REUSEADDR 1 w1 else (None, w1)) (\<lambda>w2.
          or_close calls fd (if reuse_port opts then sk_setsockopt calls fd SOL_SOCKET SO_REUSEPORT 1 w2 else (None, w2)) (\<lambda>w3.
          or_close calls fd (sk_bind calls fd addr (sockaddr_len addr) w3) (\<lambda>w4.
          or_close calls fd (sk_listen calls fd (sint (backlog opts)) w4) (\<lambda>w5. (Ok fd, w5))))))"

section \<open>Accepting (net/accept_awaiter.hpp)\<close>

record accept_awaiter =
  ac_listen_fd :: int
  ac_eager_fd :: int
  ac_eager_peer :: storage
  ac_eager_len :: u32
  ac_handle :: handle
  ac_state :: nat
  ac_readiness :: nat
  ac_token :: stop_token

definition new_accept_awaiter :: "int \<Rightarrow> nat \<Rightarrow> nat \<Rightarrow> ('v, 'w) core \<Rightarrow> accept_awaiter \<times> ('v, 'w) core" where
  "new_accept_awaiter listen_fd s q c =
     (\<lparr>ac_listen_fd = listen_fd, ac_eager_fd = -1, ac_eager_peer = zero_storage, ac_eager_len = 0, ac_handle = None,
       ac_state = s, ac_readiness = q, ac_token = None\<rparr>,
      set_result q (Err (make_error ECANCELED ''accept not completed'')) (set_wait_state s Pending c))"

definition accept_set_cancellation :: "stop_token \<Rightarrow> accept_awaiter \<Rightarrow> accept_awaiter" where
  "accept_set_cancellation tok aw = aw\<lparr>ac_token := tok\<rparr>"

definition accept_await_ready ::
  "'w sock_calls \<Rightarrow> accept_awaiter \<Rightarrow> ('v, 'w) core \<Rightarrow> bool \<times> accept_awaiter \<times> ('v, 'w) core" where
  "accept_await_ready calls aw c =
     (case sk_accept4 calls (ac_listen_fd aw) (world c) of
        (Inr (fd, peer, len), w) \<Rightarrow>
          (True, aw\<lparr>ac_eager_fd := fd, ac_eager_peer := peer, ac_eager_len := len\<rparr>, c\<lparr>world := w\<rparr>)
      | (Inl _, w) \<Rightarrow> (False, aw, c\<lparr>world := w\<rparr>))"

definition accept_await_suspend ::
  "('v, 'w) sys \<Rightarrow> coro \<Rightarrow> accept_awaiter \<Rightarrow> ('v, 'w) core \<Rightarrow> bool \<times> accept_awaiter \<times> ('v, 'w) core" where
  "accept_await_suspend sys h aw c =
     (let aw = aw\<lparr>ac_handle := Some h\<rparr>
      in case core_register sys IoRead (ac_listen_fd aw) (Some h) (ac_readiness aw) (ac_state aw) c of
           (Inl e, c1) \<Rightarrow> (False, aw, set_result (ac_readiness aw) (Err e) c1)
         | (Inr _, c1) \<Rightarrow>
             (True, aw, install_cb sys (ac_token aw) (CancelIo (ac_listen_fd aw) IoRead (ac_state aw) (ac_handle aw)) c1))"

definition accept_await_resume ::
  "'w sock_calls \<Rightarrow> accept_awaiter \<Rightarrow> ('v, 'w) core \<Rightarrow> (int \<times> storage) result \<times> ('v, 'w) core" where
  "accept_await_resume calls aw c =
     (let c = reset_cb (ac_token aw) (CancelIo (ac_listen_fd aw) IoRead (ac_state aw) (ac_handle aw)) c
      in if 0 \<le> ac_eager_fd aw
         then (Ok (ac_eager_fd aw, from_raw (ac_eager_peer aw) (ac_eager_len aw)), c)
         else if wstate (cells c) (ac_state aw) = Cancelled
         then (Err (make_error ECANCELED ''accept cancelled (graceful shutdown)''), c)
         else case results (cells c) (ac_readiness aw) of
                Inl e \<Rightarrow> (Err e, c)
              | Inr _ \<Rightarrow>
                  (case sk_accept4 calls (ac_listen_fd aw) (world c) of
                     (Inl e, w) \<Rightarrow> (Err (from_errno e), c\<lparr>world := w\<rparr>)
                   | (Inr (fd, peer, len), w) \<Rightarrow> (Ok (fd, from_raw peer len), c\<lparr>world := w\<rparr>)))"

definition await_accept ::
  "('v, 'w) stream_env \<Rightarrow> 'w sock_calls \<Rightarrow> stream_co \<Rightarrow> int \<Rightarrow> ('v, 'w) core \<Rightarrow>
     ((int \<times> storage) result \<times> ('v, 'w) core) option" where
  "await_accept env calls co listen_fd c =
     (let (aw, c1) = new_accept_awaiter listen_fd (co_state co) (co_cell co) c;
          (is_ready, aw, c2) = accept_await_ready calls (accept_set_cancellation (co_token co) aw) c1
      in if is_ready then Some (accept_await_resume calls aw c2)
         else let (b, aw, c3) = accept_await_suspend (e_sys env) (co_handle co) aw c2
              in map_option (accept_await_resume calls aw) (suspended env (co_handle co) b c3))"

section \<open>Streams (net/tcp_stream.hpp)\<close>

text \<open>A \<open>TcpStream\<close> and a \<open>TcpListener\<close> have the same members: descriptor and reactor pointer.\<close>

record tcp_socket =
  so_fd :: int
  so_bound :: bool

definition tcp_move :: "tcp_socket \<Rightarrow> tcp_socket \<times> tcp_socket" where
  "tcp_move other = (other, other\<lparr>so_fd := -1\<rparr>)"

definition tcp_close ::
  "('v, 'w) sys \<Rightarrow> 'w sock_calls \<Rightarrow> tcp_socket \<Rightarrow> ('v, 'w) core \<Rightarrow> unit result \<times> tcp_socket \<times> ('v, 'w) core" where
  "tcp_close sys calls s c =
     (let (res, fd, c1) = socket_close_fd sys calls (so_bound s) (so_fd s) c in (res, s\<lparr>so_fd := fd\<rparr>, c1))"

definition tcp_move_assign ::
  "('v, 'w) sys \<Rightarrow> 'w sock_calls \<Rightarrow> tcp_socket \<Rightarrow> tcp_socket \<Rightarrow> ('v, 'w) core \<Rightarrow>
     tcp_socket \<times> tcp_socket \<times> ('v, 'w) core" where
  "tcp_move_assign sys calls s other c = (let (_, _, c1) = tcp_close sys calls s c in (other, other\<lparr>so_fd := -1\<rparr>, c1))"

definition tcp_destroy :: "('v, 'w) sys \<Rightarrow> 'w sock_calls \<Rightarrow> tcp_socket \<Rightarrow> ('v, 'w) core \<Rightarrow> ('v, 'w) core" where
  "tcp_destroy sys calls s c = snd (snd (tcp_close sys calls s c))"

definition tcp_from_fd :: "'w sock_calls \<Rightarrow> int \<Rightarrow> 'w \<Rightarrow> tcp_socket result \<times> 'w" where
  "tcp_from_fd calls fd w =
     (case ensure_nonblocking calls fd w of
        (Inl e, w1) \<Rightarrow> (Err e, w1)
      | (Inr _, w1) \<Rightarrow> (Ok \<lparr>so_fd = fd, so_bound = True\<rparr>, w1))"

definition await_connect ::
  "('v, 'w) stream_env \<Rightarrow> 'w sock_calls \<Rightarrow> stream_co \<Rightarrow> int \<Rightarrow> ('v, 'w) core \<Rightarrow> (unit result \<times> ('v, 'w) core) option" where
  "await_connect env calls co fd c =
     (let (aw, c1) = connect_awaiter fd (co_state co) (co_cell co) c;
          (b, aw, c2) = connect_await_suspend (e_sys env) (co_handle co) (ready_set_cancellation (co_token co) aw) c1
      in map_option (connect_await_resume (sk_so_error calls) aw) (suspended env (co_handle co) b c2))"

definition tcp_connect ::
  "('v, 'w) stream_env \<Rightarrow> 'w sock_calls \<Rightarrow> stream_co \<Rightarrow> storage \<Rightarrow> ('v, 'w) core \<Rightarrow>
     (tcp_socket result \<times> ('v, 'w) core) option" where
  "tcp_connect env calls co addr c =
     (case sk_socket calls (addr_family addr) (world c) of
        (Inl e, w) \<Rightarrow> Some (Err (from_errno e), c\<lparr>world := w\<rparr>)
      | (Inr fd, w) \<Rightarrow>
          (case sk_connect calls fd addr (sockaddr_len addr) w of
             (None, w1) \<Rightarrow>
               (case tcp_from_fd calls fd w1 of
                  (Inl e, w2) \<Rightarrow> Some (Err e, c\<lparr>world := snd (sk_close calls fd w2)\<rparr>)
                | (Inr s, w2) \<Rightarrow> Some (Ok s, c\<lparr>world := w2\<rparr>))
           | (Some e, w1) \<Rightarrow>
               if e \<noteq> EINPROGRESS then Some (Err (from_errno e), c\<lparr>world := snd (sk_close calls fd w1)\<rparr>)
               else (case await_connect env calls co fd (c\<lparr>world := w1\<rparr>) of
                       None \<Rightarrow> None
                     | Some (Inl err, c1) \<Rightarrow>
                         (let c2 = snd (core_remove (e_sys env) fd c1)
                          in Some (Err err, c2\<lparr>world := snd (sk_close calls fd (world c2))\<rparr>))
                     | Some (Inr _, c1) \<Rightarrow> Some (Ok \<lparr>so_fd = fd, so_bound = True\<rparr>, c1))))"

text \<open>The public operations forward to the coroutines of \<open>Stream_Io\<close> with the descriptor of the stream.\<close>

definition tcp_read where "tcp_read env co s len c = read_some env co (so_fd s) len c"
definition tcp_read_with_timeout where
  "tcp_read_with_timeout env co s len timeout c = read_some_with_timeout env co (so_fd s) len timeout c"
definition tcp_write where "tcp_write env co s buf c = write_some env co (so_fd s) buf c"
definition tcp_write_with_timeout where
  "tcp_write_with_timeout env co s buf timeout c = write_some_with_timeout env co (so_fd s) buf timeout c"
definition tcp_write_all where "tcp_write_all env co s buf c = write_all env co (so_fd s) buf c"
definition tcp_write_all_with_timeout where
  "tcp_write_all_with_timeout env co s buf timeout c = write_all_with_timeout env co (so_fd s) buf timeout c"
definition tcp_send_file where
  "tcp_send_file env co s in_fd offset cnt c = send_file_some env co (so_fd s) in_fd offset cnt c"
definition tcp_send_file_with_timeout where
  "tcp_send_file_with_timeout env co s in_fd offset cnt timeout c =
     send_file_some_with_timeout env co (so_fd s) in_fd offset cnt timeout c"
definition tcp_send_file_all_with_timeout where
  "tcp_send_file_all_with_timeout env co s in_fd offset cnt timeout c =
     send_file_all_with_timeout env co (so_fd s) in_fd offset cnt timeout c"

definition tcp_set_nodelay where "tcp_set_nodelay calls s enable w = set_nodelay calls (so_fd s) enable w"
definition tcp_set_keepalive where "tcp_set_keepalive calls s enable w = set_keepalive calls (so_fd s) enable w"
definition tcp_peer_address where "tcp_peer_address calls s w = peer_address calls (so_fd s) w"
definition tcp_local_address where "tcp_local_address calls s w = local_address calls (so_fd s) w"
definition tcp_shutdown where "tcp_shutdown calls s how w = shutdown_socket calls (so_fd s) how w"

definition tcp_valid :: "tcp_socket \<Rightarrow> bool" where
  "tcp_valid s = (0 \<le> so_fd s)"

section \<open>Listeners (net/tcp_listener.hpp)\<close>

definition listener_bind ::
  "'w sock_calls \<Rightarrow> storage \<Rightarrow> listen_options \<Rightarrow> ('v, 'w) core \<Rightarrow> tcp_socket result \<times> ('v, 'w) core" where
  "listener_bind calls addr opts c =
     (case bind_listener_socket calls addr opts (world c) of
        (Inl e, w) \<Rightarrow> (Err e, c\<lparr>world := w\<rparr>)
      | (Inr fd, w) \<Rightarrow> (Ok \<lparr>so_fd = fd, so_bound = True\<rparr>, c\<lparr>world := w\<rparr>))"

definition listener_accept ::
  "('v, 'w) stream_env \<Rightarrow> 'w sock_calls \<Rightarrow> stream_co \<Rightarrow> tcp_socket \<Rightarrow> ('v, 'w) core \<Rightarrow>
     ((tcp_socket \<times> storage) result \<times> ('v, 'w) core) option" where
  "listener_accept env calls co l c =
     (case await_accept env calls co (so_fd l) c of
        None \<Rightarrow> None
      | Some (Inl e, c1) \<Rightarrow> Some (Err e, c1)
      | Some (Inr (conn_fd, peer_addr), c1) \<Rightarrow>
          (case tcp_from_fd calls conn_fd (world c1) of
             (Inl e, w) \<Rightarrow> Some (Err e, c1\<lparr>world := snd (sk_close calls conn_fd w)\<rparr>)
           | (Inr s, w) \<Rightarrow> Some (Ok (s, peer_addr), c1\<lparr>world := w\<rparr>)))"

text \<open>A listener is moved, closed and destroyed as a stream is; the members are the same.\<close>

definition listener_move :: "tcp_socket \<Rightarrow> tcp_socket \<times> tcp_socket" where
  "listener_move other = (other, other\<lparr>so_fd := -1\<rparr>)"

definition listener_close ::
  "('v, 'w) sys \<Rightarrow> 'w sock_calls \<Rightarrow> tcp_socket \<Rightarrow> ('v, 'w) core \<Rightarrow> unit result \<times> tcp_socket \<times> ('v, 'w) core" where
  "listener_close sys calls l c =
     (let (res, fd, c1) = socket_close_fd sys calls (so_bound l) (so_fd l) c in (res, l\<lparr>so_fd := fd\<rparr>, c1))"

definition listener_move_assign ::
  "('v, 'w) sys \<Rightarrow> 'w sock_calls \<Rightarrow> tcp_socket \<Rightarrow> tcp_socket \<Rightarrow> ('v, 'w) core \<Rightarrow>
     tcp_socket \<times> tcp_socket \<times> ('v, 'w) core" where
  "listener_move_assign sys calls l other c =
     (let (_, _, c1) = listener_close sys calls l c in (other, other\<lparr>so_fd := -1\<rparr>, c1))"

definition listener_destroy :: "('v, 'w) sys \<Rightarrow> 'w sock_calls \<Rightarrow> tcp_socket \<Rightarrow> ('v, 'w) core \<Rightarrow> ('v, 'w) core" where
  "listener_destroy sys calls l c = snd (snd (listener_close sys calls l c))"

definition listener_local_address where "listener_local_address calls l w = local_address calls (so_fd l) w"

definition listener_valid :: "tcp_socket \<Rightarrow> bool" where
  "listener_valid l = (0 \<le> so_fd l)"

end
