(* ===== verification/Stream_Properties.thy ===== *)
theory Stream_Properties
  imports Stream_Io Awaiter_Properties
begin

text \<open>
  Writing to a stream delivers. What a peer can observe of a socket is \<open>sent\<close>, the bytes the kernel has
  accepted for it; \<open>patience\<close> bounds how often the kernel still refuses (\<open>EINTR\<close>, \<open>EAGAIN\<close>). The
  waiting itself (registering with the reactor, timers, cancellation) touches neither.
\<close>

section \<open>Waiting leaves the socket alone\<close>

definition unaffected :: "('v, 'w) sys \<Rightarrow> ('w \<Rightarrow> 'b) \<Rightarrow> bool" where
  "unaffected sys obs \<longleftrightarrow> (\<forall>ep op fd ev w. obs (snd (epoll_ctl sys ep op fd ev w)) = obs w)"

lemma unaffectedD: "unaffected sys obs \<Longrightarrow> epoll_ctl sys ep op fd ev w = (r, w') \<Longrightarrow> obs w' = obs w"
  unfolding unaffected_def by (metis snd_conv)

lemma ensure_unaffected: "unaffected sys obs \<Longrightarrow> obs (snd (ensure (epoll_ctl sys) fd ev r k)) = obs k"
  by (auto simp: ensure_def Let_def split: prod.splits option.splits) (metis unaffectedD)+

lemma register_unaffected:
  assumes "unaffected sys obs"
  shows "register_read (epoll_ctl sys) fd h q s v r k = (res, r', k') \<Longrightarrow> obs k' = obs k"
    and "register_write (epoll_ctl sys) fd h q s v r k = (res, r', k') \<Longrightarrow> obs k' = obs k"
  using ensure_unaffected [OF assms]
  by (auto simp: register_read_def register_write_def Let_def split: prod.splits sum.splits if_splits option.splits)
    (metis snd_conv)+

lemma deregister_unaffected:
  assumes "unaffected sys obs" "deregister_dir (epoll_ctl sys) fd dir r k = (r', k')"
  shows "obs k' = obs k"
  using assms ensure_unaffected [OF assms(1)]
  by (auto simp: deregister_dir_def rearm_or_erase_def Let_def split: prod.splits if_splits)

lemma core_deregister_unaffected:
  "unaffected sys obs \<Longrightarrow> obs (world (core_deregister sys fd dir c)) = obs (world c)"
  by (auto simp: core_deregister_def Let_def dest: deregister_unaffected split: prod.split)

lemma core_register_unaffected:
  "unaffected sys obs \<Longrightarrow> core_register sys dir fd h q s c = (res, c') \<Longrightarrow> obs (world c') = obs (world c)"
  by (auto simp: core_register_def Let_def dest: register_unaffected split: prod.splits if_splits)

lemma core_world_simps [simp]:
  "world (set_wait_state s v c) = world c" "world (core_cancel_timer tid c) = world c"
  "world (notify_current owner h c) = world c" "world (set_result q r c) = world c" "world (reset_cb tok cb c) = world c"
  by (simp_all add: set_wait_state_def core_cancel_timer_def notify_current_def notify_def set_result_def reset_cb_def)

lemma run_callback_unaffected:
  "unaffected sys obs \<Longrightarrow> obs (world (run_callback sys owner cb c)) = obs (world c)"
  by (cases cb) (auto simp: cancel_io_wait_def cancel_timed_wait_def cancel_sleep_def core_deregister_unaffected Let_def
      split: option.split)

lemma install_cb_unaffected:
  assumes "unaffected sys obs"
  shows "obs (world (install_cb sys tok cb c)) = obs (world c)"
proof -
  have "obs (world (fold (run_callback sys True) cbs d)) = obs (world d)" for cbs d
    by (induction cbs arbitrary: d) (simp_all add: run_callback_unaffected [OF assms])
  then show ?thesis by (simp add: install_cb_def Let_def split: prod.split)
qed

lemma suspend_ready_unaffected:
  "unaffected sys obs \<Longrightarrow> suspend_ready sys dir h aw c = (b, aw', c') \<Longrightarrow> obs (world c') = obs (world c)"
  by (auto simp: suspend_ready_def Let_def install_cb_unaffected dest: core_register_unaffected split: prod.splits sum.splits)

lemma timed_suspend_unaffected:
  assumes u: "unaffected sys obs" and s: "timed_await_suspend sys h aw c = (b, aw', c')"
  shows "obs (world c') = obs (world c)"
proof (cases "ta_timeout aw \<le> 0")
  case True
  then show ?thesis using s by (auto simp: timed_await_suspend_def)
next
  case False
  obtain tid t where p: "schedule (ta_timeout aw) (Some h) (Some (ta_state aw)) TimedOut (l_timer c) = (tid, t)" by fastforce
  obtain res c1 where g: "core_register sys (dir_event (ta_direction aw)) (ta_fd aw) (Some h) (ta_readiness aw) (ta_state aw)
      (c\<lparr>l_timer := t\<rparr>) = (res, c1)" by fastforce
  then have "obs (world c1) = obs (world c)" using core_register_unaffected [OF u g] by simp
  then show ?thesis
    using s False p g by (cases res) (auto simp: timed_await_suspend_def Let_def install_cb_unaffected [OF u])
qed

lemma resume_unaffected:
  "resume_ready_wait dir aw c = (r, c') \<Longrightarrow> world c' = world c"
  "unaffected sys obs \<Longrightarrow> timed_await_resume sys taw c = (r, c') \<Longrightarrow> obs (world c') = obs (world c)"
  by (auto simp: resume_ready_wait_def timed_await_resume_def Let_def core_deregister_unaffected split: if_splits sum.splits)

section \<open>The kernel's side of a socket\<close>

definition socket_law :: "('v, 'w) stream_env \<Rightarrow> int \<Rightarrow> ('w \<Rightarrow> u8 list) \<Rightarrow> ('w \<Rightarrow> nat) \<Rightarrow> bool" where
  "socket_law env fd sent patience \<longleftrightarrow>
     unaffected (e_sys env) (\<lambda>w. (sent w, patience w)) \<and>
     (\<forall>w. sent (snd (clock_now (e_sys env) w)) = sent w \<and> patience (snd (clock_now (e_sys env) w)) = patience w) \<and>
     (\<forall>h c. \<exists>c'. until_resumed env h c = Some c' \<and> sent (world c') = sent (world c) \<and> patience (world c') \<le> patience (world c)) \<and>
     (\<forall>buf w r w'. e_write env fd buf w = (r, w') \<longrightarrow>
        patience w' \<le> patience w \<and> (r = Inl EINTR \<or> r = Inl EAGAIN \<longrightarrow> patience w' < patience w) \<and>
        (case r of Inl _ \<Rightarrow> sent w' = sent w | Inr n \<Rightarrow> n \<le> length buf \<and> sent w' = sent w @ take n buf))"

lemma socket_lawD:
  assumes "socket_law env fd sent patience"
  shows "unaffected (e_sys env) (\<lambda>w. (sent w, patience w))"
    "core_now env c = (t, c1) \<Longrightarrow> sent (world c1) = sent (world c) \<and> patience (world c1) = patience (world c)"
    "\<exists>c'. until_resumed env h c = Some c' \<and> sent (world c') = sent (world c) \<and> patience (world c') \<le> patience (world c)"
    "e_write env fd buf w = (r, w') \<Longrightarrow> patience w' \<le> patience w \<and> (r = Inl EINTR \<or> r = Inl EAGAIN \<longrightarrow> patience w' < patience w) \<and>
        (case r of Inl _ \<Rightarrow> sent w' = sent w | Inr n \<Rightarrow> n \<le> length buf \<and> sent w' = sent w @ take n buf)"
proof -
  show "core_now env c = (t, c1) \<Longrightarrow> sent (world c1) = sent (world c) \<and> patience (world c1) = patience (world c)"
    using assms by (cases "clock_now (e_sys env) (world c)")
      (auto simp: core_now_def dest!: socket_law_def [THEN iffD1] conjunct1 [OF conjunct2] spec [of _ "world c"])
qed (use assms in \<open>simp_all add: socket_law_def\<close>)

lemma suspended_law:
  assumes "socket_law env fd sent patience"
  obtains c' where "suspended env h b c = Some c'" "sent (world c') = sent (world c)" "patience (world c') \<le> patience (world c)"
  using socket_lawD(3) [OF assms, of h c] by (cases b) (auto simp: suspended_def)

lemma await_writable_law:
  assumes "socket_law env fd sent patience"
  obtains r c' where "await_writable env co fd2 c = Some (r, c')" "sent (world c') = sent (world c)"
    "patience (world c') \<le> patience (world c)"
proof -
  obtain aw c1 where w: "write_ready_awaiter fd2 (co_state co) (co_cell co) c = (aw, c1)" by fastforce
  obtain b aw' c2 where s: "write_ready_await_suspend (e_sys env) (co_handle co) (ready_set_cancellation (co_token co) aw) c1 = (b, aw', c2)"
    by (metis prod_cases3)
  obtain c3 where u: "suspended env (co_handle co) b c2 = Some c3" "sent (world c3) = sent (world c2)"
    "patience (world c3) \<le> patience (world c2)" by (rule suspended_law [OF assms])
  obtain r c4 where r: "write_ready_await_resume aw' c3 = (r, c4)" by fastforce
  have "world c1 = world c" using w by (auto simp: write_ready_awaiter_def new_ready_awaiter_def)
  then have "sent (world c2) = sent (world c)" "patience (world c2) = patience (world c)"
    using suspend_ready_unaffected [OF socket_lawD(1) [OF assms] s [unfolded write_ready_await_suspend_def]] by auto
  moreover have "world c4 = world c3" using r resume_unaffected(1) by (auto simp: write_ready_await_resume_def)
  moreover have "await_writable env co fd2 c = Some (r, c4)" by (simp add: await_writable_def w s u(1) r)
  ultimately show ?thesis using that u(2,3) by simp
qed

lemma await_timed_law:
  assumes "socket_law env fd sent patience"
  obtains r c' where "await_timed env co fd2 d t c = Some (r, c')" "sent (world c') = sent (world c)"
    "patience (world c') \<le> patience (world c)"
proof -
  note un = socket_lawD(1) [OF assms]
  obtain aw c1 where w: "timed_ready_awaiter fd2 d t (co_state co) (co_cell co) c = (aw, c1)" by fastforce
  obtain b aw' c2 where s: "timed_await_suspend (e_sys env) (co_handle co) (timed_set_cancellation (co_token co) aw) c1 = (b, aw', c2)"
    by (metis prod_cases3)
  obtain c3 where u: "suspended env (co_handle co) b c2 = Some c3" "sent (world c3) = sent (world c2)"
    "patience (world c3) \<le> patience (world c2)" by (rule suspended_law [OF assms])
  obtain r c4 where r: "timed_await_resume (e_sys env) aw' c3 = (r, c4)" by fastforce
  have "world c1 = world c" using w by (auto simp: timed_ready_awaiter_def)
  then have "sent (world c2) = sent (world c)" "patience (world c2) = patience (world c)"
    using timed_suspend_unaffected [OF un s] by auto
  moreover have "sent (world c4) = sent (world c3)" "patience (world c4) = patience (world c3)"
    using resume_unaffected(2) [OF un r] by auto
  moreover have "await_timed env co fd2 d t c = Some (r, c4)" by (simp add: await_timed_def w s u(1) r)
  ultimately show ?thesis using that u(2,3) by simp
qed

section \<open>One transfer\<close>

text \<open>What a transfer of \<open>buf\<close> that ended with \<open>r\<close> has done, for all the ways to make one.\<close>

definition transferred :: "('w \<Rightarrow> u8 list) \<Rightarrow> u8 list \<Rightarrow> ('v, 'w) core \<Rightarrow> (nat result \<times> ('v, 'w) core) option \<Rightarrow> bool" where
  "transferred sent buf c out \<longleftrightarrow> (\<exists>r c'. out = Some (r, c') \<and>
     (case r of Inl _ \<Rightarrow> sent (world c') = sent (world c)
      | Inr n \<Rightarrow> n \<le> length buf \<and> sent (world c') = sent (world c) @ take n buf))"

lemma transferred_cong:
  assumes "sent (world c1) = sent (world c)" "transferred sent buf c1 out"
  shows "transferred sent buf c out"
  using assms(2) unfolding transferred_def assms(1) .

lemma transferredI:
  "sent (world c') = sent (world c) \<Longrightarrow> transferred sent buf c (Some (Err e, c'))"
  "n \<le> length buf \<Longrightarrow> sent (world c') = sent (world c) @ take n buf \<Longrightarrow> transferred sent buf c (Some (Ok n, c'))"
  by (simp_all add: transferred_def)

lemma write_some_transfers:
  assumes law: "socket_law env fd sent patience"
  shows "transferred sent buf c (write_some env co fd buf c)"
proof (induction "patience (world c)" arbitrary: c rule: less_induct)
  case less
  obtain q w where e: "e_write env fd buf (world c) = (q, w)" by fastforce
  note l = socket_lawD(4) [OF law e]
  show ?case
  proof (cases q)
    case (Inr n)
    then show ?thesis using e l by (subst write_some.simps) (simp add: transferredI)
  next
    case (Inl x)
    let ?c = "c\<lparr>world := w\<rparr>"
    obtain r c1 where a: "await_writable env co fd ?c = Some (r, c1)" "sent (world c1) = sent (world ?c)"
      "patience (world c1) \<le> patience (world ?c)" by (rule await_writable_law [OF law])
    have same: "sent w = sent (world c)" using l Inl by simp
    have "transferred sent buf c (write_some env co fd buf ?c)" if "x = EINTR"
      by (rule transferred_cong [OF _ less.hyps]) (use l Inl same that in simp_all)
    moreover have "transferred sent buf c (write_some env co fd buf c1)" if "x = EAGAIN"
      by (rule transferred_cong [OF _ less.hyps]) (use l a(2,3) Inl same that in simp_all)
    ultimately show ?thesis
      using e Inl a same
      by (subst write_some.simps) (cases r; auto intro: transferredI)
  qed
qed

lemma write_until_transfers:
  assumes law: "socket_law env fd sent patience"
  shows "transferred sent buf c (write_until env co fd buf deadline c)"
proof (induction "patience (world c)" arbitrary: c rule: less_induct)
  case less
  obtain q w where e: "e_write env fd buf (world c) = (q, w)" by fastforce
  note l = socket_lawD(4) [OF law e]
  show ?case
  proof (cases q)
    case (Inr n)
    then show ?thesis using e l by (subst write_until.simps) (simp add: transferredI)
  next
    case (Inl x)
    let ?c = "c\<lparr>world := w\<rparr>"
    obtain now c1 where n: "core_now env ?c = (now, c1)" by fastforce
    note t = socket_lawD(2) [OF law n]
    obtain r c2 where a: "await_timed env co fd DirWrite (deadline - now) c1 = Some (r, c2)" "sent (world c2) = sent (world c1)"
      "patience (world c2) \<le> patience (world c1)" by (rule await_timed_law [OF law])
    have same: "sent w = sent (world c)" using l Inl by simp
    have "transferred sent buf c (write_until env co fd buf deadline ?c)" if "x = EINTR"
      by (rule transferred_cong [OF _ less.hyps]) (use l Inl same that in simp_all)
    moreover have "transferred sent buf c (write_until env co fd buf deadline c2)" if "x = EAGAIN"
      by (rule transferred_cong [OF _ less.hyps]) (use l a(2,3) t Inl same that in simp_all)
    ultimately show ?thesis
      using e Inl a same n t
      by (subst write_until.simps) (cases r; auto intro: transferredI)
  qed
qed

lemma write_some_with_timeout_transfers:
  assumes law: "socket_law env fd sent patience"
  shows "transferred sent buf c (write_some_with_timeout env co fd buf timeout c)"
proof -
  obtain now c1 where n: "core_now env c = (now, c1)" by fastforce
  have "transferred sent buf c (write_until env co fd buf (now + timeout) c1)"
    using transferred_cong [OF _ write_until_transfers [OF law]] socket_lawD(2) [OF law n] by blast
  then show ?thesis
    using write_some_transfers [OF law] n by (simp add: write_some_with_timeout_def transferredI)
qed

section \<open>Sending a whole buffer in pieces\<close>

text \<open>
  Both loops that send a buffer rely on the same contract of the transfer they repeat: it takes a
  prefix of what it is given, or fails and takes nothing.
\<close>

locale chunk_sender =
  fixes put :: "u8 list \<Rightarrow> 's \<Rightarrow> (nat result \<times> 's) option" and taken :: "'s \<Rightarrow> u8 list" and good :: "'s \<Rightarrow> bool"
  assumes put_takes: "good s \<Longrightarrow> \<exists>r s'. put bs s = Some (r, s') \<and> good s' \<and>
      (case r of Inl _ \<Rightarrow> taken s' = taken s | Inr n \<Rightarrow> n \<le> length bs \<and> taken s' = taken s @ take n bs)"
begin

lemma send_loop:
  assumes loop: "\<And>tot s. loop tot s =
      (if tot < length buf
       then (case put (drop tot buf) s of
               None \<Rightarrow> None
             | Some (Inl e, s1) \<Rightarrow> Some (Err e, s1)
             | Some (Inr n, s1) \<Rightarrow> if n = 0 then Some (Err closed, s1) else loop (tot + n) s1)
       else Some (Ok tot, s))"
  shows "good s \<Longrightarrow> tot \<le> length buf \<Longrightarrow> taken s = out @ take tot buf \<Longrightarrow>
    \<exists>r s'. loop tot s = Some (r, s') \<and> good s' \<and>
      (case r of Inr n \<Rightarrow> n = length buf \<and> taken s' = out @ buf | Inl _ \<Rightarrow> \<exists>k<length buf. taken s' = out @ take k buf)"
proof (induction "length buf - tot" arbitrary: tot s rule: less_induct)
  case less
  show ?case
  proof (cases "tot < length buf")
    case False
    then show ?thesis using less.prems by (subst loop) simp
  next
    case True
    obtain r s1 where p: "put (drop tot buf) s = Some (r, s1)" "good s1"
      and t: "case r of Inl _ \<Rightarrow> taken s1 = taken s | Inr n \<Rightarrow> n \<le> length (drop tot buf) \<and> taken s1 = taken s @ take n (drop tot buf)"
      using put_takes [OF less.prems(1)] by blast
    show ?thesis
    proof (cases r)
      case (Inl e)
      then show ?thesis using True p t less.prems(3) by (subst loop) auto
    next
      case (Inr n)
      then have n: "tot + n \<le> length buf" "taken s1 = out @ take (tot + n) buf"
        using t less.prems(3) True by (auto simp: take_add)
      show ?thesis
      proof (cases "n = 0")
        case False
        have "length buf - (tot + n) < length buf - tot" using False True by simp
        from less.hyps [OF this p(2) n] show ?thesis using True p(1) Inr False by (subst loop) simp
      qed (use True p Inr n in \<open>subst loop, auto\<close>)
    qed
  qed
qed

end

definition timed_put ::
  "('v, 'w) stream_env \<Rightarrow> stream_co \<Rightarrow> int \<Rightarrow> time_point \<Rightarrow> u8 list \<Rightarrow> ('v, 'w) core \<Rightarrow> (nat result \<times> ('v, 'w) core) option" where
  "timed_put env co fd deadline bs c =
     (case core_now env c of (now, c1) \<Rightarrow>
        if deadline \<le> now then Some (Err (make_error ETIMEDOUT ''write_all timeout''), c1)
        else write_some_with_timeout env co fd bs (deadline - now) c1)"

interpretation ws: chunk_sender "write_some env co fd" "\<lambda>c. sent (world c)" "\<lambda>c. socket_law env fd sent patience"
  for env :: "('v, 'w) stream_env" and co fd sent patience
  by unfold_locales (use write_some_transfers in \<open>fastforce simp: transferred_def\<close>)

interpretation wt: chunk_sender "timed_put env co fd deadline" "\<lambda>c. sent (world c)" "\<lambda>c. socket_law env fd sent patience"
  for env :: "('v, 'w) stream_env" and co fd sent patience deadline
proof unfold_locales
  fix s :: "('v, 'w) core" and bs
  assume law: "socket_law env fd sent patience"
  obtain now c1 where n: "core_now env s = (now, c1)" by fastforce
  have "transferred sent bs s (timed_put env co fd deadline bs s)"
    using transferred_cong [OF _ write_some_with_timeout_transfers [OF law]] socket_lawD(2) [OF law n] n
    by (simp add: timed_put_def transferredI)
  then show "\<exists>r s'. timed_put env co fd deadline bs s = Some (r, s') \<and> socket_law env fd sent patience \<and>
      (case r of Inl _ \<Rightarrow> sent (world s') = sent (world s)
       | Inr n \<Rightarrow> n \<le> length bs \<and> sent (world s') = sent (world s) @ take n bs)"
    using law by (simp add: transferred_def)
qed

lemma write_all_delivers:
  assumes "socket_law env fd sent patience"
  shows "\<exists>r c'. write_all env co fd buf c = Some (r, c') \<and>
    (case r of Inr n \<Rightarrow> n = length buf \<and> sent (world c') = sent (world c) @ buf
     | Inl _ \<Rightarrow> \<exists>k<length buf. sent (world c') = sent (world c) @ take k buf)"
  using ws.send_loop [where loop = "write_all_from env co fd buf" and tot = 0 and s = c, OF write_all_from.simps assms]
  by (auto simp: write_all_def)

lemma write_all_until_delivers:
  assumes "socket_law env fd sent patience"
  shows "\<exists>r c'. write_all_until env co fd buf deadline 0 c = Some (r, c') \<and>
    (case r of Inr n \<Rightarrow> n = length buf \<and> sent (world c') = sent (world c) @ buf
     | Inl _ \<Rightarrow> \<exists>k<length buf. sent (world c') = sent (world c) @ take k buf)"
proof -
  have "write_all_until env co fd buf deadline tot c = (if tot < length buf
       then (case timed_put env co fd deadline (drop tot buf) c of
               None \<Rightarrow> None
             | Some (Inl e, s1) \<Rightarrow> Some (Err e, s1)
             | Some (Inr n, s1) \<Rightarrow> if n = 0 then Some (Err (make_error EPIPE ''write_all_with_timeout: connection closed''), s1)
                                   else write_all_until env co fd buf deadline (tot + n) s1)
       else Some (Ok tot, c))" for tot c
    by (subst write_all_until.simps) (simp add: timed_put_def split: prod.split)
  from wt.send_loop [where loop = "write_all_until env co fd buf deadline" and tot = 0 and s = c, OF this assms]
  show ?thesis by auto
qed

text \<open>
  C18. Writing to a stream delivers everything or an honest prefix. For a kernel that accepts prefixes and
  refuses only finitely often, and whatever else the core does while the coroutine waits (which the other
  coroutines leave this socket out of), \<open>write_all\<close> and \<open>write_all_with_timeout\<close> return. Success means that
  the socket took exactly the buffer, once and in order, and the count is its length; an error, a time-out or a
  cancellation means that it took a proper prefix.
\<close>

theorem stream_write_all:
  assumes "socket_law env fd sent patience"
  shows "\<exists>r c'. (if timed then write_all_with_timeout env co fd buf timeout c else write_all env co fd buf c) = Some (r, c') \<and>
    (case r of Inr n \<Rightarrow> n = length buf \<and> sent (world c') = sent (world c) @ buf
     | Inl _ \<Rightarrow> \<exists>k<length buf. sent (world c') = sent (world c) @ take k buf)"
proof -
  obtain now c1 where n: "core_now env c = (now, c1)" by fastforce
  have t: "sent (world c1) = sent (world c)" using socket_lawD(2) [OF assms n] by simp
  have "(if timed then write_all_with_timeout env co fd buf timeout c else write_all env co fd buf c) =
      (if timed \<and> 0 < timeout then write_all_until env co fd buf (now + timeout) 0 c1 else write_all env co fd buf c)"
    by (simp add: write_all_with_timeout_def n)
  then show ?thesis
    using write_all_delivers [OF assms, of co buf c]
      write_all_until_delivers [OF assms, of co buf "now + timeout" c1, unfolded t]
    by (cases "timed \<and> 0 < timeout") simp_all
qed

text \<open>
  A concrete socket for the witness: the kernel takes at most two bytes at a time, and first refuses as
  often as its patience says; waiting coroutines are resumed at once.
\<close>

type_synonym sim_socket = "u8 list \<times> nat"

definition sim_stream :: "(unit, sim_socket) stream_env" where
  "sim_stream = \<lparr>e_sys = \<lparr>epoll_create1 = (\<lambda>w. (Inr 3, w)), eventfd = (\<lambda>w. (Inr 4, w)), epoll_ctl = (\<lambda>ep op fd ev w. (None, w)),
       epoll_wait = (\<lambda>ep n ms w. (Inr [], w)), close_fd = (\<lambda>fd w. (None, w)), write_eventfd = (\<lambda>fd w. (Inr 8, w)),
       read_eventfd = (\<lambda>fd w. w), clock_now = (\<lambda>w. (0, w)), sys_errno = (\<lambda>w. 0), resume = (\<lambda>h c. c)\<rparr>,
     e_read = (\<lambda>fd n w. (Inr [], w)),
     e_write = (\<lambda>fd buf (s, p). if 0 < p then (Inl EINTR, s, p - 1) else (Inr (min 2 (length buf)), s @ take 2 buf, p)),
     e_sendfile = (\<lambda>fd i off n w. (Inl EIO, w)), e_has_timer = True, until_resumed = (\<lambda>h c. Some c)\<rparr>"

definition sim_stream_core :: "sim_socket \<Rightarrow> (unit, sim_socket) core" where
  "sim_stream_core w =
     \<lparr>l_reactor = \<lparr>epoll_fd = 3, fd_slots = [], io_ready = []\<rparr>, l_timer = new_wheel 0, l_signals = None,
      owned_tasks = [], ready_queue = [], stop_source = Some 0, graceful_source = Some 1, cross_core_fd = 4,
      cross_core_queue = [], cells = \<lparr>wstate = (\<lambda>_. Pending), results = (\<lambda>_. Ok 0)\<rparr>, frames = Map.empty,
      stops = \<lparr>requested = (\<lambda>_. False), callbacks = (\<lambda>_. []), next_state = 2\<rparr>, world = w\<rparr>"

lemma sim_stream_law: "socket_law sim_stream fd fst snd"
  by (auto simp: socket_law_def unaffected_def sim_stream_def min_def split: if_splits)

theorem stream_write_all_witness:
  "\<exists>c'. write_all sim_stream \<lparr>co_handle = 9, co_state = 0, co_cell = 0, co_token = None\<rparr> 7 [1, 2, 3] (sim_stream_core ([5], 2))
      = Some (Ok 3, c') \<and> fst (world c') = [5, 1, 2, 3]"
proof -
  let ?co = "\<lparr>co_handle = 9, co_state = 0, co_cell = 0, co_token = None\<rparr> :: stream_co"
  have "\<exists>c'. write_all sim_stream ?co 7 [1, 2, 3] (sim_stream_core ([5], 2)) = Some (Ok 3, c')"
    by (simp add: write_all_def write_all_from.simps write_some.simps sim_stream_def sim_stream_core_def)
  then show ?thesis
    using stream_write_all [OF sim_stream_law, of False ?co 7 "[1, 2, 3]" 0 "sim_stream_core ([5], 2)"]
    by (auto simp: sim_stream_core_def)
qed

end
