(* ===== verification/Tcp_Properties.thy ===== *)
theory Tcp_Properties
  imports Tcp Stream_Properties
begin

text \<open>
  Sockets are not leaked: whatever connecting, binding and accepting run into, the descriptors they
  opened are handed to the caller or closed.
\<close>

section \<open>Who owns a descriptor\<close>

text \<open>
  \<open>mine\<close> are the descriptors that this coroutine has opened and not closed. \<open>socket\<close> and \<open>accept4\<close>
  answer a new one, \<open>close\<close> gives one back even when it reports an error, and nothing else changes them:
  other coroutines do not close a descriptor that is not theirs.
\<close>

definition gained :: "('w \<Rightarrow> int set) \<Rightarrow> ('a \<Rightarrow> int) \<Rightarrow> 'w \<Rightarrow> 'e + 'a \<Rightarrow> 'w \<Rightarrow> bool" where
  "gained mine fd_of w r w' \<longleftrightarrow>
     (case r of Inl _ \<Rightarrow> mine w' = mine w
      | Inr x \<Rightarrow> 0 \<le> fd_of x \<and> fd_of x \<notin> mine w \<and> mine w' = insert (fd_of x) (mine w))"

lemma gained_simps [simp]:
  "gained mine f w (Inl e) w' \<longleftrightarrow> mine w' = mine w"
  "gained mine f w (Inr x) w' \<longleftrightarrow> 0 \<le> f x \<and> f x \<notin> mine w \<and> mine w' = insert (f x) (mine w)"
  by (simp_all add: gained_def)

definition owner_law :: "('v, 'w) stream_env \<Rightarrow> 'w sock_calls \<Rightarrow> ('w \<Rightarrow> int set) \<Rightarrow> bool" where
  "owner_law env calls mine \<longleftrightarrow>
     unaffected (e_sys env) mine \<and>
     (\<forall>h c. \<exists>c'. until_resumed env h c = Some c' \<and> mine (world c') = mine (world c)) \<and>
     (\<forall>f w. gained mine (\<lambda>fd. fd) w (fst (sk_socket calls f w)) (snd (sk_socket calls f w))) \<and>
     (\<forall>l w. gained mine fst w (fst (sk_accept4 calls l w)) (snd (sk_accept4 calls l w))) \<and>
     (\<forall>fd w. mine (snd (sk_close calls fd w)) = mine w - {fd}) \<and>
     (\<forall>fd l p v w. mine (snd (sk_setsockopt calls fd l p v w)) = mine w) \<and>
     (\<forall>fd a n w. mine (snd (sk_bind calls fd a n w)) = mine w \<and> mine (snd (sk_connect calls fd a n w)) = mine w) \<and>
     (\<forall>fd n w. mine (snd (sk_listen calls fd n w)) = mine w) \<and>
     (\<forall>fd w. mine (snd (sk_getfl calls fd w)) = mine w \<and> mine (snd (sk_so_error calls fd w)) = mine w) \<and>
     (\<forall>fd x w. mine (snd (sk_setfl calls fd x w)) = mine w)"

lemma owner_lawD:
  assumes "owner_law env calls mine"
  shows "unaffected (e_sys env) mine"
    and "\<exists>c'. until_resumed env h c = Some c' \<and> mine (world c') = mine (world c)"
    and "sk_socket calls f w = (r, w') \<Longrightarrow> gained mine (\<lambda>fd. fd) w r w'"
    and "sk_accept4 calls l w = (q, w') \<Longrightarrow> gained mine fst w q w'"
    and "mine (snd (sk_close calls fd w)) = mine w - {fd}"
    and "sk_setsockopt calls fd lv p v w = (s, w') \<Longrightarrow> mine w' = mine w"
    and "sk_bind calls fd a n w = (s, w') \<Longrightarrow> mine w' = mine w"
    and "sk_connect calls fd a n w = (s, w') \<Longrightarrow> mine w' = mine w"
    and "sk_listen calls fd b w = (s, w') \<Longrightarrow> mine w' = mine w"
    and "sk_getfl calls fd w = (g, w') \<Longrightarrow> mine w' = mine w"
    and "sk_so_error calls fd w = (so, w') \<Longrightarrow> mine w' = mine w"
    and "sk_setfl calls fd x w = (s, w') \<Longrightarrow> mine w' = mine w"
  using assms unfolding owner_law_def by (metis fst_conv snd_conv)+

section \<open>Setting up a listening socket\<close>

text \<open>How a set-up of descriptor \<open>fd\<close> may end: with the descriptor kept, or with an error and the descriptor closed.\<close>

definition kept_or_closed :: "('w \<Rightarrow> int set) \<Rightarrow> int \<Rightarrow> int set \<Rightarrow> int result \<times> 'w \<Rightarrow> bool" where
  "kept_or_closed mine fd M out \<longleftrightarrow>
     (case out of (Inl _, w) \<Rightarrow> mine w = M | (Inr x, w) \<Rightarrow> x = fd \<and> mine w = insert fd M)"

lemma or_close_kept:
  assumes "owner_law env calls mine" "mine (snd call_result) = insert fd M" "fd \<notin> M"
    and "\<And>w. mine w = insert fd M \<Longrightarrow> kept_or_closed mine fd M (k w)"
  shows "kept_or_closed mine fd M (or_close calls fd call_result k)"
  using assms(2-4) owner_lawD(5) [OF assms(1), of fd "snd call_result"]
  by (cases call_result; cases "fst call_result") (auto simp: or_close_def kept_or_closed_def)

lemma bind_listener_gained:
  assumes law: "owner_law env calls mine" and b: "bind_listener_socket calls addr opts w = (r, w')"
  shows "gained mine (\<lambda>fd. fd) w r w'"
proof -
  obtain q w1 where s: "sk_socket calls (addr_family addr) w = (q, w1)" by fastforce
  note g = owner_lawD(3) [OF law s]
  show ?thesis
  proof (cases q)
    case (Inl e)
    then show ?thesis using b s g by (auto simp: bind_listener_socket_def)
  next
    case (Inr fd)
    have m: "mine w1 = insert fd (mine w)" "fd \<notin> mine w" "0 \<le> fd" using g Inr by simp_all
    note step = or_close_kept [OF law _ m(2)]
    have opt: "mine (snd (if cond then sk_setsockopt calls fd lv p n v else (None, v))) = mine v" for cond lv p n v
      using owner_lawD(6) [OF law surjective_pairing] by simp
    have "kept_or_closed mine fd (mine w) (bind_listener_socket calls addr opts w)"
      unfolding bind_listener_socket_def s Inr prod.case sum.case
      by (intro step) (simp_all add: opt owner_lawD(7,9) [OF law surjective_pairing] m kept_or_closed_def)
    then show ?thesis using b m(2,3) by (cases r) (auto simp: kept_or_closed_def)
  qed
qed

section \<open>Connecting and accepting\<close>

lemma from_fd_mine:
  assumes law: "owner_law env calls mine" and f: "tcp_from_fd calls fd w = (r, w')"
  shows "mine w' = mine w" "r = Ok s \<Longrightarrow> so_fd s = fd"
proof -
  obtain q w1 where g: "sk_getfl calls fd w = (q, w1)" by fastforce
  obtain t w2 where x: "sk_setfl calls fd (projr q OR O_NONBLOCK) w1 = (t, w2)" by fastforce
  have "mine w1 = mine w" "mine w2 = mine w1" using owner_lawD(10) [OF law g] owner_lawD(12) [OF law x] by simp_all
  with f g x show "mine w' = mine w" "r = Ok s \<Longrightarrow> so_fd s = fd"
    by (cases q; cases t; auto simp: tcp_from_fd_def ensure_nonblocking_def checked_def split: if_splits)+
qed

lemma suspended_mine:
  assumes "owner_law env calls mine"
  obtains c' where "suspended env h b c = Some c'" "mine (world c') = mine (world c)"
  using owner_lawD(2) [OF assms, of h c] by (cases b) (auto simp: suspended_def)

lemma await_connect_mine:
  assumes law: "owner_law env calls mine"
  obtains r c' where "await_connect env calls co fd c = Some (r, c')" "mine (world c') = mine (world c)"
proof -
  obtain aw c1 where w: "connect_awaiter fd (co_state co) (co_cell co) c = (aw, c1)" by fastforce
  obtain b aw' c2 where s: "connect_await_suspend (e_sys env) (co_handle co) (ready_set_cancellation (co_token co) aw) c1 = (b, aw', c2)"
    by (metis prod_cases3)
  obtain c3 where u: "suspended env (co_handle co) b c2 = Some c3" "mine (world c3) = mine (world c2)"
    by (rule suspended_mine [OF law])
  obtain r c4 where r: "connect_await_resume (sk_so_error calls) aw' c3 = (r, c4)" by fastforce
  have "world c1 = world c" using w by (auto simp: connect_awaiter_def new_ready_awaiter_def)
  then have m2: "mine (world c2) = mine (world c)"
    using suspend_ready_unaffected [OF owner_lawD(1) [OF law] s [unfolded connect_await_suspend_def]] by simp
  obtain q d where d: "resume_ready_wait IoWrite aw' c3 = (q, d)" by fastforce
  obtain t v where t: "sk_so_error calls (ra_fd aw') (world d) = (t, v)" by fastforce
  have "world c4 = world d \<or> world c4 = v"
    using r unfolding connect_await_resume_def d by (cases q; cases t) (auto simp: t)
  then have m4: "mine (world c4) = mine (world c3)"
    using resume_unaffected(1) [OF d] owner_lawD(11) [OF law t] by metis
  show ?thesis
  proof (rule that)
    show "await_connect env calls co fd c = Some (r, c4)" by (simp add: await_connect_def w s u(1) r)
    show "mine (world c4) = mine (world c)" using m4 u(2) m2 by simp
  qed
qed

lemma core_remove_mine:
  assumes "owner_law env calls mine"
  shows "mine (world (snd (core_remove (e_sys env) fd c))) = mine (world c)"
  using unaffectedD [OF owner_lawD(1) [OF assms]]
  by (auto simp: core_remove_def reactor_remove_def Let_def split: prod.splits option.splits if_splits)

lemma tcp_connect_gained:
  assumes law: "owner_law env calls mine"
  shows "\<exists>r c'. tcp_connect env calls co addr c = Some (r, c') \<and> gained mine so_fd (world c) r (world c')"
proof -
  obtain q w where s: "sk_socket calls (addr_family addr) (world c) = (q, w)" by fastforce
  note g = owner_lawD(3) [OF law s]
  show ?thesis
  proof (cases q)
    case (Inl e)
    then show ?thesis using s g by (auto simp: tcp_connect_def)
  next
    case (Inr fd)
    obtain e w1 where k: "sk_connect calls fd addr (sockaddr_len addr) w = (e, w1)" by fastforce
    have m: "mine w1 = insert fd (mine (world c))" "fd \<notin> mine (world c)" "0 \<le> fd"
      using g Inr owner_lawD(8) [OF law k] by simp_all
    note cl = owner_lawD(5) [OF law, of fd]
    show ?thesis
    proof (cases e)
      case None
      obtain r w2 where f: "tcp_from_fd calls fd w1 = (r, w2)" by fastforce
      note l = from_fd_mine [OF law f]
      show ?thesis using s Inr k None f l m cl by (cases r) (auto simp: tcp_connect_def)
    next
      case (Some x)
      obtain r c1 where a: "await_connect env calls co fd (c\<lparr>world := w1\<rparr>) = Some (r, c1)"
        "mine (world c1) = mine (world (c\<lparr>world := w1\<rparr>))" by (rule await_connect_mine [OF law])
      show ?thesis
        using s Inr k Some a m cl core_remove_mine [OF law, of fd c1]
        by (cases r) (auto simp: tcp_connect_def Let_def)
    qed
  qed
qed

lemma accept_resume_gained:
  assumes law: "owner_law env calls mine" and r: "accept_await_resume calls aw c = (r, c')" and e: "ac_eager_fd aw < 0"
  shows "gained mine fst (world c) r (world c')"
proof -
  obtain q w where a: "sk_accept4 calls (ac_listen_fd aw) (world c) = (q, w)" by fastforce
  note g = owner_lawD(4) [OF law a]
  show ?thesis
    using r e a g by (cases q) (auto simp: accept_await_resume_def Let_def split: if_splits sum.splits)
qed

lemma await_accept_gained:
  assumes law: "owner_law env calls mine"
  shows "\<exists>r c'. await_accept env calls co lfd c = Some (r, c') \<and> gained mine fst (world c) r (world c')"
proof -
  obtain aw c1 where n: "new_accept_awaiter lfd (co_state co) (co_cell co) c = (aw, c1)" by fastforce
  then have c1: "world c1 = world c" and aw: "ac_eager_fd aw = -1" "ac_listen_fd aw = lfd"
    by (auto simp: new_accept_awaiter_def)
  let ?aw = "accept_set_cancellation (co_token co) aw"
  obtain q w where a: "sk_accept4 calls lfd (world c1) = (q, w)" by fastforce
  note g = owner_lawD(4) [OF law a]
  show ?thesis
  proof (cases q)
    case (Inr p)
    then show ?thesis
      using n a g c1 aw
      by (cases p) (auto simp: await_accept_def accept_await_ready_def accept_set_cancellation_def accept_await_resume_def Let_def)
  next
    case (Inl x)
    let ?c2 = "c1\<lparr>world := w\<rparr>"
    obtain b aw' c3 where s: "accept_await_suspend (e_sys env) (co_handle co) ?aw ?c2 = (b, aw', c3)" by (metis prod_cases3)
    obtain c4 where u: "suspended env (co_handle co) b c3 = Some c4" "mine (world c4) = mine (world c3)"
      by (rule suspended_mine [OF law])
    have e: "ac_eager_fd aw' < 0" using s aw by (auto simp: accept_await_suspend_def accept_set_cancellation_def Let_def split: prod.splits sum.splits)
    have "mine (world c3) = mine (world ?c2)"
      using s core_register_unaffected [OF owner_lawD(1) [OF law]] install_cb_unaffected [OF owner_lawD(1) [OF law]]
      by (auto simp: accept_await_suspend_def Let_def split: prod.splits sum.splits)
    then have m: "mine (world c4) = mine (world c)" using u(2) g Inl c1 by simp
    obtain r c5 where r: "accept_await_resume calls aw' c4 = (r, c5)" by fastforce
    have "gained mine fst (world c) r (world c5)"
      using accept_resume_gained [OF law r e] m by (cases r) simp_all
    then show ?thesis
      using n a Inl s u(1) r aw by (auto simp: await_accept_def accept_await_ready_def accept_set_cancellation_def)
  qed
qed

lemma listener_accept_gained:
  assumes law: "owner_law env calls mine"
  shows "\<exists>r c'. listener_accept env calls co l c = Some (r, c') \<and> gained mine (\<lambda>(s, _). so_fd s) (world c) r (world c')"
proof -
  obtain q c1 where a: "await_accept env calls co (so_fd l) c = Some (q, c1)" and g: "gained mine fst (world c) q (world c1)"
    using await_accept_gained [OF law] by blast
  show ?thesis
  proof (cases q)
    case (Inl e)
    then show ?thesis using a g by (auto simp: listener_accept_def)
  next
    case (Inr p)
    obtain r w2 where f: "tcp_from_fd calls (fst p) (world c1) = (r, w2)" by fastforce
    note m = from_fd_mine [OF law f]
    show ?thesis
      using a g Inr f m owner_lawD(5) [OF law, of "fst p" w2]
      by (cases p; cases r) (auto simp: listener_accept_def)
  qed
qed

lemma tcp_close_mine:
  assumes law: "owner_law env calls mine" and c: "tcp_close (e_sys env) calls s c = (r, s', c')" and v: "tcp_valid s"
  shows "mine (world c') = mine (world c) - {so_fd s} \<and> so_fd s' = -1 \<and> tcp_close (e_sys env) calls s' c2 = (Ok (), s', c2)"
proof -
  obtain q c1 where rm: "(if so_bound s then core_remove (e_sys env) (so_fd s) c else (Ok (), c)) = (q, c1)" by fastforce
  obtain t w where k: "sk_close calls (so_fd s) (world c1) = (t, w)" by fastforce
  have "mine (world c1) = mine (world c)"
    using rm core_remove_mine [OF law, of "so_fd s" c] by (auto split: if_splits)
  moreover have "mine w = mine (world c1) - {so_fd s}" using owner_lawD(5) [OF law, of "so_fd s" "world c1"] k by simp
  moreover have "s' = s\<lparr>so_fd := -1\<rparr>" "c' = c1\<lparr>world := w\<rparr>"
    using c v unfolding tcp_close_def socket_close_fd_def rm checked_def by (simp_all add: tcp_valid_def k)
  ultimately show ?thesis by (simp add: tcp_close_def socket_close_fd_def)
qed

section \<open>Property\<close>

text \<open>
  C20. Sockets are not leaked. For a kernel whose \<open>socket\<close> and \<open>accept4\<close> answer new descriptors, and whatever
  the calls answer, \<open>connect\<close>, \<open>accept\<close> and \<open>bind\<close> end with either a stream or listener that owns exactly one new
  descriptor, or an error and no descriptor more than before, on every one of their paths; closing gives the
  descriptor back once, and closing again does nothing.
\<close>

theorem sockets_not_leaked:
  assumes "owner_law env calls mine"
  shows "(\<exists>r c'. tcp_connect env calls co addr c = Some (r, c') \<and> gained mine so_fd (world c) r (world c')) \<and>
    (\<exists>r c'. listener_accept env calls co l c = Some (r, c') \<and> gained mine (\<lambda>(s, _). so_fd s) (world c) r (world c')) \<and>
    (case listener_bind calls addr opts c of (r, c') \<Rightarrow> gained mine so_fd (world c) r (world c')) \<and>
    (tcp_valid l \<longrightarrow> (case tcp_close (e_sys env) calls l c of (r, l', c') \<Rightarrow>
       mine (world c') = mine (world c) - {so_fd l} \<and> so_fd l' = -1 \<and> tcp_close (e_sys env) calls l' c2 = (Ok (), l', c2)))"
proof (intro conjI impI)
  obtain r w' where b: "bind_listener_socket calls addr opts (world c) = (r, w')" by fastforce
  show "case listener_bind calls addr opts c of (r, c') \<Rightarrow> gained mine so_fd (world c) r (world c')"
    using bind_listener_gained [OF assms b] b by (cases r) (simp_all add: listener_bind_def)
  show "case tcp_close (e_sys env) calls l c of (r, l', c') \<Rightarrow>
      mine (world c') = mine (world c) - {so_fd l} \<and> so_fd l' = -1 \<and> tcp_close (e_sys env) calls l' c2 = (Ok (), l', c2)"
    if "tcp_valid l"
    using tcp_close_mine [OF assms _ that] by (cases "tcp_close (e_sys env) calls l c") blast
qed (rule tcp_connect_gained [OF assms], rule listener_accept_gained [OF assms])

text \<open>A concrete kernel for the witness: a set of descriptors, of which it gives out the next one.\<close>

definition sim_sockets :: "int set sock_calls" where
  "sim_sockets = \<lparr>
     sk_socket = (\<lambda>f w. if 7 \<in> w then (Inl 24, w) else (Inr 7, insert 7 w)),
     sk_setsockopt = (\<lambda>fd l p v w. (None, w)), sk_bind = (\<lambda>fd a n w. (Some 98, w)), sk_listen = (\<lambda>fd n w. (None, w)),
     sk_connect = (\<lambda>fd a n w. (None, w)),
     sk_accept4 = (\<lambda>fd w. if 8 \<in> w then (Inl 24, w) else (Inr (8, zero_storage, 16), insert 8 w)),
     sk_getpeername = (\<lambda>fd w. (Inl 107, w)), sk_getsockname = (\<lambda>fd w. (Inl 9, w)), sk_shutdown = (\<lambda>fd how w. (None, w)),
     sk_getfl = (\<lambda>fd w. (Inr O_NONBLOCK, w)), sk_setfl = (\<lambda>fd x w. (None, w)), sk_so_error = (\<lambda>fd w. (Inr 0, w)),
     sk_close = (\<lambda>fd w. (None, w - {fd}))\<rparr>"

definition sim_socket_env :: "(unit, int set) stream_env" where
  "sim_socket_env = \<lparr>e_sys = \<lparr>epoll_create1 = (\<lambda>w. (Inr 3, w)), eventfd = (\<lambda>w. (Inr 4, w)), epoll_ctl = (\<lambda>ep op fd ev w. (None, w)),
       epoll_wait = (\<lambda>ep n ms w. (Inr [], w)), close_fd = (\<lambda>fd w. (None, w)), write_eventfd = (\<lambda>fd w. (Inr 8, w)),
       read_eventfd = (\<lambda>fd w. w), clock_now = (\<lambda>w. (0, w)), sys_errno = (\<lambda>w. 0), resume = (\<lambda>h c. c)\<rparr>,
     e_read = (\<lambda>fd n w. (Inr [], w)), e_write = (\<lambda>fd buf w. (Inr 0, w)),
     e_sendfile = (\<lambda>fd i off n w. (Inl EIO, w)), e_has_timer = True, until_resumed = (\<lambda>h c. Some c)\<rparr>"

definition sim_socket_core :: "int set \<Rightarrow> (unit, int set) core" where
  "sim_socket_core w =
     \<lparr>l_reactor = \<lparr>epoll_fd = 3, fd_slots = [], io_ready = []\<rparr>, l_timer = new_wheel 0, l_signals = None,
      owned_tasks = [], ready_queue = [], stop_source = Some 0, graceful_source = Some 1, cross_core_fd = 4,
      cross_core_queue = [], cells = \<lparr>wstate = (\<lambda>_. Pending), results = (\<lambda>_. Ok 0)\<rparr>, frames = Map.empty,
      stops = \<lparr>requested = (\<lambda>_. False), callbacks = (\<lambda>_. []), next_state = 2\<rparr>, world = w\<rparr>"

lemma sim_owner_law: "owner_law sim_socket_env sim_sockets (\<lambda>w. w)"
  by (simp add: owner_law_def unaffected_def sim_sockets_def sim_socket_env_def)

theorem sockets_not_leaked_witness:
  "(\<exists>c'. tcp_connect sim_socket_env sim_sockets \<lparr>co_handle = 9, co_state = 0, co_cell = 0, co_token = None\<rparr>
      (addr_loopback 80) (sim_socket_core {5}) = Some (Ok \<lparr>so_fd = 7, so_bound = True\<rparr>, c') \<and> world c' = {5, 7}) \<and>
   world (snd (listener_bind sim_sockets (addr_any 80) default_listen_options (sim_socket_core {5}))) = {5}"
proof -
  let ?co = "\<lparr>co_handle = 9, co_state = 0, co_cell = 0, co_token = None\<rparr> :: stream_co"
  have r: "\<exists>c'. tcp_connect sim_socket_env sim_sockets ?co (addr_loopback 80) (sim_socket_core {5})
      = Some (Ok \<lparr>so_fd = 7, so_bound = True\<rparr>, c')"
    by (simp add: tcp_connect_def sim_sockets_def sim_socket_core_def tcp_from_fd_def ensure_nonblocking_def O_NONBLOCK_def)
  have b: "fst (listener_bind sim_sockets (addr_any 80) default_listen_options (sim_socket_core {5})) = Err (from_errno 98)"
    by (simp add: listener_bind_def bind_listener_socket_def or_close_def sim_sockets_def sim_socket_core_def default_listen_options_def)
  have w: "world (sim_socket_core {5}) = {5}" by (simp add: sim_socket_core_def)
  note t = sockets_not_leaked [OF sim_owner_law, where c = "sim_socket_core {5}" and co = ?co, unfolded w]
  obtain q d where l: "listener_bind sim_sockets (addr_any 80) default_listen_options (sim_socket_core {5}) = (q, d)" by fastforce
  have "world d = {5}"
    using conjunct1 [OF conjunct2 [OF conjunct2 [OF t [where addr = "addr_any 80" and opts = default_listen_options]]]] b
    unfolding l by simp
  moreover have "\<exists>c'. tcp_connect sim_socket_env sim_sockets ?co (addr_loopback 80) (sim_socket_core {5})
      = Some (Ok \<lparr>so_fd = 7, so_bound = True\<rparr>, c') \<and> world c' = {5, 7}"
    using conjunct1 [OF t [where addr = "addr_loopback 80"]] r by auto
  ultimately show ?thesis by (simp add: l)
qed

end
