(* ===== verification/Fs.thy ===== *)
theory Fs
  imports Core
begin

text \<open>
  File system access, the synchronous half: \<^verbatim>\<open>src/fs/metadata.hpp\<close>, \<^verbatim>\<open>src/fs/detail.hpp\<close> and
  the bodies that \<^verbatim>\<open>src/fs/file.hpp\<close> runs on the blocking pool. The system calls act on a world
  \<open>'w\<close>; each answers an error number or its result. The loops that retry after \<open>EINTR\<close> may run as
  long as the kernel keeps interrupting them, so they are partial functions and not returning is
  \<open>None\<close>. Sizes are natural numbers (\<open>usize\<close>), offsets 64-bit words, an \<open>off_t\<close> is an integer.
\<close>

section \<open>Metadata (fs/metadata.hpp)\<close>

record stat =
  st_mode :: u32
  st_size :: int

datatype file_type = Regular | Directory | Symlink | Other

record metadata =
  md_size :: u64
  md_permissions :: u32
  md_type :: file_type

definition is_file :: "metadata \<Rightarrow> bool" where "is_file m = (md_type m = Regular)"
definition is_dir :: "metadata \<Rightarrow> bool" where "is_dir m = (md_type m = Directory)"
definition is_symlink :: "metadata \<Rightarrow> bool" where "is_symlink m = (md_type m = Symlink)"

text \<open>The file type bits of a mode: \<open>S_IFMT\<close> and its values, in octal 170000, 100000, 040000, 120000.\<close>

definition s_ifmt :: u32 where "s_ifmt = 0xF000"
definition s_isreg :: "u32 \<Rightarrow> bool" where "s_isreg m = (m AND s_ifmt = 0x8000)"
definition s_isdir :: "u32 \<Rightarrow> bool" where "s_isdir m = (m AND s_ifmt = 0x4000)"
definition s_islnk :: "u32 \<Rightarrow> bool" where "s_islnk m = (m AND s_ifmt = 0xA000)"

definition metadata_from_stat :: "stat \<Rightarrow> metadata" where
  "metadata_from_stat st =
     \<lparr>md_size = (if 0 < st_size st then word_of_int (st_size st) else 0),
      md_permissions = st_mode st AND 0xFFF,
      md_type = (if s_isreg (st_mode st) then Regular
                 else if s_isdir (st_mode st) then Directory
                 else if s_islnk (st_mode st) then Symlink
                 else Other)\<rparr>"

section \<open>System calls\<close>

record 'w fs_calls =
  sys_open :: "string \<Rightarrow> u32 \<Rightarrow> u32 option \<Rightarrow> 'w \<Rightarrow> (int + int) \<times> 'w"
  sys_close :: "int \<Rightarrow> 'w \<Rightarrow> int option \<times> 'w"
  sys_read :: "int \<Rightarrow> nat \<Rightarrow> 'w \<Rightarrow> (int + u8 list) \<times> 'w"
  sys_write :: "int \<Rightarrow> u8 list \<Rightarrow> 'w \<Rightarrow> (int + nat) \<times> 'w"
  sys_pread :: "int \<Rightarrow> nat \<Rightarrow> int \<Rightarrow> 'w \<Rightarrow> (int + u8 list) \<times> 'w"
  sys_pwrite :: "int \<Rightarrow> u8 list \<Rightarrow> int \<Rightarrow> 'w \<Rightarrow> (int + nat) \<times> 'w"
  sys_fstat :: "int \<Rightarrow> 'w \<Rightarrow> (int + stat) \<times> 'w"
  sys_stat :: "string \<Rightarrow> 'w \<Rightarrow> (int + stat) \<times> 'w"
  sys_lstat :: "string \<Rightarrow> 'w \<Rightarrow> (int + stat) \<times> 'w"
  sys_access :: "string \<Rightarrow> 'w \<Rightarrow> int option \<times> 'w"
  sys_unlink :: "string \<Rightarrow> 'w \<Rightarrow> int option \<times> 'w"

text \<open>Open flags of Linux.\<close>

definition O_RDONLY :: u32 where "O_RDONLY = 0"
definition O_WRONLY :: u32 where "O_WRONLY = push_bit 0 1"
definition O_RDWR :: u32 where "O_RDWR = push_bit 1 1"
definition O_CREAT :: u32 where "O_CREAT = push_bit 6 1"
definition O_EXCL :: u32 where "O_EXCL = push_bit 7 1"
definition O_TRUNC :: u32 where "O_TRUNC = push_bit 9 1"
definition O_APPEND :: u32 where "O_APPEND = push_bit 10 1"
definition O_CLOEXEC :: u32 where "O_CLOEXEC = push_bit 19 1"

lemmas open_flag_defs = O_RDONLY_def O_WRONLY_def O_RDWR_def O_CREAT_def O_EXCL_def O_TRUNC_def O_APPEND_def
  O_CLOEXEC_def

section \<open>Owned descriptors (fs/detail.hpp)\<close>

text \<open>An \<open>OwnedFd\<close> is its descriptor, -1 when it owns none.\<close>

definition owned_release :: "int \<Rightarrow> int \<times> int" where
  "owned_release fd = (fd, -1)"

definition owned_close :: "'w fs_calls \<Rightarrow> int \<Rightarrow> 'w \<Rightarrow> unit result \<times> int \<times> 'w" where
  "owned_close sys fd w =
     (if fd < 0 then (Ok (), fd, w)
      else case sys_close sys fd w of
             (Some e, w1) \<Rightarrow> (Err (from_errno e), -1, w1)
           | (None, w1) \<Rightarrow> (Ok (), -1, w1))"

definition owned_move :: "int \<Rightarrow> int \<times> int" where
  "owned_move other = (other, -1)"

definition owned_move_assign :: "'w fs_calls \<Rightarrow> int \<Rightarrow> int \<Rightarrow> 'w \<Rightarrow> int \<times> int \<times> 'w" where
  "owned_move_assign sys fd other w = (let (_, _, w1) = owned_close sys fd w in (other, -1, w1))"

definition owned_destroy :: "'w fs_calls \<Rightarrow> int \<Rightarrow> 'w \<Rightarrow> 'w" where
  "owned_destroy sys fd w = snd (snd (owned_close sys fd w))"

section \<open>Offsets\<close>

definition max_off :: u64 where
  "max_off = 0x7FFFFFFFFFFFFFFF"

definition checked_offset :: "u64 \<Rightarrow> int result" where
  "checked_offset offset =
     (if max_off < offset then Err (make_error EINVAL ''file offset is too large'')
      else Ok (sint offset))"

definition checked_offset_add :: "u64 \<Rightarrow> u64 \<Rightarrow> int result" where
  "checked_offset_add offset delta =
     (if max_off < offset \<or> max_off - offset < delta
      then Err (make_error EINVAL ''file offset is too large'')
      else Ok (sint (offset + delta)))"

section \<open>Whole files\<close>

definition open_fd :: "'w fs_calls \<Rightarrow> string \<Rightarrow> u32 \<Rightarrow> u32 \<Rightarrow> 'w \<Rightarrow> int result \<times> 'w" where
  "open_fd sys path flags mode w =
     (case (if flags AND O_CREAT \<noteq> 0
            then sys_open sys path (flags OR O_CLOEXEC) (Some mode) w
            else sys_open sys path (flags OR O_CLOEXEC) None w) of
        (Inl e, w1) \<Rightarrow> (Err (from_errno e), w1)
      | (Inr fd, w1) \<Rightarrow> (Ok fd, w1))"

partial_function (option) write_all_fd ::
  "'w fs_calls \<Rightarrow> int \<Rightarrow> u8 list \<Rightarrow> nat \<Rightarrow> 'w \<Rightarrow> (unit result \<times> 'w) option" where
  "write_all_fd sys fd buf tot w =
     (if tot < length buf
      then (case sys_write sys fd (drop tot buf) w of
              (Inr n, w1) \<Rightarrow>
                if 0 < n then write_all_fd sys fd buf (tot + n) w1
                else Some (Err (make_error EIO ''write returned zero''), w1)
            | (Inl e, w1) \<Rightarrow>
                if e = EINTR then write_all_fd sys fd buf tot w1 else Some (Err (from_errno e), w1))
      else Some (Ok (), w))"

partial_function (option) read_all_fd ::
  "'w fs_calls \<Rightarrow> int \<Rightarrow> u8 list \<Rightarrow> 'w \<Rightarrow> (u8 list result \<times> 'w) option" where
  "read_all_fd sys fd acc w =
     (case sys_read sys fd 8192 w of
        (Inr bytes, w1) \<Rightarrow>
          if bytes \<noteq> [] then read_all_fd sys fd (acc @ bytes) w1 else Some (Ok acc, w1)
      | (Inl e, w1) \<Rightarrow>
          if e = EINTR then read_all_fd sys fd acc w1 else Some (Err (from_errno e), w1))"

definition read_file_sync :: "'w fs_calls \<Rightarrow> string \<Rightarrow> 'w \<Rightarrow> (u8 list result \<times> 'w) option" where
  "read_file_sync sys path w =
     (case open_fd sys path O_RDONLY 0x1A4 w of
        (Inl e, w1) \<Rightarrow> Some (Err e, w1)
      | (Inr fd, w1) \<Rightarrow>
          let w2 = snd (sys_fstat sys fd w1)
          in (case read_all_fd sys fd [] w2 of
                None \<Rightarrow> None
              | Some (Inl e, w3) \<Rightarrow> Some (Err e, owned_destroy sys fd w3)
              | Some (Inr bytes, w3) \<Rightarrow>
                  (case owned_close sys fd w3 of
                     (Inl e, _, w4) \<Rightarrow> Some (Err e, w4)
                   | (Inr _, _, w4) \<Rightarrow> Some (Ok bytes, w4))))"

definition write_file_sync :: "'w fs_calls \<Rightarrow> string \<Rightarrow> u8 list \<Rightarrow> bool \<Rightarrow> 'w \<Rightarrow> (unit result \<times> 'w) option" where
  "write_file_sync sys path buf app w =
     (let flags = O_WRONLY OR O_CREAT OR (if app then O_APPEND else O_TRUNC)
      in case open_fd sys path flags 0x1A4 w of
           (Inl e, w1) \<Rightarrow> Some (Err e, w1)
         | (Inr fd, w1) \<Rightarrow>
             (case write_all_fd sys fd buf 0 w1 of
                None \<Rightarrow> None
              | Some (Inl e, w2) \<Rightarrow> Some (Err e, owned_destroy sys fd w2)
              | Some (Inr _, w2) \<Rightarrow> (let (res, _, w3) = owned_close sys fd w2 in Some (res, w3))))"

section \<open>Positioned reads and writes\<close>

partial_function (option) read_at_loop ::
  "'w fs_calls \<Rightarrow> int \<Rightarrow> u64 \<Rightarrow> nat \<Rightarrow> u8 list \<Rightarrow> 'w \<Rightarrow> (u8 list result \<times> 'w) option" where
  "read_at_loop sys fd offset len acc w =
     (if length acc < len
      then (case checked_offset_add offset (word_of_nat (length acc)) of
              Inl e \<Rightarrow> Some (Err e, w)
            | Inr current \<Rightarrow>
                (case sys_pread sys fd (len - length acc) current w of
                   (Inr bytes, w1) \<Rightarrow>
                     if bytes \<noteq> [] then read_at_loop sys fd offset len (acc @ bytes) w1 else Some (Ok acc, w1)
                 | (Inl e, w1) \<Rightarrow>
                     if e = EINTR then read_at_loop sys fd offset len acc w1 else Some (Err (from_errno e), w1)))
      else Some (Ok acc, w))"

definition read_at_fd_sync ::
  "'w fs_calls \<Rightarrow> int \<Rightarrow> u64 \<Rightarrow> nat \<Rightarrow> 'w \<Rightarrow> (u8 list result \<times> 'w) option" where
  "read_at_fd_sync sys fd offset len w =
     (case checked_offset offset of
        Inl e \<Rightarrow> Some (Err e, w)
      | Inr _ \<Rightarrow> read_at_loop sys fd offset len [] w)"

partial_function (option) write_at_loop ::
  "'w fs_calls \<Rightarrow> int \<Rightarrow> u64 \<Rightarrow> u8 list \<Rightarrow> nat \<Rightarrow> 'w \<Rightarrow> (nat result \<times> 'w) option" where
  "write_at_loop sys fd offset buf tot w =
     (if tot < length buf
      then (case checked_offset_add offset (word_of_nat tot) of
              Inl e \<Rightarrow> Some (Err e, w)
            | Inr current \<Rightarrow>
                (case sys_pwrite sys fd (drop tot buf) current w of
                   (Inr n, w1) \<Rightarrow>
                     if 0 < n then write_at_loop sys fd offset buf (tot + n) w1
                     else Some (Err (make_error EIO ''pwrite returned zero''), w1)
                 | (Inl e, w1) \<Rightarrow>
                     if e = EINTR then write_at_loop sys fd offset buf tot w1 else Some (Err (from_errno e), w1)))
      else Some (Ok tot, w))"

definition write_at_fd_sync ::
  "'w fs_calls \<Rightarrow> int \<Rightarrow> u64 \<Rightarrow> u8 list \<Rightarrow> 'w \<Rightarrow> (nat result \<times> 'w) option" where
  "write_at_fd_sync sys fd offset buf w = write_at_loop sys fd offset buf 0 w"

section \<open>Paths\<close>

definition metadata_fd_sync :: "'w fs_calls \<Rightarrow> int \<Rightarrow> 'w \<Rightarrow> metadata result \<times> 'w" where
  "metadata_fd_sync sys fd w =
     (case sys_fstat sys fd w of
        (Inl e, w1) \<Rightarrow> (Err (from_errno e), w1)
      | (Inr st, w1) \<Rightarrow> (Ok (metadata_from_stat st), w1))"

definition metadata_path_sync :: "'w fs_calls \<Rightarrow> string \<Rightarrow> bool \<Rightarrow> 'w \<Rightarrow> metadata result \<times> 'w" where
  "metadata_path_sync sys path follow_symlink w =
     (case (if follow_symlink then sys_stat sys path w else sys_lstat sys path w) of
        (Inl e, w1) \<Rightarrow> (Err (from_errno e), w1)
      | (Inr st, w1) \<Rightarrow> (Ok (metadata_from_stat st), w1))"

definition exists_sync :: "'w fs_calls \<Rightarrow> string \<Rightarrow> 'w \<Rightarrow> bool result \<times> 'w" where
  "exists_sync sys path w =
     (case sys_access sys path w of
        (None, w1) \<Rightarrow> (Ok True, w1)
      | (Some e, w1) \<Rightarrow> if e = ENOENT then (Ok False, w1) else (Err (from_errno e), w1))"

definition remove_file_sync :: "'w fs_calls \<Rightarrow> string \<Rightarrow> 'w \<Rightarrow> unit result \<times> 'w" where
  "remove_file_sync sys path w =
     (case sys_unlink sys path w of
        (Some e, w1) \<Rightarrow> (Err (from_errno e), w1)
      | (None, w1) \<Rightarrow> (Ok (), w1))"

end
