(* ===== verification/Fs_File.thy ===== *)
theory Fs_File
  imports Fs
begin

text \<open>
  Files, \<^verbatim>\<open>src/fs/file.hpp\<close>: open options and the \<open>File\<close> object, as the work that runs on the
  blocking pool. The shared states behind the \<open>File\<close> objects are a list of descriptors (-1 after
  \<open>close\<close>); a \<open>File\<close> is the index of its state, or nothing after it was moved from. The mutex of a
  state makes each operation on it atomic.
\<close>

section \<open>Open options\<close>

record open_options =
  o_read :: bool
  o_write :: bool
  o_append :: bool
  o_truncate :: bool
  o_create :: bool
  o_create_new :: bool
  o_mode :: u32

definition default_options :: open_options where
  "default_options = \<lparr>o_read = True, o_write = False, o_append = False, o_truncate = False, o_create = False,
     o_create_new = False, o_mode = 0x1A4\<rparr>"

definition read_only :: open_options where "read_only = default_options"
definition write_only :: open_options where "write_only = default_options\<lparr>o_read := False, o_write := True\<rparr>"
definition read_write :: open_options where "read_write = default_options\<lparr>o_write := True\<rparr>"

definition create_truncate :: open_options where
  "create_truncate = default_options\<lparr>o_read := False, o_write := True, o_truncate := True, o_create := True\<rparr>"

definition append_create :: open_options where
  "append_create = default_options\<lparr>o_read := False, o_write := True, o_append := True, o_create := True\<rparr>"

definition open_flags :: "open_options \<Rightarrow> u32 result" where
  "open_flags opt =
     (let needs_write = o_write opt \<or> o_append opt \<or> o_truncate opt \<or> o_create opt \<or> o_create_new opt;
          access = (if o_read opt \<and> needs_write then Some O_RDWR
                    else if o_read opt then Some O_RDONLY
                    else if needs_write then Some O_WRONLY
                    else None)
      in case access of
           None \<Rightarrow> Err (make_error EINVAL ''OpenOptions must enable read or write access'')
         | Some f \<Rightarrow>
             let f = (if o_append opt then f OR O_APPEND else f);
                 f = (if o_truncate opt then f OR O_TRUNC else f);
                 f = (if o_create opt \<or> o_create_new opt then f OR O_CREAT else f);
                 f = (if o_create_new opt then f OR O_EXCL else f)
             in Ok f)"

section \<open>Files\<close>

type_synonym file_obj = "nat option"
type_synonym file_states = "int list"

definition file_open ::
  "'w fs_calls \<Rightarrow> string \<Rightarrow> open_options \<Rightarrow> file_states \<Rightarrow> 'w \<Rightarrow> file_obj result \<times> file_states \<times> 'w" where
  "file_open sys path opt st w =
     (case open_flags opt of
        Inl e \<Rightarrow> (Err e, st, w)
      | Inr flags \<Rightarrow>
          (case open_fd sys path flags (o_mode opt) w of
             (Inl e, w1) \<Rightarrow> (Err e, st, w1)
           | (Inr fd, w1) \<Rightarrow> (Ok (Some (length st)), st @ [fst (owned_release fd)], w1)))"

definition file_create :: "'w fs_calls \<Rightarrow> string \<Rightarrow> file_states \<Rightarrow> 'w \<Rightarrow> file_obj result \<times> file_states \<times> 'w" where
  "file_create sys path st w = file_open sys path create_truncate st w"

definition file_append :: "'w fs_calls \<Rightarrow> string \<Rightarrow> file_states \<Rightarrow> 'w \<Rightarrow> file_obj result \<times> file_states \<times> 'w" where
  "file_append sys path st w = file_open sys path append_create st w"

text \<open>The guard that every operation starts with: the state's descriptor, or the error it returns.\<close>

definition file_guard :: "file_obj \<Rightarrow> file_states \<Rightarrow> int result" where
  "file_guard f st =
     (case f of
        None \<Rightarrow> Err (make_error EBADF ''file is not open'')
      | Some i \<Rightarrow> if st ! i < 0 then Err (make_error EBADF ''file is closed'') else Ok (st ! i))"

definition file_read_at ::
  "'w fs_calls \<Rightarrow> file_obj \<Rightarrow> u64 \<Rightarrow> nat \<Rightarrow> file_states \<Rightarrow> 'w \<Rightarrow> (u8 list result \<times> 'w) option" where
  "file_read_at sys f offset len st w =
     (case file_guard f st of Inl e \<Rightarrow> Some (Err e, w) | Inr fd \<Rightarrow> read_at_fd_sync sys fd offset len w)"

definition file_write_at ::
  "'w fs_calls \<Rightarrow> file_obj \<Rightarrow> u64 \<Rightarrow> u8 list \<Rightarrow> file_states \<Rightarrow> 'w \<Rightarrow> (nat result \<times> 'w) option" where
  "file_write_at sys f offset buf st w =
     (case file_guard f st of Inl e \<Rightarrow> Some (Err e, w) | Inr fd \<Rightarrow> write_at_fd_sync sys fd offset buf w)"

text \<open>The bytes of a string.\<close>

definition bytes_of :: "string \<Rightarrow> u8 list" where
  "bytes_of s = map of_char s"

definition file_write_string_at ::
  "'w fs_calls \<Rightarrow> file_obj \<Rightarrow> u64 \<Rightarrow> string \<Rightarrow> file_states \<Rightarrow> 'w \<Rightarrow> (nat result \<times> 'w) option" where
  "file_write_string_at sys f offset s st w =
     (case file_guard f st of Inl e \<Rightarrow> Some (Err e, w) | Inr fd \<Rightarrow> write_at_fd_sync sys fd offset (bytes_of s) w)"

definition file_metadata :: "'w fs_calls \<Rightarrow> file_obj \<Rightarrow> file_states \<Rightarrow> 'w \<Rightarrow> metadata result \<times> 'w" where
  "file_metadata sys f st w =
     (case file_guard f st of Inl e \<Rightarrow> (Err e, w) | Inr fd \<Rightarrow> metadata_fd_sync sys fd w)"

definition file_state_close :: "'w fs_calls \<Rightarrow> nat \<Rightarrow> file_states \<Rightarrow> 'w \<Rightarrow> unit result \<times> file_states \<times> 'w" where
  "file_state_close sys i st w =
     (if st ! i < 0 then (Ok (), st, w)
      else case sys_close sys (st ! i) w of
             (Some e, w1) \<Rightarrow> (Err (from_errno e), st[i := -1], w1)
           | (None, w1) \<Rightarrow> (Ok (), st[i := -1], w1))"

definition file_close :: "'w fs_calls \<Rightarrow> file_obj \<Rightarrow> file_states \<Rightarrow> 'w \<Rightarrow> unit result \<times> file_states \<times> 'w" where
  "file_close sys f st w =
     (case f of None \<Rightarrow> (Ok (), st, w) | Some i \<Rightarrow> file_state_close sys i st w)"

definition file_valid :: "file_obj \<Rightarrow> file_states \<Rightarrow> bool" where
  "file_valid f st = (case f of None \<Rightarrow> False | Some i \<Rightarrow> 0 \<le> st ! i)"

definition file_fd :: "file_obj \<Rightarrow> file_states \<Rightarrow> int" where
  "file_fd f st = (case f of None \<Rightarrow> -1 | Some i \<Rightarrow> st ! i)"

section \<open>Open flags as bits\<close>

lemma bit_open_flags:
  "bit O_RDONLY n \<longleftrightarrow> False" "bit O_WRONLY n \<longleftrightarrow> n = 0" "bit O_RDWR n \<longleftrightarrow> n = 1" "bit O_CREAT n \<longleftrightarrow> n = 6"
  "bit O_EXCL n \<longleftrightarrow> n = 7" "bit O_TRUNC n \<longleftrightarrow> n = 9" "bit O_APPEND n \<longleftrightarrow> n = 10" "bit O_CLOEXEC n \<longleftrightarrow> n = 19"
  unfolding open_flag_defs by (simp, (subst bit_flag; auto)+)

text \<open>
  The flags passed to \<open>open\<close> say exactly what the options ask for: opening fails just when the
  options enable neither reading nor anything that writes, with \<open>EINVAL\<close>; otherwise the access mode is
  read-write, read-only or write-only as they require, and \<open>O_APPEND\<close>, \<open>O_TRUNC\<close>, \<open>O_CREAT\<close>
  and \<open>O_EXCL\<close> are set for the options that stand for them and no other flag is.
\<close>

theorem open_flags_exact:
  "case open_flags opt of
     Inl e \<Rightarrow> \<not> o_read opt \<and> \<not> o_write opt \<and> \<not> o_append opt \<and> \<not> o_truncate opt \<and> \<not> o_create opt \<and> \<not> o_create_new opt \<and>
              err_value e = EINVAL
   | Inr f \<Rightarrow>
       let writes = o_write opt \<or> o_append opt \<or> o_truncate opt \<or> o_create opt \<or> o_create_new opt
       in (\<forall>n. bit f n \<longleftrightarrow> (n = 0 \<and> \<not> o_read opt) \<or> (n = 1 \<and> o_read opt \<and> writes) \<or> (n = 6 \<and> (o_create opt \<or> o_create_new opt)) \<or>
                (n = 7 \<and> o_create_new opt) \<or> (n = 9 \<and> o_truncate opt) \<or> (n = 10 \<and> o_append opt)) \<and>
          (o_read opt \<or> writes)"
  by (cases "o_read opt"; cases "o_write opt"; cases "o_append opt"; cases "o_truncate opt"; cases "o_create opt"; cases "o_create_new opt";
      simp add: open_flags_def Let_def bit_or_iff bit_open_flags; auto)

end
