(* ===== verification/Fs_Properties.thy ===== *)
theory Fs_Properties
  imports Fs_File
begin

text \<open>
  What the file operations do to a file, for a kernel that keeps the contracts of \<open>pread\<close>,
  \<open>pwrite\<close> and \<open>write\<close>: short transfers and interruptions are invisible, every error path leaves a
  prefix written and no descriptor open, and offsets never overflow.
\<close>

section \<open>Offsets\<close>

lemma unat_max_off: "unat max_off = 2 ^ 63 - 1"
  by (simp add: max_off_def)

lemma sint_small:
  fixes x :: u64
  assumes "unat x < 2 ^ 63"
  shows "sint x = int (unat x)"
proof -
  have "int (unat x) < int (2 ^ 63)" using assms by (simp only: of_nat_less_iff)
  moreover have "- (2 ^ 63) \<le> uint x" by (rule order.trans [of _ 0]) simp_all
  ultimately have "signed_take_bit 63 (uint x) = uint x"
    by (intro signed_take_bit_int_eq_self) auto
  then show ?thesis by (simp add: sint_uint)
qed

lemma checked_offset_eq:
  "checked_offset off =
     (if unat off < 2 ^ 63 then Ok (int (unat off)) else Err (make_error EINVAL ''file offset is too large''))"
  by (auto simp: checked_offset_def word_less_nat_alt unat_max_off sint_small)

lemma checked_offset_add_eq:
  "checked_offset_add off d =
     (if unat off + unat d < 2 ^ 63 then Ok (int (unat off + unat d))
      else Err (make_error EINVAL ''file offset is too large''))"
proof (cases "max_off < off")
  case True
  then show ?thesis by (simp add: checked_offset_add_def word_less_nat_alt unat_max_off)
next
  case False
  then have le: "unat off \<le> 2 ^ 63 - 1" "off \<le> max_off"
    by (simp_all add: word_less_nat_alt word_le_nat_alt unat_max_off)
  then have sub: "unat (max_off - off) = 2 ^ 63 - 1 - unat off"
    by (simp add: unat_sub unat_max_off)
  have "unat (off + d) = unat off + unat d" if "unat off + unat d < 2 ^ 63"
    using that by (simp add: unat_plus_if')
  then show ?thesis
    using False le(1) by (auto simp: checked_offset_add_def word_less_nat_alt sub sint_small)
qed

text \<open>
  Offsets do not overflow. \<open>checked_offset_add\<close> returns the true sum of offset and delta whenever
  it fits a 63-bit \<open>off_t\<close>, and \<open>EINVAL\<close> otherwise, for every pair of 64-bit arguments; no
  wrapped-around offset ever reaches the kernel.
\<close>

theorem checked_offset_add_exact:
  "checked_offset_add off d =
     (if unat off + unat d \<le> 2 ^ 63 - 1 then Ok (int (unat off) + int (unat d))
      else Err (make_error EINVAL ''file offset is too large''))"
  by (auto simp: checked_offset_add_eq)

section \<open>Reading at an offset\<close>

text \<open>
  \<open>content\<close> is the file behind descriptor \<open>fd\<close>, \<open>intr\<close> how often calls may still be interrupted.
  \<open>pread\<close> returns some of the bytes at the offset, none only at the end of the file.
\<close>

definition pread_law :: "'w fs_calls \<Rightarrow> int \<Rightarrow> ('w \<Rightarrow> u8 list) \<Rightarrow> ('w \<Rightarrow> nat) \<Rightarrow> bool" where
  "pread_law sys fd content intr \<longleftrightarrow>
     (\<forall>n off w r w'. sys_pread sys fd n off w = (r, w') \<longrightarrow>
        content w' = content w \<and> intr w' \<le> intr w \<and> (r = Inl EINTR \<longrightarrow> intr w' < intr w) \<and>
        (\<forall>bs. r = Inr bs \<longrightarrow> length bs \<le> n \<and> bs = take (length bs) (drop (nat off) (content w)) \<and>
           (bs = [] \<longrightarrow> n = 0 \<or> length (content w) \<le> nat off)))"

definition pread_failed :: "'w fs_calls \<Rightarrow> int \<Rightarrow> system_error \<Rightarrow> bool" where
  "pread_failed sys fd e \<longleftrightarrow>
     (\<exists>n off w x w'. sys_pread sys fd n off w = (Inl x, w') \<and> x \<noteq> EINTR \<and> e = from_errno x)"

lemma pread_step:
  assumes "pread_law sys fd content intr" "sys_pread sys fd n (int p) w = (r, w1)" "0 < n"
  shows "content w1 = content w" "intr w1 \<le> intr w" "r = Inl EINTR \<Longrightarrow> intr w1 < intr w"
    "r = Inr bs \<Longrightarrow> length bs \<le> n \<and> bs = take (length bs) (drop p (content w)) \<and> (bs = [] \<longrightarrow> length (content w) \<le> p)"
  using assms unfolding pread_law_def by (metis, metis, metis, metis nat_int less_numeral_extra(3))

lemma take_extend:
  assumes "acc = take (length acc) (drop p c)" "bs = take (length bs) (drop (p + length acc) c)"
  shows "acc @ bs = take (length (acc @ bs)) (drop p c)"
  using assms by (metis add.commute drop_drop length_append take_add)

lemma read_at_loop_exact:
  assumes law: "pread_law sys fd content intr" and small: "length c < 2 ^ 63" and off: "unat offset < 2 ^ 63"
  shows "content w = c \<Longrightarrow> acc = take (length acc) (drop (unat offset) c) \<Longrightarrow> length acc \<le> len \<Longrightarrow>
    \<exists>r w'. read_at_loop sys fd offset len acc w = Some (r, w') \<and> content w' = c \<and>
    (case r of Inr bs \<Rightarrow> bs = take len (drop (unat offset) c) | Inl e \<Rightarrow> pread_failed sys fd e)"
proof (induction "len - length acc + intr w" arbitrary: acc w rule: less_induct)
  case less
  show ?case
  proof (cases "length acc < len")
    case False
    then have "length acc = len" using less.prems(3) by simp
    then show ?thesis using less.prems(1,2) by (subst read_at_loop.simps) auto
  next
    case True
    have "length acc \<le> length (drop (unat offset) c)"
      using less.prems(2) by (metis length_take min.cobounded1)
    then have fit: "unat offset + length acc < 2 ^ 63"
      using off small by (cases "acc = []") auto
    then have "unat (word_of_nat (length acc) :: u64) = length acc"
      by (simp add: unat_of_nat)
    with fit have ok: "checked_offset_add offset (word_of_nat (length acc)) = Ok (int (unat offset + length acc))"
      by (simp add: checked_offset_add_eq)
    obtain r w1 where p: "sys_pread sys fd (len - length acc) (int (unat offset + length acc)) w = (r, w1)" by fastforce
    have step: "read_at_loop sys fd offset len acc w = (case r of
        Inr bytes \<Rightarrow> if bytes \<noteq> [] then read_at_loop sys fd offset len (acc @ bytes) w1 else Some (Ok acc, w1)
      | Inl e \<Rightarrow> if e = EINTR then read_at_loop sys fd offset len acc w1 else Some (Err (from_errno e), w1))"
      using True p ok by (subst read_at_loop.simps) (simp split: sum.split)
    have pos: "0 < len - length acc" using True by simp
    note l = pread_step [OF law p pos]
    have c1: "content w1 = c" using l(1) less.prems(1) by simp
    show ?thesis
    proof (cases r)
      case (Inl e)
      show ?thesis
      proof (cases "e = EINTR")
        case True
        have "len - length acc + intr w1 < len - length acc + intr w" using l(3) Inl True by simp
        from less.hyps [OF this c1 less.prems(2,3)] show ?thesis unfolding step Inl using True by simp
      next
        case False
        then have "pread_failed sys fd (from_errno e)" using p Inl unfolding pread_failed_def by blast
        then show ?thesis unfolding step Inl using False c1 by simp
      qed
    next
      case (Inr bs)
      note b = l(4) [OF Inr, unfolded less.prems(1)]
      show ?thesis
      proof (cases "bs = []")
        case True
        then have "length c \<le> unat offset + length acc" using b by simp
        then have "acc = take len (drop (unat offset) c)"
          using less.prems(2,3) by (metis le_diff_conv add.commute length_drop take_all_iff order.trans)
        then show ?thesis unfolding step Inr using True c1 by simp
      next
        case False
        have "0 < length bs" "length bs \<le> len - length acc" using False b by blast+
        then have "len - length (acc @ bs) + intr w1 < len - length acc + intr w"
          using l(2) unfolding length_append by linarith
        moreover have "acc @ bs = take (length (acc @ bs)) (drop (unat offset) c)"
          using b by (intro take_extend [OF less.prems(2)]) blast
        moreover have "length (acc @ bs) \<le> len"
          using b pos unfolding length_append by linarith
        ultimately have "\<exists>r w'. read_at_loop sys fd offset len (acc @ bs) w1 = Some (r, w') \<and> content w' = c \<and>
            (case r of Inr bs \<Rightarrow> bs = take len (drop (unat offset) c) | Inl e \<Rightarrow> pread_failed sys fd e)"
          using less.hyps [OF _ c1] by blast
        then show ?thesis unfolding step Inr using False by simp
      qed
    qed
  qed
qed

section \<open>Writing at an offset\<close>

text \<open>What a file is after \<open>bs\<close> was written at \<open>p\<close>; a gap is filled with zeros.\<close>

definition overwrite :: "nat \<Rightarrow> u8 list \<Rightarrow> u8 list \<Rightarrow> u8 list" where
  "overwrite p bs c = (if bs = [] then c else take p (c @ replicate (p - length c) 0) @ bs @ drop (p + length bs) c)"

lemma overwrite_Nil [simp]: "overwrite p [] c = c"
  by (simp add: overwrite_def)

lemma overwrite_append: "overwrite (p + length a) b (overwrite p a c) = overwrite p (a @ b) c"
proof (cases "a = [] \<or> b = []")
  case False
  let ?h = "take p (c @ replicate (p - length c) 0)"
  have h: "length ?h = p" by simp
  have "take (p + length a) ((?h @ a @ drop (p + length a) c) @ replicate z 0) = ?h @ a" for z
    using h by simp
  moreover have "drop (p + length a + length b) (?h @ a @ drop (p + length a) c) = drop (p + length a + length b) c"
    using h by (simp add: add.commute add.left_commute)
  ultimately show ?thesis using False by (simp add: overwrite_def add.assoc)
qed (auto simp: overwrite_def)

lemma read_overwrite: "take (length bs) (drop p (overwrite p bs c)) = bs"
  by (cases "bs = []") (simp_all add: overwrite_def)

definition pwrite_law :: "'w fs_calls \<Rightarrow> int \<Rightarrow> ('w \<Rightarrow> u8 list) \<Rightarrow> ('w \<Rightarrow> nat) \<Rightarrow> bool" where
  "pwrite_law sys fd content intr \<longleftrightarrow>
     (\<forall>buf off w r w'. sys_pwrite sys fd buf off w = (r, w') \<longrightarrow>
        intr w' \<le> intr w \<and> (r = Inl EINTR \<longrightarrow> intr w' < intr w) \<and>
        (\<forall>e. r = Inl e \<longrightarrow> content w' = content w) \<and>
        (\<forall>n. r = Inr n \<longrightarrow> n \<le> length buf \<and> content w' = overwrite (nat off) (take n buf) (content w)))"

lemma pwrite_step:
  assumes "pwrite_law sys fd content intr" "sys_pwrite sys fd buf (int p) w = (r, w1)"
  shows "intr w1 \<le> intr w" "r = Inl EINTR \<Longrightarrow> intr w1 < intr w" "r = Inl e \<Longrightarrow> content w1 = content w"
    "r = Inr n \<Longrightarrow> n \<le> length buf \<and> content w1 = overwrite p (take n buf) (content w)"
  using assms unfolding pwrite_law_def by (metis, metis, metis, metis nat_int)

lemma write_at_loop_exact:
  assumes law: "pwrite_law sys fd content intr" and fit: "unat offset + length buf \<le> 2 ^ 63"
  shows "content w = overwrite (unat offset) (take tot buf) c \<Longrightarrow> tot \<le> length buf \<Longrightarrow>
    \<exists>r w'. write_at_loop sys fd offset buf tot w = Some (r, w') \<and>
    (case r of
       Inr n \<Rightarrow> n = length buf \<and> content w' = overwrite (unat offset) buf c
     | Inl e \<Rightarrow> \<exists>k<length buf. content w' = overwrite (unat offset) (take k buf) c)"
proof (induction "length buf - tot + intr w" arbitrary: tot w rule: less_induct)
  case less
  show ?case
  proof (cases "tot < length buf")
    case False
    then have "tot = length buf" using less.prems(2) by simp
    then show ?thesis using less.prems(1) by (subst write_at_loop.simps) auto
  next
    case True
    have "unat (word_of_nat tot :: u64) = tot"
      using fit True by (simp add: unat_of_nat)
    with fit True have ok: "checked_offset_add offset (word_of_nat tot) = Ok (int (unat offset + tot))"
      by (simp add: checked_offset_add_eq)
    obtain r w1 where p: "sys_pwrite sys fd (drop tot buf) (int (unat offset + tot)) w = (r, w1)" by fastforce
    have step: "write_at_loop sys fd offset buf tot w = (case r of
        Inr n \<Rightarrow> if 0 < n then write_at_loop sys fd offset buf (tot + n) w1
                 else Some (Err (make_error EIO ''pwrite returned zero''), w1)
      | Inl e \<Rightarrow> if e = EINTR then write_at_loop sys fd offset buf tot w1 else Some (Err (from_errno e), w1))"
      using True p ok by (subst write_at_loop.simps) (simp split: sum.split)
    note l = pwrite_step [OF law p]
    show ?thesis
    proof (cases r)
      case (Inl e)
      have c1: "content w1 = overwrite (unat offset) (take tot buf) c" using l(3) [OF Inl] less.prems(1) by simp
      show ?thesis
      proof (cases "e = EINTR")
        case True
        have "length buf - tot + intr w1 < length buf - tot + intr w" using l(2) Inl True by simp
        from less.hyps [OF this c1 less.prems(2)] show ?thesis unfolding step Inl using True by simp
      qed (use c1 \<open>tot < length buf\<close> in \<open>auto simp: step Inl\<close>)
    next
      case (Inr n)
      note b = l(4) [OF Inr]
      have "content w1 = overwrite (unat offset + length (take tot buf)) (take n (drop tot buf)) (overwrite (unat offset) (take tot buf) c)"
        using b True less.prems(1) by simp
      then have c1: "content w1 = overwrite (unat offset) (take (tot + n) buf) c"
        unfolding overwrite_append take_add .
      show ?thesis
      proof (cases "0 < n")
        case True
        have "length buf - (tot + n) + intr w1 < length buf - tot + intr w"
          using True b l(1) \<open>tot < length buf\<close> by simp
        moreover have "tot + n \<le> length buf"
          using conjunct1 [OF b] \<open>tot < length buf\<close> unfolding length_drop by linarith
        ultimately show ?thesis using less.hyps [OF _ c1] True unfolding step Inr by simp
      next
        case False
        then show ?thesis using c1 \<open>tot < length buf\<close> by (auto simp: step Inr)
      qed
    qed
  qed
qed

section \<open>A file\<close>

text \<open>
  A concrete file for the witnesses, with a script of what the next calls do: be interrupted, or
  transfer at most so many bytes (at least one); without a script they transfer everything.
\<close>

record sim_file =
  sim_data :: "u8 list"
  sim_script :: "nat option list"

definition limit :: "nat \<Rightarrow> sim_file \<Rightarrow> nat option \<times> sim_file" where
  "limit n w = (case sim_script w of
       [] \<Rightarrow> (Some n, w)
     | None # s \<Rightarrow> (None, w\<lparr>sim_script := s\<rparr>)
     | Some k # s \<Rightarrow> (Some (min n (Suc k)), w\<lparr>sim_script := s\<rparr>))"

definition sim_fs :: "sim_file fs_calls" where
  "sim_fs = \<lparr>sys_open = (\<lambda>path flags mode w. (Inr 7, w)), sys_close = (\<lambda>fd w. (None, w)),
     sys_read = (\<lambda>fd n w. (Inl EIO, w)), sys_write = (\<lambda>fd buf w. (Inl EIO, w)),
     sys_pread = (\<lambda>fd n off w. case limit n w of
         (None, w') \<Rightarrow> (Inl EINTR, w') | (Some m, w') \<Rightarrow> (Inr (take m (drop (nat off) (sim_data w))), w')),
     sys_pwrite = (\<lambda>fd buf off w. case limit (length buf) w of
         (None, w') \<Rightarrow> (Inl EINTR, w')
       | (Some m, w') \<Rightarrow> (Inr m, w'\<lparr>sim_data := overwrite (nat off) (take m buf) (sim_data w)\<rparr>)),
     sys_fstat = (\<lambda>fd w. (Inl EIO, w)), sys_stat = (\<lambda>p w. (Inl EIO, w)), sys_lstat = (\<lambda>p w. (Inl EIO, w)),
     sys_access = (\<lambda>p w. (None, w)), sys_unlink = (\<lambda>p w. (None, w))\<rparr>"

lemma limit_cases:
  "limit n w = (r, w') \<Longrightarrow> sim_data w' = sim_data w \<and> length (sim_script w') \<le> length (sim_script w) \<and>
     (r = None \<longrightarrow> length (sim_script w') < length (sim_script w)) \<and> (\<forall>m. r = Some m \<longrightarrow> m \<le> n \<and> (n = 0 \<or> 0 < m))"
  by (auto simp: limit_def split: list.splits option.splits)

lemma take_drop_length [simp]: "take (min (length xs - p) y) (drop p xs) = take y (drop p xs)"
  by (simp add: min_def)

lemma sim_pread_law: "pread_law sim_fs fd sim_data (\<lambda>w. length (sim_script w))"
  unfolding pread_law_def sim_fs_def fs_calls.simps
  by (auto dest!: limit_cases split: prod.splits option.splits)

lemma sim_pwrite_law: "pwrite_law sim_fs fd sim_data (\<lambda>w. length (sim_script w))"
  unfolding pwrite_law_def sim_fs_def fs_calls.simps
  by (auto dest!: limit_cases split: prod.splits option.splits)

section \<open>Properties\<close>

text \<open>
  C31. Reading at an offset returns exactly the bytes that are there. For a kernel whose \<open>pread\<close> returns
  some of the bytes at the offset (none only at the end of the file) and interrupts finitely often,
  \<open>read_at_fd_sync\<close> terminates; it returns the next \<open>len\<close> bytes of the file from the offset, or all
  up to its end, however the transfer was cut up, or the error of a call that failed with something other
  than \<open>EINTR\<close>.
\<close>

theorem read_at_exact:
  assumes "pread_law sys fd content intr" "length (content w) < 2 ^ 63" "unat offset < 2 ^ 63"
  shows "\<exists>r w'. read_at_fd_sync sys fd offset len w = Some (r, w') \<and> content w' = content w \<and>
    (case r of
       Inr bs \<Rightarrow> bs = take len (drop (unat offset) (content w))
     | Inl e \<Rightarrow> \<exists>n off v x v'. sys_pread sys fd n off v = (Inl x, v') \<and> x \<noteq> EINTR \<and> e = from_errno x)"
  using read_at_loop_exact [OF assms refl, of "[]" len] assms(3)
  unfolding read_at_fd_sync_def checked_offset_eq pread_failed_def by simp

theorem read_at_exact_witness:
  "\<exists>w'. read_at_fd_sync sim_fs 7 2 3 \<lparr>sim_data = [10, 11, 12, 13, 14, 15], sim_script = [Some 0, None, Some 0]\<rparr>
     = Some (Ok [12, 13, 14], w')"
proof -
  let ?w = "\<lparr>sim_data = [10, 11, 12, 13, 14, 15], sim_script = [Some 0, None, Some 0]\<rparr> :: sim_file"
  have "sys_pread sim_fs 7 n off v = (Inl x, v') \<Longrightarrow> x = EINTR" for n off v x v'
    by (auto simp: sim_fs_def split: prod.splits option.splits)
  with read_at_exact [OF sim_pread_law, of ?w 2 7 3] show ?thesis by (fastforce split: sum.splits)
qed

text \<open>
  C30. What is written at an offset is what is read there. Writing \<open>buf\<close> at an offset terminates and
  either reports all of \<open>buf\<close> and leaves the file with \<open>buf\<close> at the offset and everything else as it
  was, or fails having written a proper prefix; after a successful write, reading as many bytes at that
  offset gives \<open>buf\<close> back.
\<close>

theorem write_read_roundtrip:
  assumes "pread_law sys fd content intr" "pwrite_law sys fd content intr"
    and "unat offset + length buf \<le> 2 ^ 63" "unat offset < 2 ^ 63" "length (overwrite (unat offset) buf (content w)) < 2 ^ 63"
  shows "\<exists>r w'. write_at_fd_sync sys fd offset buf w = Some (r, w') \<and>
    (case r of
       Inl e \<Rightarrow> \<exists>k<length buf. content w' = overwrite (unat offset) (take k buf) (content w)
     | Inr n \<Rightarrow> n = length buf \<and> content w' = overwrite (unat offset) buf (content w) \<and>
         (\<exists>r2 w2. read_at_fd_sync sys fd offset (length buf) w' = Some (r2, w2) \<and>
            (case r2 of Inr bs \<Rightarrow> bs = buf | Inl e \<Rightarrow> pread_failed sys fd e)))"
proof -
  obtain r w' where w: "write_at_fd_sync sys fd offset buf w = Some (r, w')"
    "case r of
       Inr n \<Rightarrow> n = length buf \<and> content w' = overwrite (unat offset) buf (content w)
     | Inl e \<Rightarrow> \<exists>k<length buf. content w' = overwrite (unat offset) (take k buf) (content w)"
    using write_at_loop_exact [OF assms(2,3), of w 0 "content w"] by (auto simp: write_at_fd_sync_def)
  have "\<exists>r2 w2. read_at_fd_sync sys fd offset (length buf) w' = Some (r2, w2) \<and>
      (case r2 of Inr bs \<Rightarrow> bs = buf | Inl e \<Rightarrow> pread_failed sys fd e)"
    if "content w' = overwrite (unat offset) buf (content w)"
    using read_at_loop_exact [OF assms(1,5,4) that, of "[]" "length buf"] assms(4)
    unfolding read_at_fd_sync_def checked_offset_eq read_overwrite by auto
  then show ?thesis using w by (cases r) auto
qed

theorem write_read_roundtrip_witness:
  "\<exists>w'. write_at_fd_sync sim_fs 7 4 [1, 2, 3] \<lparr>sim_data = [9, 9], sim_script = [Some 1, None]\<rparr> = Some (Ok 3, w') \<and>
     sim_data w' = [9, 9, 0, 0, 1, 2, 3] \<and>
     (\<exists>w2. read_at_fd_sync sim_fs 7 4 3 w' = Some (Ok [1, 2, 3], w2))"
proof -
  let ?w = "\<lparr>sim_data = [9, 9], sim_script = [Some 1, None]\<rparr> :: sim_file"
  have nf: "\<not> pread_failed sim_fs 7 e" for e
    by (auto simp: pread_failed_def sim_fs_def split: prod.splits option.splits)
  have "\<exists>u. write_at_fd_sync sim_fs 7 4 [1, 2, 3] ?w = Some (Ok 3, u)"
    by (simp add: write_at_fd_sync_def write_at_loop.simps sim_fs_def limit_def checked_offset_add_def max_off_def)
  then obtain u where u: "write_at_fd_sync sim_fs 7 4 [1, 2, 3] ?w = Some (Ok 3, u)" by blast
  have "\<exists>r w'. write_at_fd_sync sim_fs 7 4 [1, 2, 3] ?w = Some (r, w') \<and>
    (case r of
       Inl e \<Rightarrow> \<exists>k<length [1, 2, 3 :: u8]. sim_data w' = overwrite (unat (4 :: u64)) (take k [1, 2, 3]) (sim_data ?w)
     | Inr n \<Rightarrow> n = length [1, 2, 3 :: u8] \<and> sim_data w' = overwrite (unat (4 :: u64)) [1, 2, 3] (sim_data ?w) \<and>
         (\<exists>r2 w2. read_at_fd_sync sim_fs 7 4 (length [1, 2, 3 :: u8]) w' = Some (r2, w2) \<and>
            (case r2 of Inr bs \<Rightarrow> bs = [1, 2, 3] | Inl e \<Rightarrow> pread_failed sim_fs 7 e)))"
    by (rule write_read_roundtrip [OF sim_pread_law sim_pwrite_law]) (simp_all add: overwrite_def)
  then obtain r2 w2 where d: "sim_data u = overwrite 4 [1, 2, 3] [9, 9]"
    and rd: "read_at_fd_sync sim_fs 7 4 3 u = Some (r2, w2)"
    and r2: "case r2 of Inr bs \<Rightarrow> bs = [1, 2, 3] | Inl e \<Rightarrow> pread_failed sim_fs 7 e"
    unfolding u by (auto simp: numeral_3_eq_3)
  have "r2 = Ok [1, 2, 3]" using r2 nf by (cases r2) auto
  with rd have rd': "\<exists>w2. read_at_fd_sync sim_fs 7 4 3 u = Some (Ok [1, 2, 3], w2)" by auto
  have "sim_data u = [9, 9, 0, 0, 1, 2, 3]"
    unfolding d by (simp add: overwrite_def numeral_eq_Suc)
  then show ?thesis by (intro exI [of _ u] conjI u rd')
qed

end
