(* ===== verification/Fs_Whole.thy ===== *)
theory Fs_Whole
  imports Fs_File
begin

text \<open>
  Whole files: \<open>read_file_sync\<close> and \<open>write_file_sync\<close> of \<^verbatim>\<open>src/fs/detail.hpp\<close> transfer everything
  and close what they opened, on every path; and a closed \<open>File\<close> of \<^verbatim>\<open>src/fs/file.hpp\<close> stays closed.
\<close>

section \<open>What the kernel does\<close>

text \<open>
  \<open>fds\<close> are the open descriptors, \<open>intr\<close> how often calls may still be interrupted, \<open>written\<close> the bytes
  that \<open>write\<close> has accepted, \<open>file\<close> what a path holds and \<open>unread\<close> what reading still yields.
  \<open>close\<close> frees the descriptor also when it reports an error.
\<close>

definition descriptor_law :: "'w fs_calls \<Rightarrow> ('w \<Rightarrow> int set) \<Rightarrow> bool" where
  "descriptor_law sys fds \<longleftrightarrow>
     (\<forall>p f m w r w'. sys_open sys p f m w = (r, w') \<longrightarrow>
        (case r of Inl _ \<Rightarrow> fds w' = fds w | Inr fd \<Rightarrow> 0 \<le> fd \<and> fd \<notin> fds w \<and> fds w' = insert fd (fds w))) \<and>
     (\<forall>fd w r w'. sys_close sys fd w = (r, w') \<longrightarrow> fds w' = fds w - {fd}) \<and>
     (\<forall>fd n w r w'. sys_read sys fd n w = (r, w') \<longrightarrow> fds w' = fds w) \<and>
     (\<forall>fd buf w r w'. sys_write sys fd buf w = (r, w') \<longrightarrow> fds w' = fds w) \<and>
     (\<forall>fd w r w'. sys_fstat sys fd w = (r, w') \<longrightarrow> fds w' = fds w)"

definition write_law :: "'w fs_calls \<Rightarrow> ('w \<Rightarrow> u8 list) \<Rightarrow> ('w \<Rightarrow> nat) \<Rightarrow> bool" where
  "write_law sys written intr \<longleftrightarrow>
     (\<forall>p f m w r w'. sys_open sys p f m w = (r, w') \<longrightarrow> written w' = written w) \<and>
     (\<forall>fd w r w'. sys_close sys fd w = (r, w') \<longrightarrow> written w' = written w) \<and>
     (\<forall>fd buf w r w'. sys_write sys fd buf w = (r, w') \<longrightarrow>
        intr w' \<le> intr w \<and> (r = Inl EINTR \<longrightarrow> intr w' < intr w) \<and>
        (case r of Inl _ \<Rightarrow> written w' = written w
         | Inr n \<Rightarrow> n \<le> length buf \<and> written w' = written w @ take n buf))"

definition read_law :: "'w fs_calls \<Rightarrow> (string \<Rightarrow> 'w \<Rightarrow> u8 list) \<Rightarrow> ('w \<Rightarrow> u8 list) \<Rightarrow> ('w \<Rightarrow> nat) \<Rightarrow> bool" where
  "read_law sys file unread intr \<longleftrightarrow>
     (\<forall>p f m w fd w'. sys_open sys p f m w = (Inr fd, w') \<longrightarrow> unread w' = file p w) \<and>
     (\<forall>fd w r w'. sys_fstat sys fd w = (r, w') \<longrightarrow> unread w' = unread w) \<and>
     (\<forall>fd n w r w'. sys_read sys fd n w = (r, w') \<longrightarrow>
        intr w' \<le> intr w \<and> (r = Inl EINTR \<longrightarrow> intr w' < intr w) \<and>
        (case r of Inl _ \<Rightarrow> unread w' = unread w
         | Inr bs \<Rightarrow> unread w = bs @ unread w' \<and> (bs = [] \<longrightarrow> n = 0 \<or> unread w = [])))"

lemma descriptor_lawD:
  assumes "descriptor_law sys fds"
  shows "sys_open sys p f m w = (q, w') \<Longrightarrow>
      case q of Inl _ \<Rightarrow> fds w' = fds w | Inr fd \<Rightarrow> 0 \<le> fd \<and> fd \<notin> fds w \<and> fds w' = insert fd (fds w)"
    and "sys_close sys fd w = (c, w') \<Longrightarrow> fds w' = fds w - {fd}"
    and "sys_read sys fd n w = (bs, w') \<Longrightarrow> fds w' = fds w"
    and "sys_write sys fd buf w = (k, w') \<Longrightarrow> fds w' = fds w"
    and "sys_fstat sys fd w = (st, w') \<Longrightarrow> fds w' = fds w"
  using assms unfolding descriptor_law_def by simp_all

lemma write_lawD:
  assumes "write_law sys written intr"
  shows "sys_open sys p f m w = (q, w') \<Longrightarrow> written w' = written w"
    and "sys_close sys fd w = (c, w') \<Longrightarrow> written w' = written w"
    and "sys_write sys fd buf w = (k, w') \<Longrightarrow> intr w' \<le> intr w \<and> (k = Inl EINTR \<longrightarrow> intr w' < intr w) \<and>
      (case k of Inl _ \<Rightarrow> written w' = written w | Inr n \<Rightarrow> n \<le> length buf \<and> written w' = written w @ take n buf)"
  using assms unfolding write_law_def by simp_all

lemma read_lawD:
  assumes "read_law sys file unread intr"
  shows "sys_open sys p f m w = (Inr fd, w') \<Longrightarrow> unread w' = file p w"
    and "sys_fstat sys fd w = (st, w') \<Longrightarrow> unread w' = unread w"
    and "sys_read sys fd n w = (q, w') \<Longrightarrow> intr w' \<le> intr w \<and> (q = Inl EINTR \<longrightarrow> intr w' < intr w) \<and>
      (case q of Inl _ \<Rightarrow> unread w' = unread w | Inr bs \<Rightarrow> unread w = bs @ unread w' \<and> (bs = [] \<longrightarrow> n = 0 \<or> unread w = []))"
  using assms unfolding read_law_def by simp_all

lemma owned_close_fds:
  assumes "descriptor_law sys fds" "0 \<le> fd" "owned_close sys fd w = (r, fd', w')"
  shows "fds w' = fds w - {fd}"
proof -
  obtain q v where c: "sys_close sys fd w = (q, v)" by fastforce
  then have "fds v = fds w - {fd}" by (rule descriptor_lawD(2) [OF assms(1)])
  then show ?thesis using c assms(2,3) by (cases q) (auto simp: owned_close_def)
qed

lemma owned_close_written:
  assumes "write_law sys written intr" "owned_close sys fd w = (r, fd', w')"
  shows "written w' = written w"
proof -
  obtain q v where c: "sys_close sys fd w = (q, v)" by fastforce
  then have "written v = written w" by (rule write_lawD(2) [OF assms(1)])
  then show ?thesis using c assms(2) by (cases q) (auto simp: owned_close_def split: if_splits)
qed

lemma open_fd_call:
  assumes "open_fd sys p f m w = (r, w')"
  obtains m' q where "sys_open sys p (f OR O_CLOEXEC) m' w = (q, w')"
    and "r = (case q of Inl e \<Rightarrow> Err (from_errno e) | Inr fd \<Rightarrow> Ok fd)"
proof -
  define m' where "m' = (if f AND O_CREAT \<noteq> 0 then Some m else None)"
  obtain q v where o: "sys_open sys p (f OR O_CLOEXEC) m' w = (q, v)" by fastforce
  then have "open_fd sys p f m w = (case q of Inl e \<Rightarrow> (Err (from_errno e), v) | Inr fd \<Rightarrow> (Ok fd, v))"
    by (auto simp: open_fd_def m'_def split: sum.splits)
  then have "v = w'" "r = (case q of Inl e \<Rightarrow> Err (from_errno e) | Inr fd \<Rightarrow> Ok fd)"
    using assms by (cases q; simp)+
  then show ?thesis using that o by blast
qed

lemma open_fd_fds:
  assumes "descriptor_law sys fds" "open_fd sys p f m w = (r, w')"
  shows "case r of Inl _ \<Rightarrow> fds w' = fds w | Inr fd \<Rightarrow> 0 \<le> fd \<and> fd \<notin> fds w \<and> fds w' = insert fd (fds w)"
proof -
  obtain m' q where c: "sys_open sys p (f OR O_CLOEXEC) m' w = (q, w')"
    and r: "r = (case q of Inl e \<Rightarrow> Err (from_errno e) | Inr fd \<Rightarrow> Ok fd)"
    by (rule open_fd_call [OF assms(2)])
  have "case q of Inl _ \<Rightarrow> fds w' = fds w | Inr fd \<Rightarrow> 0 \<le> fd \<and> fd \<notin> fds w \<and> fds w' = insert fd (fds w)"
    by (rule descriptor_lawD(1) [OF assms(1) c])
  then show ?thesis using r by (cases q) auto
qed

section \<open>The loops\<close>

lemma write_all_fd_complete:
  assumes dl: "descriptor_law sys fds" and wl: "write_law sys written intr"
  shows "written w = out @ take tot buf \<Longrightarrow> tot \<le> length buf \<Longrightarrow>
    \<exists>r w'. write_all_fd sys fd buf tot w = Some (r, w') \<and> fds w' = fds w \<and>
      (case r of Inr _ \<Rightarrow> written w' = out @ buf | Inl _ \<Rightarrow> \<exists>k<length buf. written w' = out @ take k buf)"
proof (induction "length buf - tot + intr w" arbitrary: tot w rule: less_induct)
  case less
  show ?case
  proof (cases "tot < length buf")
    case False
    then show ?thesis using less.prems by (subst write_all_fd.simps) auto
  next
    case True
    obtain q v where s: "sys_write sys fd (drop tot buf) w = (q, v)" by fastforce
    have f: "fds v = fds w" by (rule descriptor_lawD(4) [OF dl s])
    have l: "intr v \<le> intr w \<and> (q = Inl EINTR \<longrightarrow> intr v < intr w) \<and> (case q of Inl _ \<Rightarrow> written v = written w
         | Inr n \<Rightarrow> n \<le> length (drop tot buf) \<and> written v = written w @ take n (drop tot buf))"
      by (rule write_lawD(3) [OF wl s])
    show ?thesis
    proof (cases q)
      case (Inl e)
      show ?thesis
      proof (cases "e = EINTR")
        case True
        have "length buf - tot + intr v < length buf - tot + intr w" using l Inl True by simp
        from less.hyps [OF this _ less.prems(2)] show ?thesis
          using l Inl True s f less.prems(1) \<open>tot < length buf\<close> by (subst write_all_fd.simps) simp
      next
        case False
        then show ?thesis using l Inl s f less.prems(1) True by (subst write_all_fd.simps) auto
      qed
    next
      case (Inr n)
      have n: "n \<le> length buf - tot" "written v = out @ take (tot + n) buf"
        using l Inr less.prems(1) by (simp_all add: take_add)
      show ?thesis
      proof (cases "0 < n")
        case True
        have "length buf - (tot + n) + intr v < length buf - tot + intr w"
          using conjunct1 [OF l] True n(1) \<open>tot < length buf\<close> by linarith
        moreover have "tot + n \<le> length buf" using n(1) \<open>tot < length buf\<close> by simp
        ultimately show ?thesis
          using less.hyps [OF _ n(2)] Inr True s f \<open>tot < length buf\<close> by (subst write_all_fd.simps) simp
      next
        case False
        then show ?thesis using n(2) Inr s f True by (subst write_all_fd.simps) auto
      qed
    qed
  qed
qed

lemma read_all_fd_complete:
  assumes dl: "descriptor_law sys fds" and rl: "read_law sys file unread intr"
  shows "c = acc @ unread w \<Longrightarrow>
    \<exists>r w'. read_all_fd sys fd acc w = Some (r, w') \<and> fds w' = fds w \<and> (case r of Inr bs \<Rightarrow> bs = c | Inl _ \<Rightarrow> True)"
proof (induction "length (unread w) + intr w" arbitrary: acc w rule: less_induct)
  case less
  obtain q v where s: "sys_read sys fd 8192 w = (q, v)" by fastforce
  have f: "fds v = fds w" by (rule descriptor_lawD(3) [OF dl s])
  have l: "intr v \<le> intr w \<and> (q = Inl EINTR \<longrightarrow> intr v < intr w) \<and> (case q of Inl _ \<Rightarrow> unread v = unread w
         | Inr bs \<Rightarrow> unread w = bs @ unread v \<and> (bs = [] \<longrightarrow> (8192 :: nat) = 0 \<or> unread w = []))"
    by (rule read_lawD(3) [OF rl s])
  show ?case
  proof (cases q)
    case (Inl e)
    show ?thesis
    proof (cases "e = EINTR")
      case True
      have "length (unread v) + intr v < length (unread w) + intr w" using l Inl True by simp
      from less.hyps [OF this, of acc] show ?thesis
        using l Inl True s f less.prems by (subst read_all_fd.simps) simp
    next
      case False
      then show ?thesis using Inl s f by (subst read_all_fd.simps) auto
    qed
  next
    case (Inr bs)
    show ?thesis
    proof (cases "bs = []")
      case True
      then show ?thesis using l Inr s f less.prems by (subst read_all_fd.simps) auto
    next
      case False
      have "length (unread v) + intr v < length (unread w) + intr w" using l Inr False by (cases bs) auto
      from less.hyps [OF this, of "acc @ bs"] show ?thesis
        using l Inr False s f less.prems by (subst read_all_fd.simps) simp
    qed
  qed
qed


section \<open>Reading and writing a file\<close>

lemma write_file_sync_complete:
  assumes dl: "descriptor_law sys fds" and wl: "write_law sys written intr"
  shows "\<exists>r w'. write_file_sync sys path buf app w = Some (r, w') \<and> fds w' = fds w \<and>
    (\<exists>k\<le>length buf. written w' = written w @ take k buf) \<and> (r = Ok () \<longrightarrow> written w' = written w @ buf)"
proof -
  let ?f = "O_WRONLY OR O_CREAT OR (if app then O_APPEND else O_TRUNC)"
  obtain r1 w1 where o: "open_fd sys path ?f 0x1A4 w = (r1, w1)" by fastforce
  note f1 = open_fd_fds [OF dl o]
  have out: "written w1 = written w" using open_fd_call [OF o] write_lawD(1) [OF wl] by metis
  show ?thesis
  proof (cases r1)
    case (Inl e)
    then show ?thesis using o f1 out by (auto simp: write_file_sync_def intro: exI [of _ "0 :: nat"])
  next
    case (Inr fd)
    obtain r2 w2 where a: "write_all_fd sys fd buf 0 w1 = Some (r2, w2)" and f2: "fds w2 = fds w1"
      and c: "case r2 of Inr _ \<Rightarrow> written w2 = written w @ buf | Inl _ \<Rightarrow> \<exists>k<length buf. written w2 = written w @ take k buf"
      using write_all_fd_complete [OF dl wl, of w1 "written w" 0 buf fd] out by auto
    obtain r3 fd3 w3 where k: "owned_close sys fd w2 = (r3, fd3, w3)" by (metis prod_cases3)
    have f3: "fds w3 = fds w" using owned_close_fds [OF dl _ k] f1 f2 Inr by auto
    have c3: "written w3 = written w2" by (rule owned_close_written [OF wl k])
    show ?thesis
    proof (cases r2)
      case (Inl e)
      then show ?thesis using o \<open>r1 = Inr fd\<close> a k f3 c c3
        by (auto simp: write_file_sync_def owned_destroy_def intro: less_imp_le)
    next
      case (Inr u)
      then show ?thesis using o \<open>r1 = Inr fd\<close> a k f3 c c3
        by (auto simp: write_file_sync_def intro: exI [of _ "length buf"])
    qed
  qed
qed

lemma read_file_sync_complete:
  assumes dl: "descriptor_law sys fds" and rl: "read_law sys file unread intr"
  shows "\<exists>r w'. read_file_sync sys path w = Some (r, w') \<and> fds w' = fds w \<and> (\<forall>bs. r = Ok bs \<longrightarrow> bs = file path w)"
proof -
  obtain r1 w1 where o: "open_fd sys path O_RDONLY 0x1A4 w = (r1, w1)" by fastforce
  note f1 = open_fd_fds [OF dl o]
  show ?thesis
  proof (cases r1)
    case (Inl e)
    then show ?thesis using o f1 by (auto simp: read_file_sync_def)
  next
    case (Inr fd)
    obtain st v where s: "sys_fstat sys fd w1 = (st, v)" by fastforce
    have "unread w1 = file path w"
      using Inr by (rule_tac open_fd_call [OF o]) (auto split: sum.splits dest: read_lawD(1) [OF rl])
    then have u: "unread v = file path w" using read_lawD(2) [OF rl s] by simp
    obtain r2 w2 where a: "read_all_fd sys fd [] v = Some (r2, w2)" and f2: "fds w2 = fds w1"
      and c: "case r2 of Inr bs \<Rightarrow> bs = file path w | Inl _ \<Rightarrow> True"
      using read_all_fd_complete [OF dl rl, of "file path w" "[]" v fd] u descriptor_lawD(5) [OF dl s] by auto
    obtain r3 fd3 w3 where k: "owned_close sys fd w2 = (r3, fd3, w3)" by (metis prod_cases3)
    have f3: "fds w3 = fds w" using owned_close_fds [OF dl _ k] f1 f2 Inr by auto
    show ?thesis
      using o Inr s a k f3 c
      by (cases r2; cases r3) (auto simp: read_file_sync_def owned_destroy_def)
  qed
qed

section \<open>A disk\<close>

text \<open>A concrete kernel for the witnesses: one file, one descriptor, and calls that transfer at most two bytes.\<close>

record sim_disk =
  d_file :: "u8 list"
  d_unread :: "u8 list"
  d_written :: "u8 list"
  d_fds :: "int set"
  d_intr :: nat

definition sim_disk_calls :: "sim_disk fs_calls" where
  "sim_disk_calls = \<lparr>
     sys_open = (\<lambda>path flags mode w. if 3 \<in> d_fds w then (Inl 24, w)
                   else (Inr 3, w\<lparr>d_fds := insert 3 (d_fds w), d_unread := d_file w\<rparr>)),
     sys_close = (\<lambda>fd w. (None, w\<lparr>d_fds := d_fds w - {fd}\<rparr>)),
     sys_read = (\<lambda>fd n w. if 0 < d_intr w then (Inl EINTR, w\<lparr>d_intr := d_intr w - 1\<rparr>)
                   else (Inr (take (min n 2) (d_unread w)), w\<lparr>d_unread := drop (min n 2) (d_unread w)\<rparr>)),
     sys_write = (\<lambda>fd buf w. if 0 < d_intr w then (Inl EINTR, w\<lparr>d_intr := d_intr w - 1\<rparr>)
                   else (Inr (min 2 (length buf)), w\<lparr>d_written := d_written w @ take 2 buf\<rparr>)),
     sys_pread = (\<lambda>fd n off w. (Inl EIO, w)), sys_pwrite = (\<lambda>fd buf off w. (Inl EIO, w)),
     sys_fstat = (\<lambda>fd w. (Inl EIO, w)), sys_stat = (\<lambda>p w. (Inl EIO, w)), sys_lstat = (\<lambda>p w. (Inl EIO, w)),
     sys_access = (\<lambda>p w. (None, w)), sys_unlink = (\<lambda>p w. (None, w))\<rparr>"

lemma sim_disk_laws:
  "descriptor_law sim_disk_calls d_fds"
  "write_law sim_disk_calls d_written d_intr"
  "read_law sim_disk_calls (\<lambda>_. d_file) d_unread d_intr"
  by (auto simp: descriptor_law_def write_law_def read_law_def sim_disk_calls_def min_def split: if_splits)

section \<open>Properties\<close>



text \<open>
  C35. A closed file stays closed. After \<open>close\<close> on a file, whatever the kernel answered, every
  operation on it is refused with \<open>EBADF\<close> without a system call, \<open>valid\<close> is false, closing again
  succeeds without a second \<open>close(2)\<close>, and other files are not affected.
\<close>

theorem file_closed:
  assumes "i < length st" "file_close sys (Some i) st w = (r, st', w')"
  shows "file_read_at sys (Some i) offset len st' v = Some (Err (make_error EBADF ''file is closed''), v) \<and>
    file_write_at sys (Some i) offset buf st' v = Some (Err (make_error EBADF ''file is closed''), v) \<and>
    file_write_string_at sys (Some i) offset s st' v = Some (Err (make_error EBADF ''file is closed''), v) \<and>
    file_metadata sys (Some i) st' v = (Err (make_error EBADF ''file is closed''), v) \<and>
    file_close sys (Some i) st' v = (Ok (), st', v) \<and> \<not> file_valid (Some i) st' \<and>
    (j \<noteq> i \<longrightarrow> file_guard (Some j) st' = file_guard (Some j) st)"
proof -
  have neg: "st' ! i < 0" and other: "j \<noteq> i \<Longrightarrow> st' ! j = st ! j"
    using assms by (auto simp: file_close_def file_state_close_def split: if_splits prod.splits option.splits)
  then show ?thesis
    by (auto simp: file_read_at_def file_write_at_def file_write_string_at_def file_metadata_def file_close_def
        file_state_close_def file_valid_def file_guard_def)
qed

theorem file_closed_witness:
  "file_close sim_disk_calls (Some 0) [3, 4] \<lparr>d_file = [], d_unread = [], d_written = [], d_fds = {3, 4}, d_intr = 0\<rparr> =
     (Ok (), [-1, 4], \<lparr>d_file = [], d_unread = [], d_written = [], d_fds = {4}, d_intr = 0\<rparr>) \<and>
   file_metadata sim_disk_calls (Some 0) [-1, 4] \<lparr>d_file = [], d_unread = [], d_written = [], d_fds = {4}, d_intr = 0\<rparr> =
     (Err (make_error EBADF ''file is closed''), \<lparr>d_file = [], d_unread = [], d_written = [], d_fds = {4}, d_intr = 0\<rparr>) \<and>
   file_guard (Some 1) [-1, 4] = file_guard (Some 1) [3, 4]"
proof -
  let ?w = "\<lparr>d_file = [], d_unread = [], d_written = [], d_fds = {3, 4}, d_intr = 0\<rparr> :: sim_disk"
  have c: "file_close sim_disk_calls (Some 0) [3, 4] ?w = (Ok (), [-1, 4], ?w\<lparr>d_fds := {4}\<rparr>)"
    by (simp add: file_close_def file_state_close_def sim_disk_calls_def insert_Diff_if)
  show ?thesis
    using file_closed [OF _ c, where j = 1 and v = "?w\<lparr>d_fds := {4}\<rparr>"] c by simp
qed

end
