(* ===== verification/Thread_Pool.thy ===== *)
theory Thread_Pool
  imports Channel "HOL-Library.Multiset"
begin

text \<open>
  The thread pool, \<^verbatim>\<open>src/runtime/thread_pool.hpp\<close>: a channel of jobs, the workers that take from it,
  and the thread that shuts the pool down. A callable is of type \<open>'j\<close>; whether running it throws is the
  parameter \<open>throws\<close>, and \<open>p_ran\<close> lists the jobs that have been run. A worker blocked in \<open>recv\<close> takes no
  step; that it is woken is what \<open>Channel_Monitor\<close> shows of the channel.
\<close>

section \<open>State\<close>

text \<open>
  What is queued: the packaged task that \<open>submit\<close> makes, whose exception goes to the future, or the
  callable given to \<open>spawn\<close>, whose exception reaches the worker.
\<close>

datatype 'j job = Packaged 'j | Direct 'j

fun job_throws :: "('j \<Rightarrow> bool) \<Rightarrow> 'j job \<Rightarrow> bool" where
  "job_throws throws (Packaged f) = False"
| "job_throws throws (Direct f) = throws f"

datatype 'j worker = Waiting | Busy "'j job" | Finished

text \<open>
  Where the thread in \<open>shutdown\<close> is: not there, about to close the channel, joining the worker with this
  number, returned.
\<close>

datatype shutdown_phase = NoShutdown | Closing | Joining nat | Joined

record 'j pool =
  p_tasks :: "'j job chan"
  p_workers :: "'j worker list"
  p_shutdown :: bool
  p_phase :: shutdown_phase
  p_ran :: "'j job list"
  p_errors :: "'j job list"

definition kDefaultTaskQueueCapacity :: nat where "kDefaultTaskQueueCapacity = 1024"
definition kFallbackThreadCount :: nat where "kFallbackThreadCount = 1"

text \<open>\<open>hw\<close> is what \<open>std::thread::hardware_concurrency\<close> answers, 0 if unknown.\<close>

definition default_thread_count :: "nat \<Rightarrow> nat" where
  "default_thread_count hw = (if 0 < hw then hw else kFallbackThreadCount)"

definition new_pool :: "nat \<Rightarrow> nat \<Rightarrow> 'j pool" where
  "new_pool num_threads queue_capacity =
     \<lparr>p_tasks = make_channel queue_capacity, p_workers = replicate num_threads Waiting, p_shutdown = False,
      p_phase = NoShutdown, p_ran = [], p_errors = []\<rparr>"

section \<open>Operations\<close>

text \<open>\<open>None\<close>: the caller of \<open>submit\<close> is blocked on the full queue. The future it returns is that of the job.\<close>

definition pool_submit :: "'j \<Rightarrow> 'j pool \<Rightarrow> ('j job result \<times> 'j pool) option" where
  "pool_submit f p =
     (case send (Packaged f) (p_tasks p) of
        None \<Rightarrow> None
      | Some (Inl e, c, _) \<Rightarrow> Some (Err e, p\<lparr>p_tasks := c\<rparr>)
      | Some (Inr _, c, _) \<Rightarrow> Some (Ok (Packaged f), p\<lparr>p_tasks := c\<rparr>))"

definition pool_spawn :: "'j \<Rightarrow> 'j pool \<Rightarrow> unit result \<times> 'j pool" where
  "pool_spawn f p = (let (r, c, _) = try_send (Direct f) (p_tasks p) in (r, p\<lparr>p_tasks := c\<rparr>))"

definition pool_size :: "'j pool \<Rightarrow> nat" where "pool_size p = length (p_workers p)"
definition pool_pending :: "'j pool \<Rightarrow> nat" where "pool_pending p = size_chan (p_tasks p)"
definition pool_is_shutdown :: "'j pool \<Rightarrow> bool" where "pool_is_shutdown p = p_shutdown p"

text \<open>
  One turn of a worker: taking a job or leaving when the channel is closed and empty, and running a job,
  with the exception it throws handed to the error handler.
\<close>

definition worker_loop :: "('j \<Rightarrow> bool) \<Rightarrow> nat \<Rightarrow> 'j pool \<Rightarrow> 'j pool option" where
  "worker_loop throws i p =
     (case p_workers p ! i of
        Waiting \<Rightarrow>
          (case recv (p_tasks p) of
             None \<Rightarrow> None
           | Some (Some job, c, _) \<Rightarrow> Some (p\<lparr>p_tasks := c, p_workers := (p_workers p)[i := Busy job]\<rparr>)
           | Some (None, c, _) \<Rightarrow> Some (p\<lparr>p_tasks := c, p_workers := (p_workers p)[i := Finished]\<rparr>))
      | Busy job \<Rightarrow>
          Some (p\<lparr>p_ran := p_ran p @ [job], p_errors := (if job_throws throws job then p_errors p @ [job] else p_errors p),
                  p_workers := (p_workers p)[i := Waiting]\<rparr>)
      | Finished \<Rightarrow> None)"

text \<open>\<open>shutdown\<close>: setting the flag, then closing the channel and joining the workers one after the other.\<close>

definition pool_shutdown :: "'j pool \<Rightarrow> 'j pool" where
  "pool_shutdown p =
     (if p_shutdown p then p
      else p\<lparr>p_shutdown := True, p_phase := Closing\<rparr>)"

definition pool_join :: "'j pool \<Rightarrow> 'j pool option" where
  "pool_join p =
     (case p_phase p of
        Closing \<Rightarrow> Some (p\<lparr>p_tasks := fst (close_chan (p_tasks p)), p_phase := Joining 0\<rparr>)
      | Joining i \<Rightarrow>
          if length (p_workers p) \<le> i then Some (p\<lparr>p_phase := Joined\<rparr>)
          else if p_workers p ! i = Finished then Some (p\<lparr>p_phase := Joining (Suc i)\<rparr>)
          else None
      | _ \<Rightarrow> None)"

section \<open>Runs\<close>

text \<open>The pools that can arise, with the jobs they have accepted, in order.\<close>

inductive pool_reach :: "('j \<Rightarrow> bool) \<Rightarrow> nat \<Rightarrow> nat \<Rightarrow> 'j job list \<Rightarrow> 'j pool \<Rightarrow> bool"
  for throws :: "'j \<Rightarrow> bool" and n cap :: nat where
  start: "pool_reach throws n cap [] (new_pool n cap)"
| submit: "pool_reach throws n cap acc p \<Longrightarrow> pool_submit f p = Some (r, p') \<Longrightarrow>
    pool_reach throws n cap (if is_ok r then acc @ [Packaged f] else acc) p'"
| spawn: "pool_reach throws n cap acc p \<Longrightarrow> pool_spawn f p = (r, p') \<Longrightarrow>
    pool_reach throws n cap (if is_ok r then acc @ [Direct f] else acc) p'"
| work: "pool_reach throws n cap acc p \<Longrightarrow> i < length (p_workers p) \<Longrightarrow> worker_loop throws i p = Some p' \<Longrightarrow>
    pool_reach throws n cap acc p'"
| shutdown: "pool_reach throws n cap acc p \<Longrightarrow> pool_reach throws n cap acc (pool_shutdown p)"
| join: "pool_reach throws n cap acc p \<Longrightarrow> pool_join p = Some p' \<Longrightarrow> pool_reach throws n cap acc p'"

fun held :: "'j worker \<Rightarrow> 'j job multiset" where
  "held (Busy j) = {#j#}"
| "held Waiting = {#}"
| "held Finished = {#}"

definition running :: "'j pool \<Rightarrow> 'j job multiset" where
  "running p = sum_list (map held (p_workers p))"

lemma sum_list_update_mset:
  fixes xs :: "'a multiset list"
  assumes "i < length xs"
  shows "sum_list (xs[i := y]) + xs ! i = sum_list xs + y"
  using assms by (induction xs arbitrary: i) (auto simp: nth_Cons ac_simps split: nat.split)

lemma running_update:
  assumes "i < length (p_workers p)" "p_workers p' = (p_workers p)[i := x]"
  shows "running p' + held (p_workers p ! i) = running p + held x"
  using assms sum_list_update_mset [of i "map held (p_workers p)" "held x"]
  by (simp add: running_def map_update)

lemma running_none:
  assumes "\<forall>w\<in>set (p_workers p). w = Finished"
  shows "running p = {#}"
proof -
  have "\<forall>w\<in>set ws. w = Finished \<Longrightarrow> sum_list (map held ws) = {#}" for ws :: "'a worker list"
    by (induction ws) simp_all
  then show ?thesis using assms by (simp add: running_def)
qed

text \<open>
  The invariant: what was accepted is, in order, what has been taken and what is queued; what was taken
  is being run or has been run; a worker leaves only when nothing is left; and a worker that has been
  joined has left.
\<close>

definition pool_inv :: "('j \<Rightarrow> bool) \<Rightarrow> nat \<Rightarrow> 'j job list \<Rightarrow> 'j pool \<Rightarrow> bool" where
  "pool_inv throws n acc p \<longleftrightarrow>
     length (p_workers p) = n \<and>
     (\<exists>taken. acc = taken @ queue (p_tasks p) \<and> mset taken = running p + mset (p_ran p)) \<and>
     p_errors p = filter (job_throws throws) (p_ran p) \<and>
     (Finished \<in> set (p_workers p) \<longrightarrow> closed (p_tasks p) \<and> queue (p_tasks p) = []) \<and>
     p_shutdown p = (p_phase p \<noteq> NoShutdown) \<and>
     (case p_phase p of
        Joining i \<Rightarrow> closed (p_tasks p) \<and> i \<le> n \<and> (\<forall>k<i. p_workers p ! k = Finished)
      | Joined \<Rightarrow> closed (p_tasks p) \<and> (\<forall>k<n. p_workers p ! k = Finished)
      | _ \<Rightarrow> \<not> closed (p_tasks p))"

lemma running_new: "running (new_pool n cap) = {#}"
proof -
  have "sum_list (replicate n {#}) = {#}" by (induction n) simp_all
  then show ?thesis by (simp add: running_def new_pool_def)
qed

lemma pool_inv_start: "pool_inv throws n [] (new_pool n cap)"
  by (simp add: pool_inv_def running_new) (simp add: new_pool_def make_channel_def)

lemma pool_inv_try_send:
  assumes "pool_inv throws n acc p" "try_send j (p_tasks p) = (r, c, ns)"
  shows "pool_inv throws n (if is_ok r then acc @ [j] else acc) (p\<lparr>p_tasks := c\<rparr>)"
  using assms(2)
proof (cases rule: try_send_cases)
  case accepted
  then show ?thesis using assms(1) by (auto simp: pool_inv_def running_def split: shutdown_phase.splits)
next
  case (refused e)
  then have "p\<lparr>p_tasks := c\<rparr> = p" by simp
  then show ?thesis using assms(1) refused by simp
qed

lemma pool_inv_submit:
  assumes "pool_inv throws n acc p" "pool_submit f p = Some (r, p')"
  shows "pool_inv throws n (if is_ok r then acc @ [Packaged f] else acc) p'"
proof -
  obtain q c ns where t: "try_send (Packaged f) (p_tasks p) = (q, c, ns)" by (metis prod_cases3)
  have "p' = p\<lparr>p_tasks := c\<rparr>" "is_ok r = is_ok q"
    using assms(2) t by (auto simp: pool_submit_def send_eq split: if_splits sum.splits)
  then show ?thesis using pool_inv_try_send [OF assms(1) t] by simp
qed

lemma worker_loop_cases:
  assumes "worker_loop throws i p = Some p'"
  obtains (take) job js where "p_workers p ! i = Waiting" "queue (p_tasks p) = job # js"
      "p' = p\<lparr>p_tasks := (p_tasks p)\<lparr>queue := js\<rparr>, p_workers := (p_workers p)[i := Busy job]\<rparr>"
    | (leave) "p_workers p ! i = Waiting" "queue (p_tasks p) = []" "closed (p_tasks p)"
      "p' = p\<lparr>p_workers := (p_workers p)[i := Finished]\<rparr>"
    | (run) job where "p_workers p ! i = Busy job"
      "p' = p\<lparr>p_ran := p_ran p @ [job], p_errors := (if job_throws throws job then p_errors p @ [job] else p_errors p),
              p_workers := (p_workers p)[i := Waiting]\<rparr>"
  using assms
  by (cases "p_workers p ! i"; cases "queue (p_tasks p)")
    (auto simp: worker_loop_def recv_def pop_front_def split: if_splits)

lemma pool_inv_work:
  assumes inv: "pool_inv throws n acc p" and i: "i < length (p_workers p)" and w: "worker_loop throws i p = Some p'"
  shows "pool_inv throws n acc p'"
  using w
proof (cases rule: worker_loop_cases)
  case (take job js)
  then have keep: "p_workers p ! k = Finished \<Longrightarrow> (p_workers p)[i := x] ! k = Finished" for k x by (cases "k = i") auto
  have r: "running p' = running p + {#job#}" using running_update [OF i, of p' "Busy job"] take by simp
  obtain taken where tk: "acc = taken @ job # js" "mset taken = running p + mset (p_ran p)"
    using inv take by (auto simp: pool_inv_def)
  have "Finished \<notin> set (p_workers p)" using inv take by (auto simp: pool_inv_def)
  then have fin: "Finished \<notin> set ((p_workers p)[i := Busy job])" using set_list_update_subset by fastforce
  have "acc = (taken @ [job]) @ js" "mset (taken @ [job]) = running p' + mset (p_ran p)" using tk r by simp_all
  then show ?thesis
    using inv fin keep take by (fastforce simp: pool_inv_def split: shutdown_phase.splits)
next
  case leave
  then have keep: "p_workers p ! k = Finished \<Longrightarrow> (p_workers p)[i := x] ! k = Finished" for k x by (cases "k = i") auto
  have "running p' = running p" using running_update [OF i, of p' Finished] leave by simp
  then show ?thesis
    using inv leave keep by (auto simp: pool_inv_def split: shutdown_phase.splits)
next
  case (run j)
  have r: "running p = running p' + {#j#}" using running_update [OF i, of p' Waiting] run by simp
  have keep: "p_workers p ! k = Finished \<Longrightarrow> (p_workers p)[i := Waiting] ! k = Finished" for k using run by (cases "k = i") auto
  have fin: "Finished \<in> set ((p_workers p)[i := Waiting]) \<Longrightarrow> Finished \<in> set (p_workers p)"
    using set_list_update_subset by fastforce
  show ?thesis
    using inv r keep fin by (auto simp: pool_inv_def run(2) split: shutdown_phase.splits)
qed

lemma pool_inv_join:
  assumes "pool_inv throws n acc p" "pool_join p = Some p'"
  shows "pool_inv throws n acc p'"
proof (cases "p_phase p")
  case Closing
  then show ?thesis using assms unfolding pool_inv_def pool_join_def by (auto simp: running_def close_chan_def)
next
  case (Joining i)
  then show ?thesis using assms unfolding pool_inv_def pool_join_def
    by (auto simp: running_def less_Suc_eq split: if_splits)
qed (use assms in \<open>simp_all add: pool_inv_def pool_join_def running_def\<close>)

lemma pool_inv_spawn:
  assumes "pool_inv throws n acc p" "pool_spawn f p = (r, p')"
  shows "pool_inv throws n (if is_ok r then acc @ [Direct f] else acc) p'"
proof -
  obtain q c ns where t: "try_send (Direct f) (p_tasks p) = (q, c, ns)" by (metis prod_cases3)
  have "r = q" "p' = p\<lparr>p_tasks := c\<rparr>" using assms(2) t by (simp_all add: pool_spawn_def)
  then show ?thesis using pool_inv_try_send [OF assms(1) t] by simp
qed

lemma pool_inv_shutdown: "pool_inv throws n acc p \<Longrightarrow> pool_inv throws n acc (pool_shutdown p)"
  by (cases "p_phase p") (auto simp: pool_inv_def pool_shutdown_def running_def)

lemma pool_reach_inv: "pool_reach throws n cap acc p \<Longrightarrow> pool_inv throws n acc p"
proof (induction rule: pool_reach.induct)
  case start
  show ?case by (rule pool_inv_start)
next
  case (submit acc p f r p')
  show ?case by (rule pool_inv_submit [OF submit.IH submit.hyps(2)])
next
  case (spawn acc p f r p')
  show ?case by (rule pool_inv_spawn [OF spawn.IH spawn.hyps(2)])
next
  case (work acc p i p')
  show ?case by (rule pool_inv_work [OF work.IH work.hyps(2,3)])
next
  case (shutdown acc p)
  show ?case by (rule pool_inv_shutdown [OF shutdown.IH])
next
  case (join acc p p')
  show ?case by (rule pool_inv_join [OF join.IH join.hyps(2)])
qed

section \<open>Shutdown\<close>

text \<open>What is left to do: every turn of a worker makes it smaller.\<close>

fun turns :: "'j worker \<Rightarrow> nat" where
  "turns (Busy j) = 2"
| "turns Waiting = 1"
| "turns Finished = 0"

definition left_to_do :: "'j pool \<Rightarrow> nat" where
  "left_to_do p = 2 * length (queue (p_tasks p)) + sum_list (map turns (p_workers p))"

lemma sum_list_update_nat:
  fixes xs :: "nat list"
  assumes "i < length xs"
  shows "sum_list (xs[i := y]) + xs ! i = sum_list xs + y"
  using assms by (induction xs arbitrary: i) (auto simp: nth_Cons split: nat.split)

lemma worker_loop_decreases:
  assumes i: "i < length (p_workers p)" and w: "worker_loop throws i p = Some p'"
  shows "left_to_do p' < left_to_do p"
proof -
  have u: "sum_list (map turns ((p_workers p)[i := x])) + turns (p_workers p ! i) = sum_list (map turns (p_workers p)) + turns x" for x
    using sum_list_update_nat [of i "map turns (p_workers p)" "turns x"] i by (simp add: map_update)
  show ?thesis
    using w u [of Waiting] u [of Finished] u [of "Busy (hd (queue (p_tasks p)))"]
    by (cases "p_workers p ! i"; cases "queue (p_tasks p)")
      (auto simp: worker_loop_def left_to_do_def recv_def pop_front_def split: if_splits)
qed

lemma worker_can_move:
  assumes "pool_inv throws n acc p" "closed (p_tasks p)" "i < n" "p_workers p ! i \<noteq> Finished"
  shows "worker_loop throws i p \<noteq> None"
  using assms by (cases "p_workers p ! i"; cases "queue (p_tasks p)") (auto simp: pool_inv_def worker_loop_def recv_def pop_front_def)

text \<open>
  C40. The pool runs every job it has accepted, exactly once, and shutting down drains it. In every state
  that submissions, workers and a shutdown can produce in any interleaving: accepted jobs were taken in
  order, and each is queued, being run or has been run, none twice; the error handler has got exactly the jobs
  that threw. A shutdown cannot hang: while it waits for a worker, that worker can take a turn, and every turn
  of a worker brings the end closer. Once it has returned, with at least one worker, every accepted job has been
  run and nothing more is accepted.
\<close>

theorem pool_shutdown_drains:
  assumes "pool_reach throws n cap acc p"
  shows "(\<exists>taken. acc = taken @ queue (p_tasks p) \<and> mset taken = running p + mset (p_ran p)) \<and>
    p_errors p = filter (job_throws throws) (p_ran p) \<and>
    (\<forall>i p'. i < n \<and> worker_loop throws i p = Some p' \<longrightarrow> left_to_do p' < left_to_do p) \<and>
    (p_phase p = Closing \<longrightarrow> pool_join p \<noteq> None) \<and>
    (\<forall>i. p_phase p = Joining i \<longrightarrow> pool_join p \<noteq> None \<or> worker_loop throws i p \<noteq> None) \<and>
    (p_phase p = Joined \<and> 0 < n \<longrightarrow> mset (p_ran p) = mset acc \<and> (\<forall>j. \<not> is_ok (fst (pool_spawn j p))))"
proof -
  note inv = pool_reach_inv [OF assms]
  have len: "length (p_workers p) = n" using inv by (simp add: pool_inv_def)
  have "pool_join p \<noteq> None \<or> worker_loop throws i p \<noteq> None" if ph: "p_phase p = Joining i" for i
    using worker_can_move [OF inv, of i] inv ph by (auto simp: pool_inv_def pool_join_def)
  moreover have "mset (p_ran p) = mset acc \<and> (\<forall>j. \<not> is_ok (fst (pool_spawn j p)))" if ph: "p_phase p = Joined" "0 < n"
  proof -
    have fin: "\<forall>k<n. p_workers p ! k = Finished" "closed (p_tasks p)" using inv ph by (simp_all add: pool_inv_def)
    have "\<forall>w\<in>set (p_workers p). w = Finished" using fin(1) len by (metis in_set_conv_nth)
    then have "running p = {#}" by (rule running_none)
    moreover have "Finished \<in> set (p_workers p)" using fin(1) len ph(2) by (metis nth_mem)
    ultimately show ?thesis using inv fin(2) by (auto simp: pool_inv_def pool_spawn_def try_send_def)
  qed
  moreover have "p_phase p = Closing \<Longrightarrow> pool_join p \<noteq> None" by (simp add: pool_join_def)
  moreover have "worker_loop throws i p = Some p' \<Longrightarrow> i < n \<Longrightarrow> left_to_do p' < left_to_do p" for i p'
    using worker_loop_decreases len by blast
  moreover have "\<exists>taken. acc = taken @ queue (p_tasks p) \<and> mset taken = running p + mset (p_ran p)"
    "p_errors p = filter (job_throws throws) (p_ran p)" using inv by (simp_all add: pool_inv_def)
  ultimately show ?thesis by blast
qed

theorem pool_shutdown_drains_witness:
  "\<exists>p. pool_reach (\<lambda>j. j = 2) 1 4 [Packaged 2, Direct (2 :: nat)] p \<and> p_phase p = Joined \<and>
     mset (p_ran p) = {#Packaged 2, Direct 2#} \<and> p_errors p = [Direct 2]"
proof -
  let ?R = "pool_reach (\<lambda>j :: nat. j = 2) 1 4"
  let ?jobs = "[Packaged 2, Direct (2 :: nat)]"
  define p1 where "p1 = snd (the (pool_submit (2 :: nat) (new_pool 1 4)))"
  define p2 where "p2 = snd (pool_spawn 2 p1)"
  define w where "w p = the (worker_loop (\<lambda>j :: nat. j = 2) 0 p)" for p
  define p3 where "p3 = the (pool_join (pool_shutdown p2))"
  define q where "q = w (w (w (w (w p3))))"
  define q' where "q' = the (pool_join (the (pool_join q)))"
  note ev = q'_def q_def w_def p3_def p2_def p1_def pool_shutdown_def pool_spawn_def pool_submit_def send_def try_send_def new_pool_def
    make_channel_def close_chan_def worker_loop_def recv_def pop_front_def pool_join_def
  have "pool_submit 2 (new_pool 1 4) = Some (Ok (Packaged 2), p1)" by (simp add: ev)
  from pool_reach.submit [OF pool_reach.start this] have "?R [Packaged 2] p1" by simp
  moreover have "pool_spawn 2 p1 = (Ok (), p2)" by (simp add: ev)
  ultimately have "?R ?jobs p2" using pool_reach.spawn by fastforce
  then have s: "?R ?jobs (pool_shutdown p2)" by (rule pool_reach.shutdown)
  have "pool_join (pool_shutdown p2) = Some p3" by (simp add: ev)
  with s have s3: "?R ?jobs p3" by (rule pool_reach.join)
  have step: "?R ?jobs p \<Longrightarrow> length (p_workers p) = 1 \<Longrightarrow> worker_loop (\<lambda>j. j = 2) 0 p \<noteq> None \<Longrightarrow> ?R ?jobs (w p)" for p
    by (erule pool_reach.work [where i = 0]) (auto simp: w_def)
  have "?R ?jobs q" unfolding q_def by (intro step s3) (simp_all add: ev)
  moreover have "pool_join q = Some (the (pool_join q))" "pool_join (the (pool_join q)) = Some q'" by (simp_all add: ev)
  ultimately have r: "?R ?jobs q'" using pool_reach.join by blast
  have ph: "p_phase q' = Joined" by (simp add: ev)
  have "mset (p_ran q') = mset ?jobs" "p_errors q' = filter (job_throws (\<lambda>j. j = 2)) (p_ran q')"
    using pool_shutdown_drains [OF r] ph by simp_all
  moreover have "p_ran q' = ?jobs" by (simp add: ev)
  ultimately show ?thesis using r ph by (intro exI [of _ q']) simp
qed

end
