(* ===== verification/Bridge.thy ===== *)
theory Bridge
  imports Event_Loop Thread_Pool
begin

text \<open>
  Blocking work for coroutines, \<^verbatim>\<open>src/runtime/bridge.hpp\<close>: the notifier over an eventfd, the state
  that the awaiter and the worker's closure share, the awaiter and \<open>spawn_blocking\<close>. The function that
  is run is \<open>'w \<Rightarrow> ('a option \<times> 'w) option\<close>: \<open>None\<close> when it does not return, and an inner \<open>None\<close> for an
  exception. A function that returns nothing has \<open>'a = unit\<close>.
\<close>

section \<open>The notifier\<close>

text \<open>
  A notifier is its descriptor, -1 when it owns none. In addition to the calls of the loop it reads the
  counter: how many bytes and which value.
\<close>

type_synonym notifier = int

record ('v, 'w) bridge_sys = "('v, 'w) sys" +
  read_counter_fd :: "int \<Rightarrow> 'w \<Rightarrow> (int + nat \<times> u64) \<times> 'w"

definition notifier_create :: "('v, 'w, 'm) sys_scheme \<Rightarrow> 'w \<Rightarrow> notifier result \<times> 'w" where
  "notifier_create sys w =
     (case eventfd sys w of
        (Inl e, w1) \<Rightarrow> (Err (from_errno e), w1)
      | (Inr fd, w1) \<Rightarrow> (Ok fd, w1))"

definition notifier_fd :: "notifier \<Rightarrow> int" where
  "notifier_fd n = n"

definition notifier_valid :: "notifier \<Rightarrow> bool" where
  "notifier_valid n = (0 \<le> n)"

definition notifier_notify :: "('v, 'w, 'm) sys_scheme \<Rightarrow> notifier \<Rightarrow> 'w \<Rightarrow> unit result \<times> 'w" where
  "notifier_notify sys n w =
     (case write_eventfd sys n w of
        (Inl e, w1) \<Rightarrow> (Err (from_errno e), w1)
      | (Inr m, w1) \<Rightarrow> if m \<noteq> 8 then (Err (from_errno (sys_errno sys w1)), w1) else (Ok (), w1))"

definition notifier_acknowledge :: "('v, 'w) bridge_sys \<Rightarrow> notifier \<Rightarrow> 'w \<Rightarrow> u64 result \<times> 'w" where
  "notifier_acknowledge sys n w =
     (case read_counter_fd sys n w of
        (Inl e, w1) \<Rightarrow> if e = EAGAIN then (Ok 0, w1) else (Err (from_errno e), w1)
      | (Inr (m, val), w1) \<Rightarrow>
          if m \<noteq> 8
          then (if sys_errno sys w1 = EAGAIN then (Ok 0, w1) else (Err (from_errno (sys_errno sys w1)), w1))
          else (Ok val, w1))"

definition notifier_close :: "('v, 'w, 'm) sys_scheme \<Rightarrow> notifier \<Rightarrow> 'w \<Rightarrow> unit result \<times> notifier \<times> 'w" where
  "notifier_close sys n w =
     (if n < 0 then (Ok (), n, w)
      else case close_fd sys n w of
             (Some e, w1) \<Rightarrow> (Err (from_errno e), -1, w1)
           | (None, w1) \<Rightarrow> (Ok (), -1, w1))"

definition notifier_destroy :: "('v, 'w, 'm) sys_scheme \<Rightarrow> notifier \<Rightarrow> 'w \<Rightarrow> 'w" where
  "notifier_destroy sys n w = snd (snd (notifier_close sys n w))"

definition notifier_move :: "notifier \<Rightarrow> notifier \<times> notifier" where
  "notifier_move other = (other, -1)"

definition notifier_move_assign ::
  "('v, 'w, 'm) sys_scheme \<Rightarrow> notifier \<Rightarrow> notifier \<Rightarrow> 'w \<Rightarrow> notifier \<times> notifier \<times> 'w" where
  "notifier_move_assign sys this other w = (other, -1, snd (snd (notifier_close sys this w)))"

section \<open>State\<close>

text \<open>
  The states the awaiters and closures share, by address; \<open>bs_refs\<close> counts the shared pointers to one.
  A closure is the address of its state and the function.
\<close>

record 'a blocking_state =
  bs_notifier :: notifier
  bs_result :: "'a result"
  bs_refs :: nat

type_synonym ('a, 'w) work = "nat \<times> ('w \<Rightarrow> ('a option \<times> 'w) option)"

record ('a, 'w) blocking_awaiter =
  ba_state :: nat
  ba_work :: "('a, 'w) work option"
  ba_readiness :: nat

text \<open>
  A core, the pool, the shared states, and the awaiters in the frames that are suspended in
  \<open>spawn_blocking\<close>, each with its coroutine. \<open>b_finishing\<close>: the workers that have run their closure and
  not yet destroyed it; \<open>b_alive\<close>: the loop has not been torn down.
\<close>

record ('a, 'v, 'w) bridge =
  b_core :: "('v, 'w) core"
  b_pool :: "('a, 'w) work pool"
  b_states :: "nat \<rightharpoonup> 'a blocking_state"
  b_awaiting :: "(coro \<times> ('a, 'w) blocking_awaiter) list"
  b_finishing :: "nat set"
  b_alive :: bool

definition not_completed_error :: system_error where
  "not_completed_error = make_error ECANCELED ''blocking task not completed''"

definition new_blocking_state :: "notifier \<Rightarrow> 'a blocking_state" where
  "new_blocking_state n = \<lparr>bs_notifier = n, bs_result = Err not_completed_error, bs_refs = 1\<rparr>"

definition b_world :: "('a, 'v, 'w) bridge \<Rightarrow> 'w" where
  "b_world b = world (b_core b)"

definition set_world :: "'w \<Rightarrow> ('a, 'v, 'w) bridge \<Rightarrow> ('a, 'v, 'w) bridge" where
  "set_world w b = b\<lparr>b_core := (b_core b)\<lparr>world := w\<rparr>\<rparr>"

definition set_state :: "nat \<Rightarrow> 'a blocking_state option \<Rightarrow> ('a, 'v, 'w) bridge \<Rightarrow> ('a, 'v, 'w) bridge" where
  "set_state p st b = b\<lparr>b_states := (b_states b)(p := st)\<rparr>"

definition store_result :: "nat \<Rightarrow> 'a result \<Rightarrow> ('a, 'v, 'w) bridge \<Rightarrow> ('a, 'v, 'w) bridge" where
  "store_result p res b = set_state p (map_option (\<lambda>st. st\<lparr>bs_result := res\<rparr>) (b_states b p)) b"

text \<open>Copying and dropping a shared pointer; the last one closes the notifier.\<close>

definition retain :: "nat \<Rightarrow> ('a, 'v, 'w) bridge \<Rightarrow> ('a, 'v, 'w) bridge" where
  "retain p b = set_state p (map_option (\<lambda>st. st\<lparr>bs_refs := bs_refs st + 1\<rparr>) (b_states b p)) b"

definition release_ref :: "('v, 'w) bridge_sys \<Rightarrow> nat \<Rightarrow> ('a, 'v, 'w) bridge \<Rightarrow> ('a, 'v, 'w) bridge" where
  "release_ref sys p b =
     (case b_states b p of
        None \<Rightarrow> b
      | Some st \<Rightarrow>
          if bs_refs st \<le> 1
          then set_state p None (set_world (notifier_destroy sys (bs_notifier st) (b_world b)) b)
          else set_state p (Some (st\<lparr>bs_refs := bs_refs st - 1\<rparr>)) b)"

section \<open>The awaiter\<close>

definition blocking_awaiter_new ::
  "nat \<Rightarrow> nat \<Rightarrow> notifier \<Rightarrow> ('a, 'v, 'w) bridge \<Rightarrow> ('a, 'w) blocking_awaiter \<times> ('a, 'v, 'w) bridge" where
  "blocking_awaiter_new p q n b =
     (\<lparr>ba_state = p, ba_work = None, ba_readiness = q\<rparr>,
      set_state p (Some (new_blocking_state n))
        (b\<lparr>b_core := (b_core b)\<lparr>cells := (cells (b_core b))\<lparr>results := (results (cells (b_core b)))(q := Err not_completed_error)\<rparr>\<rparr>\<rparr>))"

definition blocking_await_ready :: "('a, 'w) blocking_awaiter \<Rightarrow> bool" where
  "blocking_await_ready aw = False"

definition set_work ::
  "('w \<Rightarrow> ('a option \<times> 'w) option) \<Rightarrow> ('a, 'w) blocking_awaiter \<Rightarrow> ('a, 'v, 'w) bridge
     \<Rightarrow> ('a, 'w) blocking_awaiter \<times> ('a, 'v, 'w) bridge" where
  "set_work fn aw b = (aw\<lparr>ba_work := Some (ba_state aw, fn)\<rparr>, retain (ba_state aw) b)"

text \<open>The body of the closure, which a worker of the pool runs.\<close>

definition work_outcome :: "'a option \<Rightarrow> 'a result" where
  "work_outcome out =
     (case out of
        Some v \<Rightarrow> Ok v
      | None \<Rightarrow> Err (make_error EPERM ''exception in spawn_blocking task''))"

definition run_work ::
  "('v, 'w) bridge_sys \<Rightarrow> ('a, 'w) work \<Rightarrow> ('a, 'v, 'w) bridge \<Rightarrow> ('a, 'v, 'w) bridge option" where
  "run_work sys job b =
     (case snd job (b_world b) of
        None \<Rightarrow> None
      | Some (out, w1) \<Rightarrow>
          Some (case b_states b (fst job) of
                  None \<Rightarrow> set_world w1 b
                | Some st \<Rightarrow>
                    let res = work_outcome out;
                        (nr, w2) = notifier_notify sys (bs_notifier st) w1;
                        res = (case nr of Inl e \<Rightarrow> if is_ok res then Err e else res | Inr _ \<Rightarrow> res)
                    in store_result (fst job) res (set_world w2 b)))"

definition b_deregister :: "int \<Rightarrow> ('a, 'v, 'w) bridge \<Rightarrow> ('a, 'v, 'w) bridge" where
  "b_deregister fd b = b\<lparr>b_core := (b_core b)\<lparr>l_reactor := deregister fd (l_reactor (b_core b))\<rparr>\<rparr>"

definition awaiter_fd :: "('a, 'w) blocking_awaiter \<Rightarrow> ('a, 'v, 'w) bridge \<Rightarrow> int" where
  "awaiter_fd aw b = (case b_states b (ba_state aw) of None \<Rightarrow> -1 | Some st \<Rightarrow> bs_notifier st)"

text \<open>
  \<open>await_suspend\<close>: the closure is moved into the pool's queue; one that the pool refuses is destroyed
  there, and with it its shared pointer.
\<close>

definition blocking_await_suspend ::
  "('v, 'w) bridge_sys \<Rightarrow> coro \<Rightarrow> ('a, 'w) blocking_awaiter \<Rightarrow> ('a, 'v, 'w) bridge
     \<Rightarrow> bool \<times> ('a, 'w) blocking_awaiter \<times> ('a, 'v, 'w) bridge" where
  "blocking_await_suspend sys h aw b =
     (let c = b_core b; p = ba_state aw; fd = awaiter_fd aw b;
          (reg, r, w) = register_read (epoll_ctl sys) fd (Some h) (Some (ba_readiness aw)) None Ready (l_reactor c) (world c);
          b1 = b\<lparr>b_core := c\<lparr>l_reactor := r, world := w\<rparr>\<rparr>
      in (case reg of
           Inl e \<Rightarrow> (False, aw, store_result p (Err e) b1)
         | Inr _ \<Rightarrow>
             (case ba_work aw of
                None \<Rightarrow> (True, aw, b1)
              | Some job \<Rightarrow>
                  let (spawned, pl) = pool_spawn job (b_pool b1);
                      aw1 = aw\<lparr>ba_work := None\<rparr>;
                      b2 = b1\<lparr>b_pool := pl\<rparr>
                  in (case spawned of
                        Inl e \<Rightarrow> (False, aw1, store_result p (Err e) (b_deregister fd (release_ref sys p b2)))
                      | Inr _ \<Rightarrow> (True, aw1, b2)))))"

definition blocking_await_resume ::
  "('v, 'w) bridge_sys \<Rightarrow> ('a, 'w) blocking_awaiter \<Rightarrow> ('a, 'v, 'w) bridge \<Rightarrow> 'a result \<times> ('a, 'v, 'w) bridge" where
  "blocking_await_resume sys aw b =
     (let fd = awaiter_fd aw b; (ack, w) = notifier_acknowledge sys fd (b_world b); b1 = b_deregister fd (set_world w b)
      in case ack of
           Inl e \<Rightarrow> (Err e, b1)
         | Inr _ \<Rightarrow> (case b_states b1 (ba_state aw) of None \<Rightarrow> Err not_completed_error | Some st \<Rightarrow> bs_result st, b1))"

text \<open>The awaiter's destructor drops the closure, if it is still there, and the shared state.\<close>

definition blocking_awaiter_destroy ::
  "('v, 'w) bridge_sys \<Rightarrow> ('a, 'w) blocking_awaiter \<Rightarrow> ('a, 'v, 'w) bridge \<Rightarrow> ('a, 'v, 'w) bridge" where
  "blocking_awaiter_destroy sys aw b =
     release_ref sys (ba_state aw)
       (case ba_work aw of None \<Rightarrow> b | Some job \<Rightarrow> release_ref sys (fst job) b)"

section \<open>spawn\_blocking\<close>

text \<open>
  The coroutine up to its suspension (\<open>None\<close>) or its end, and from its resumption to its end. \<open>p\<close> and
  \<open>q\<close> are the addresses of the shared state and of the awaiter's \<open>readiness_\<close>.
\<close>

definition spawn_blocking_finish ::
  "('v, 'w) bridge_sys \<Rightarrow> ('a, 'w) blocking_awaiter \<Rightarrow> ('a, 'v, 'w) bridge \<Rightarrow> 'a result \<times> ('a, 'v, 'w) bridge" where
  "spawn_blocking_finish sys aw b =
     (let (res, b1) = blocking_await_resume sys aw b in (res, blocking_awaiter_destroy sys aw b1))"

definition spawn_blocking_start ::
  "('v, 'w) bridge_sys \<Rightarrow> nat \<Rightarrow> nat \<Rightarrow> coro \<Rightarrow> ('w \<Rightarrow> ('a option \<times> 'w) option) \<Rightarrow> ('a, 'v, 'w) bridge
     \<Rightarrow> 'a result option \<times> ('a, 'v, 'w) bridge" where
  "spawn_blocking_start sys p q h fn b =
     (case notifier_create sys (b_world b) of
        (Inl e, w) \<Rightarrow> (Some (Err e), set_world w b)
      | (Inr n, w) \<Rightarrow>
          let (aw, b1) = blocking_awaiter_new p q n (set_world w b);
              (aw, b2) = set_work fn aw b1;
              (suspended, aw, b3) = blocking_await_suspend sys h aw b2
          in if suspended then (None, b3\<lparr>b_awaiting := b_awaiting b3 @ [(h, aw)]\<rparr>)
             else let (res, b4) = spawn_blocking_finish sys aw b3 in (Some res, b4))"

section \<open>The worker and the loop around it\<close>

fun callable :: "'j job \<Rightarrow> 'j" where
  "callable (Packaged f) = f"
| "callable (Direct f) = f"

text \<open>
  A worker of the pool: running the closure it has taken, which it does once, and the turns of
  \<open>worker_loop\<close>, where the closure that was run is destroyed. Between the two the coroutine may already
  have been resumed.
\<close>

definition bridge_run :: "('v, 'w) bridge_sys \<Rightarrow> nat \<Rightarrow> ('a, 'v, 'w) bridge \<Rightarrow> ('a, 'v, 'w) bridge option" where
  "bridge_run sys i b =
     (case p_workers (b_pool b) ! i of
        Busy job \<Rightarrow>
          if i \<in> b_finishing b then None
          else map_option (\<lambda>b1. b1\<lparr>b_finishing := insert i (b_finishing b)\<rparr>) (run_work sys (callable job) b)
      | _ \<Rightarrow> None)"

definition bridge_turn :: "('v, 'w) bridge_sys \<Rightarrow> nat \<Rightarrow> ('a, 'v, 'w) bridge \<Rightarrow> ('a, 'v, 'w) bridge option" where
  "bridge_turn sys i b =
     (case worker_loop (\<lambda>_. False) i (b_pool b) of
        None \<Rightarrow> None
      | Some pl \<Rightarrow>
          (case p_workers (b_pool b) ! i of
             Busy job \<Rightarrow>
               if i \<in> b_finishing b
               then Some (release_ref sys (fst (callable job)) (b\<lparr>b_pool := pl, b_finishing := b_finishing b - {i}\<rparr>))
               else None
           | _ \<Rightarrow> Some (b\<lparr>b_pool := pl\<rparr>)))"

definition bridge_poll :: "('v, 'w) bridge_sys \<Rightarrow> ('a, 'v, 'w) bridge \<Rightarrow> ('a, 'v, 'w) bridge" where
  "bridge_poll sys b = b\<lparr>b_core := snd (poll_io (sys.truncate sys) (b_core b))\<rparr>"

text \<open>Resuming a coroutine of the ready queue that is suspended in \<open>spawn_blocking\<close>.\<close>

definition bridge_resume ::
  "('v, 'w) bridge_sys \<Rightarrow> coro \<Rightarrow> ('a, 'w) blocking_awaiter \<Rightarrow> ('a, 'v, 'w) bridge \<Rightarrow> 'a result \<times> ('a, 'v, 'w) bridge" where
  "bridge_resume sys h aw b =
     spawn_blocking_finish sys aw
       (b\<lparr>b_core := (b_core b)\<lparr>ready_queue := remove1 (Some h) (ready_queue (b_core b))\<rparr>,
          b_awaiting := remove1 (h, aw) (b_awaiting b)\<rparr>)"

text \<open>Tearing the loop down destroys the suspended frames, with their awaiters.\<close>

definition bridge_teardown :: "('v, 'w) bridge_sys \<Rightarrow> ('a, 'v, 'w) bridge \<Rightarrow> ('a, 'v, 'w) bridge" where
  "bridge_teardown sys b =
     fold (\<lambda>(_, aw). blocking_awaiter_destroy sys aw) (b_awaiting b) (b\<lparr>b_awaiting := [], b_alive := False\<rparr>)"

end
