(* ===== verification/Bridge_Poll.thy ===== *)
theory Bridge_Poll
  imports Bridge Awaiter_Properties
begin

text \<open>
  What the bridge for blocking work relies on in the kernel and in the reactor: the laws of eventfds, and
  what a poll does to a coroutine that waits for one of them.
\<close>

section \<open>The kernel's counters\<close>

text \<open>
  \<open>eventfd(2)\<close>, for \<open>ctr\<close> the counters of the eventfds that notifiers own: a new one is 0 and has an unused
  number; writing 1 to a counter that is 0 succeeds; reading takes the value, or fails with \<open>EAGAIN\<close> when it
  is 0; a descriptor is readable when its counter is not 0. \<open>epoll\<close> and the clock do not change counters.
\<close>

definition eventfd_laws :: "('v, 'w) bridge_sys \<Rightarrow> ('w \<Rightarrow> int \<rightharpoonup> nat) \<Rightarrow> bool" where
  "eventfd_laws sys ctr \<longleftrightarrow>
     (\<forall>w. case eventfd sys w of
            (Inl e, w') \<Rightarrow> ctr w' = ctr w
          | (Inr fd, w') \<Rightarrow> 0 \<le> fd \<and> ctr w fd = None \<and> ctr w' = (ctr w)(fd \<mapsto> 0)) \<and>
     (\<forall>fd w. ctr w fd = Some 0 \<longrightarrow>
        fst (write_eventfd sys fd w) = Inr 8 \<and> ctr (snd (write_eventfd sys fd w)) = (ctr w)(fd \<mapsto> 1)) \<and>
     (\<forall>fd w. ctr w fd = Some 0 \<longrightarrow>
        fst (read_counter_fd sys fd w) = Inl EAGAIN \<and> ctr (snd (read_counter_fd sys fd w)) = ctr w) \<and>
     (\<forall>fd w n. ctr w fd = Some n \<longrightarrow> 0 < n \<longrightarrow>
        fst (read_counter_fd sys fd w) = Inr (8, of_nat n) \<and> ctr (snd (read_counter_fd sys fd w)) = (ctr w)(fd \<mapsto> 0)) \<and>
     (\<forall>fd w. ctr (snd (close_fd sys fd w)) = (ctr w)(fd := None)) \<and>
     (\<forall>ep x fd m w. ctr (snd (epoll_ctl sys ep x fd m w)) = ctr w) \<and>
     (\<forall>w. ctr (snd (clock_now sys w)) = ctr w) \<and>
     (\<forall>ep n t w. ctr (snd (epoll_wait sys ep n t w)) = ctr w) \<and>
     (\<forall>ep n t w evs fd x. fst (epoll_wait sys ep n t w) = Inr evs \<longrightarrow> (fd, x) \<in> set evs \<longrightarrow> ctr w fd = Some 0 \<longrightarrow>
        x AND EPOLLIN = 0 \<and> x AND (EPOLLERR OR EPOLLHUP) = 0)"

lemma eventfd_lawsD:
  assumes "eventfd_laws sys ctr"
  shows "eventfd sys w = (Inl e, w') \<Longrightarrow> ctr w' = ctr w"
    and "eventfd sys w = (Inr fd, w') \<Longrightarrow> 0 \<le> fd \<and> ctr w fd = None \<and> ctr w' = (ctr w)(fd \<mapsto> 0)"
    and "ctr w fd = Some 0 \<Longrightarrow> fst (write_eventfd sys fd w) = Inr 8 \<and> ctr (snd (write_eventfd sys fd w)) = (ctr w)(fd \<mapsto> 1)"
    and "ctr w fd = Some 0 \<Longrightarrow> fst (read_counter_fd sys fd w) = Inl EAGAIN \<and> ctr (snd (read_counter_fd sys fd w)) = ctr w"
    and "ctr w fd = Some n \<Longrightarrow> 0 < n \<Longrightarrow>
           fst (read_counter_fd sys fd w) = Inr (8, of_nat n) \<and> ctr (snd (read_counter_fd sys fd w)) = (ctr w)(fd \<mapsto> 0)"
    and "ctr (snd (close_fd sys fd w)) = (ctr w)(fd := None)"
    and "ctr (snd (epoll_ctl sys ep x fd m w)) = ctr w"
    and "ctr (snd (clock_now sys w)) = ctr w"
    and "ctr (snd (epoll_wait sys ep n' t w)) = ctr w"
    and "fst (epoll_wait sys ep n' t w) = Inr evs \<Longrightarrow> (fd, y) \<in> set evs \<Longrightarrow> ctr w fd = Some 0 \<Longrightarrow>
           y AND EPOLLIN = 0 \<and> y AND (EPOLLERR OR EPOLLHUP) = 0"
proof -
  note laws = assms [unfolded eventfd_laws_def]
  show "eventfd sys w = (Inl e, w') \<Longrightarrow> ctr w' = ctr w"
    "eventfd sys w = (Inr fd, w') \<Longrightarrow> 0 \<le> fd \<and> ctr w fd = None \<and> ctr w' = (ctr w)(fd \<mapsto> 0)"
    using spec [OF conjunct1 [OF laws], of w] by simp_all
  show "ctr w fd = Some 0 \<Longrightarrow> fst (write_eventfd sys fd w) = Inr 8 \<and> ctr (snd (write_eventfd sys fd w)) = (ctr w)(fd \<mapsto> 1)"
    "ctr w fd = Some 0 \<Longrightarrow> fst (read_counter_fd sys fd w) = Inl EAGAIN \<and> ctr (snd (read_counter_fd sys fd w)) = ctr w"
    "ctr w fd = Some n \<Longrightarrow> 0 < n \<Longrightarrow>
       fst (read_counter_fd sys fd w) = Inr (8, of_nat n) \<and> ctr (snd (read_counter_fd sys fd w)) = (ctr w)(fd \<mapsto> 0)"
    "ctr (snd (close_fd sys fd w)) = (ctr w)(fd := None)" "ctr (snd (epoll_ctl sys ep x fd m w)) = ctr w"
    "ctr (snd (clock_now sys w)) = ctr w" "ctr (snd (epoll_wait sys ep n' t w)) = ctr w"
    using laws by simp_all
  show "fst (epoll_wait sys ep n' t w) = Inr evs \<Longrightarrow> (fd, y) \<in> set evs \<Longrightarrow> ctr w fd = Some 0 \<Longrightarrow>
     y AND EPOLLIN = 0 \<and> y AND (EPOLLERR OR EPOLLHUP) = 0"
    using laws [THEN conjunct2, THEN conjunct2, THEN conjunct2, THEN conjunct2, THEN conjunct2, THEN conjunct2,
        THEN conjunct2, THEN conjunct2] by blast
qed

lemma arm_counters:
  assumes "eventfd_laws sys ctr"
  shows "ctr (snd (arm (epoll_ctl sys) ep fd m w)) = ctr w"
  using eventfd_lawsD(7) [OF assms] by (auto simp: arm_def split: prod.split option.split) (metis snd_conv)+

lemma register_counters:
  assumes "eventfd_laws sys ctr" "register_read (epoll_ctl sys) fd h q st c r w = (res, r', w')"
  shows "ctr w' = ctr w"
  using register_read_spec [OF assms(2)] arm_counters [OF assms(1)]
  by (auto split: if_splits prod.splits option.splits) (metis snd_conv)+

lemma poll_event_counters:
  assumes "eventfd_laws sys ctr" "poll_event (epoll_ctl sys) (fd, x) (n, mem, r, w) = (n', mem', r', w')"
  shows "ctr w' = ctr w"
  using poll_event_spec(4) [OF assms(2)] arm_counters [OF assms(1)] by simp

section \<open>Where the reactor knows a coroutine\<close>

text \<open>The places of the table of waiters that hold a coroutine: a descriptor, and whether as a writer.\<close>

definition spots :: "coro \<Rightarrow> (int \<Rightarrow> fd_entry) \<Rightarrow> (int \<times> bool) set" where
  "spots h t = {(fd, b). \<exists>e. (if b then wr (t fd) else rd (t fd)) = Some e \<and> p_handle e = Some h}"

definition queued :: "coro \<Rightarrow> ('v, 'w) core \<Rightarrow> nat" where
  "queued h c = count_list (ready_queue c) (Some h) + count_list (io_ready (l_reactor c)) h"

text \<open>A coroutine that waits only for \<open>fd\<close>, for reading and without a wait state.\<close>

definition waits_at :: "coro \<Rightarrow> int \<Rightarrow> (int \<Rightarrow> fd_entry) \<Rightarrow> bool" where
  "waits_at h fd t \<longleftrightarrow> spots h t = {(fd, False)} \<and> p_state (the (rd (t fd))) = None"

lemma in_spots: "(fd, b) \<in> spots h t \<longleftrightarrow> (\<exists>e. (if b then wr (t fd) else rd (t fd)) = Some e \<and> p_handle e = Some h)"
  by (simp add: spots_def)

lemma in_spots_upd: "(g, b) \<in> spots h (t(fd := e)) \<longleftrightarrow> (if g = fd then (fd, b) \<in> spots h (\<lambda>_. e) else (g, b) \<in> spots h t)"
  by (simp add: in_spots)

lemma spots_clear: "spots h (t(fd := empty_entry)) = spots h t - {(fd, False), (fd, True)}"
proof -
  have "(g, b) \<in> spots h (t(fd := empty_entry)) \<longleftrightarrow> (g, b) \<in> spots h t - {(fd, False), (fd, True)}" for g b
    by (cases b) (auto simp: in_spots_upd in_spots [of _ _ _ "\<lambda>_. empty_entry"])
  then show ?thesis by (simp add: set_eq_iff)
qed

lemma fire_out_other: "p_handle y \<noteq> Some h \<Longrightarrow> count_list (fire_out y mem) h = 0"
  by (auto simp: fire_out_def split: option.split)

lemma takes_some: "takes_rd x e \<Longrightarrow> \<exists>y. rd e = Some y" "takes_wr x e \<Longrightarrow> \<exists>y. wr e = Some y"
  by (auto simp: takes_rd_def takes_wr_def)

lemma spec_event_waits:
  assumes "spec_event (fd, x) (t, mem, out) = (t', mem', out')" "waits_at h f t"
  shows "if fd = f \<and> takes_rd x (t f)
         then spots h t' = {} \<and> count_list out' h = count_list out h + 1
         else waits_at h f t' \<and> count_list out' h = count_list out h"
proof -
  let ?e = "t fd"
  define o1 where "o1 = (if takes_rd x ?e then fire_out (the (rd ?e)) mem else [])"
  define m1 where "m1 = (if takes_rd x ?e then fire_mem (the (rd ?e)) mem else mem)"
  define o2 where "o2 = (if takes_wr x ?e then fire_out (the (wr ?e)) m1 else [])"
  have t': "t' = t(fd := \<lparr>rd = (if takes_rd x ?e then None else rd ?e), wr = (if takes_wr x ?e then None else wr ?e)\<rparr>)"
    and out': "out' = out @ o1 @ o2"
    using assms(1) by (auto simp: spec_event_def Let_def o1_def o2_def m1_def split: if_splits)
  obtain e where e: "rd (t f) = Some e" "p_handle e = Some h" "p_state e = None"
    using assms(2) in_spots [of f False h t] by (auto simp: waits_at_def)
  have sp: "(g, b) \<in> spots h t \<longleftrightarrow> g = f \<and> \<not> b" for g b using assms(2) by (simp add: waits_at_def)
  have wr_h: "wr (t g) = Some y \<Longrightarrow> p_handle y \<noteq> Some h" for g y
    using sp [of g True] by (simp add: in_spots)
  have rd_h: "rd (t g) = Some y \<Longrightarrow> g \<noteq> f \<Longrightarrow> p_handle y \<noteq> Some h" for g y
    using sp [of g False] by (simp add: in_spots)
  have o2: "count_list o2 h = 0"
    using wr_h takes_some(2) [of x ?e] by (auto simp: o2_def fire_out_other)
  have new: "(g, b) \<in> spots h t' \<longleftrightarrow> g = f \<and> \<not> b \<and> \<not> (fd = f \<and> takes_rd x (t f))" for g b
    using wr_h rd_h e by (auto simp: t' in_spots takes_rd_def split: if_splits)
  show ?thesis
  proof (cases "fd = f \<and> takes_rd x (t f)")
    case True
    then have "o1 = [h]" using e by (simp add: o1_def fire_out_def settled_def)
    moreover have "spots h t' = {}" using new True by auto
    ultimately show ?thesis using True o2 by (simp add: out')
  next
    case False
    have "count_list o1 h = 0"
    proof (cases "fd = f")
      case True
      then show ?thesis using False by (simp add: o1_def)
    next
      case False
      then show ?thesis using rd_h takes_some(1) [of x ?e] by (auto simp: o1_def fire_out_other)
    qed
    moreover have "spots h t' = {(f, False)}" using new False by auto
    moreover have "rd (t' f) = rd (t f)" using False by (auto simp: t')
    ultimately show ?thesis using o2 assms(2) unfolding if_not_P [OF False] by (simp add: out' waits_at_def)
  qed
qed

lemma spec_event_gone:
  assumes "spec_event (fd, x) (t, mem, out) = (t', mem', out')" "spots h t = {}"
  shows "spots h t' = {} \<and> count_list out' h = count_list out h"
proof -
  have h: "rd (t g) = Some y \<Longrightarrow> p_handle y \<noteq> Some h" "wr (t g) = Some y \<Longrightarrow> p_handle y \<noteq> Some h" for g y
    using assms(2) in_spots [of g _ h t] by (metis empty_iff)+
  have "count_list (if takes_rd x (t fd) then fire_out (the (rd (t fd))) mem else []) h = 0" for mem
    using h takes_some(1) [of x "t fd"] by (auto simp: fire_out_other)
  moreover have "count_list (if takes_wr x (t fd) then fire_out (the (wr (t fd))) mem else []) h = 0" for mem
    using h takes_some(2) [of x "t fd"] by (auto simp: fire_out_other)
  moreover have "spots h t' = {}"
    using assms(1) h by (auto simp: spec_event_def Let_def spots_def split: if_splits)
  ultimately show ?thesis using assms(1) by (auto simp: spec_event_def Let_def split: if_splits)
qed

text \<open>The same for all events of a poll, on the reactor, and for the poll of a core.\<close>

definition no_input :: "int \<Rightarrow> (int \<times> u32) list \<Rightarrow> bool" where
  "no_input f evs \<longleftrightarrow> (\<forall>(fd, x)\<in>set evs. fd = f \<longrightarrow> x AND EPOLLIN = 0 \<and> x AND (EPOLLERR OR EPOLLHUP) = 0)"

definition moved_on :: "coro \<Rightarrow> int \<Rightarrow> bool \<Rightarrow> (int \<Rightarrow> fd_entry) \<Rightarrow> nat \<Rightarrow> (int \<Rightarrow> fd_entry) \<Rightarrow> nat \<Rightarrow> bool" where
  "moved_on h f silent t k t' k' \<longleftrightarrow>
     (waits_at h f t \<longrightarrow> (waits_at h f t' \<and> k' = k) \<or> (spots h t' = {} \<and> k' = k + 1 \<and> \<not> silent)) \<and>
     (spots h t = {} \<longrightarrow> spots h t' = {} \<and> k' = k)"

lemma moved_on_trans: "moved_on h f silent t k t1 k1 \<Longrightarrow> moved_on h f silent t1 k1 t2 k2 \<Longrightarrow> moved_on h f silent t k t2 k2"
  unfolding moved_on_def by (metis add.assoc)

lemma moved_on_refl: "moved_on h f silent t k t k"
  by (simp add: moved_on_def)

lemma poll_event_moves:
  assumes "poll_event ctl (fd, x) (n, mem, r, w) = (n', mem', r', w')" "silent \<Longrightarrow> no_input f [(fd, x)]"
  shows "moved_on h f silent (view r) (count_list (io_ready r) h) (view r') (count_list (io_ready r') h)"
  using spec_event_waits [OF poll_event_spec(1) [OF assms(1)], of h f] spec_event_gone [OF poll_event_spec(1) [OF assms(1)], of h]
    assms(2)
  by (auto simp: moved_on_def no_input_def takes_rd_def split: if_splits)

lemma poll_events_move:
  assumes "eventfd_laws sys ctr"
  shows "fold (poll_event (epoll_ctl sys)) evs (n, mem, r, w) = (n', mem', r', w') \<Longrightarrow>
    ctr w' = ctr w \<and> ((silent \<longrightarrow> no_input f evs) \<longrightarrow>
      moved_on h f silent (view r) (count_list (io_ready r) h) (view r') (count_list (io_ready r') h))"
proof (induction evs arbitrary: n mem r w)
  case (Cons ev evs)
  obtain fd x where ev: "ev = (fd, x)" by fastforce
  obtain n1 mem1 r1 w1 where pe: "poll_event (epoll_ctl sys) (fd, x) (n, mem, r, w) = (n1, mem1, r1, w1)"
    using prod_cases4 by blast
  from Cons.prems have "fold (poll_event (epoll_ctl sys)) evs (n1, mem1, r1, w1) = (n', mem', r', w')"
    by (simp add: ev pe)
  note IH = Cons.IH [OF this]
  have "moved_on h f silent (view r) (count_list (io_ready r) h) (view r1) (count_list (io_ready r1) h)"
    if "silent \<longrightarrow> no_input f (ev # evs)"
    by (rule poll_event_moves [OF pe]) (use that in \<open>auto simp: no_input_def ev\<close>)
  then show ?case
    using IH poll_event_counters [OF assms pe] by (auto simp: no_input_def intro: moved_on_trans)
qed (simp add: moved_on_refl)

lemma truncate_sys [simp]:
  "epoll_ctl (sys.truncate sys) = epoll_ctl sys" "epoll_wait (sys.truncate sys) = epoll_wait sys"
  "clock_now (sys.truncate sys) = clock_now sys"
  by (simp_all add: sys.defs)

lemma poll_io_moves:
  assumes "eventfd_laws sys ctr"
  shows "ctr (world (snd (poll_io (sys.truncate sys) c))) = ctr (world c)"
    and "moved_on h f (ctr (world c) f = Some 0) (view (l_reactor c)) (queued h c)
      (view (l_reactor (snd (poll_io (sys.truncate sys) c)))) (queued h (snd (poll_io (sys.truncate sys) c)))"
proof -
  let ?c = "snd (poll_io (sys.truncate sys) c)"
  obtain now w1 where t: "clock_now sys (world c) = (now, w1)" by fastforce
  obtain x w2 where e: "epoll_wait sys (epoll_fd (l_reactor c)) kMaxEventsPerPoll (poll_timeout_ms (poll_timeout now (l_timer c))) w1 = (x, w2)"
    by fastforce
  have w: "ctr w1 = ctr (world c)" "ctr w2 = ctr w1"
    using eventfd_lawsD(8) [OF assms, of "world c"] t eventfd_lawsD(9) [OF assms] e by (simp, metis snd_conv)
  have goal: "ctr (world ?c) = ctr (world c) \<and> moved_on h f (ctr (world c) f = Some 0) (view (l_reactor c)) (queued h c)
      (view (l_reactor ?c)) (queued h ?c)"
  proof (cases x)
    case (Inl err)
    then show ?thesis using w
      by (simp add: poll_io_def t poll_def e queued_def reactor_drain_ready_into_def moved_on_refl moved_on_def count_list_map_Some)
  next
    case (Inr evs)
    obtain n' mem' r' w' where p: "fold (poll_event (epoll_ctl sys)) evs (0, cells c, l_reactor c, w2) = (n', mem', r', w')"
      using prod_cases4 by blast
    have "ctr w1 f = Some 0 \<longrightarrow> no_input f evs"
      using eventfd_lawsD(10) [OF assms, where w = w1 and fd = f] e Inr by (auto simp: no_input_def) (metis fst_conv)+
    with poll_events_move [OF assms p, of "ctr w1 f = Some 0" f h] w
    have m: "moved_on h f (ctr (world c) f = Some 0) (view (l_reactor c)) (count_list (io_ready (l_reactor c)) h)
        (view r') (count_list (io_ready r') h)" "ctr w' = ctr (world c)" by simp_all
    have "?c = c\<lparr>cells := mem', l_reactor := r'\<lparr>io_ready := []\<rparr>, world := w', ready_queue := ready_queue c @ map Some (io_ready r')\<rparr>"
      by (simp add: poll_io_def t poll_def e Inr p reactor_drain_ready_into_def)
    then show ?thesis using m by (auto simp: queued_def moved_on_def count_list_map_Some)
  qed
  then show "ctr (world ?c) = ctr (world c)" "moved_on h f (ctr (world c) f = Some 0) (view (l_reactor c)) (queued h c)
      (view (l_reactor ?c)) (queued h ?c)" by blast+
qed

end
