(* ===== verification/Bridge_Invariant.thy ===== *)
theory Bridge_Invariant
  imports Bridge_Poll
begin

text \<open>
  Blocking work in every interleaving of calls, workers, polls, resumptions, the rest of the program and the
  teardown of the loop: the states that can arise, an invariant of them, and that every step but the call,
  which has a theory of its own, keeps it.
\<close>

section \<open>The states that can arise\<close>

text \<open>The log has, for every closure that was run, the address of its state and what the function gave.\<close>

definition runs :: "nat \<Rightarrow> (nat \<times> 'a option) list \<Rightarrow> 'a option list" where
  "runs p log = map snd (filter (\<lambda>e. fst e = p) log)"

definition waiting_for :: "('a, 'v, 'w) bridge \<Rightarrow> nat set" where
  "waiting_for b = (\<lambda>(h, aw). ba_state aw) ` set (b_awaiting b)"

text \<open>The function handed to the pool leaves the notifiers' eventfds alone.\<close>

definition leaves_counters :: "('w \<Rightarrow> int \<rightharpoonup> nat) \<Rightarrow> ('w \<Rightarrow> ('a option \<times> 'w) option) \<Rightarrow> bool" where
  "leaves_counters ctr fn \<longleftrightarrow> (\<forall>w out w'. fn w = Some (out, w') \<longrightarrow> ctr w' = ctr w)"

text \<open>
  What the rest of the program may do to the core: anything that leaves alone the counters of the notifiers, the
  slots of their descriptors, and the coroutines that wait for blocking work.
\<close>

definition bystander :: "('w \<Rightarrow> int \<rightharpoonup> nat) \<Rightarrow> coro set \<Rightarrow> ('v, 'w) core \<Rightarrow> ('v, 'w) core \<Rightarrow> bool" where
  "bystander ctr hs c c' \<longleftrightarrow>
     ctr (world c') = ctr (world c) \<and>
     (\<forall>fd. ctr (world c) fd \<noteq> None \<longrightarrow> view (l_reactor c') fd = view (l_reactor c) fd) \<and>
     (\<forall>h\<in>hs. spots h (view (l_reactor c')) = spots h (view (l_reactor c)) \<and> queued h c' = queued h c)"

inductive blocking_reach ::
  "('v, 'w) bridge_sys \<Rightarrow> ('w \<Rightarrow> int \<rightharpoonup> nat) \<Rightarrow> nat \<Rightarrow> nat \<Rightarrow> (nat \<times> 'a option) list \<Rightarrow> ('a, 'v, 'w) bridge \<Rightarrow> bool"
  for sys :: "('v, 'w) bridge_sys" and ctr :: "'w \<Rightarrow> int \<rightharpoonup> nat" and n cap :: nat where
  start: "blocking_reach sys ctr n cap [] \<lparr>b_core = c, b_pool = new_pool n cap, b_states = Map.empty, b_awaiting = [],
    b_finishing = {}, b_alive = True\<rparr>"
| call: "blocking_reach sys ctr n cap log b \<Longrightarrow> b_alive b \<Longrightarrow> b_states b p = None \<Longrightarrow> runs p log = [] \<Longrightarrow>
    h \<notin> fst ` set (b_awaiting b) \<Longrightarrow> spots h (view (l_reactor (b_core b))) = {} \<Longrightarrow> queued h (b_core b) = 0 \<Longrightarrow>
    leaves_counters ctr fn \<Longrightarrow> spawn_blocking_start sys p q h fn b = (res, b') \<Longrightarrow> blocking_reach sys ctr n cap log b'"
| run: "blocking_reach sys ctr n cap log b \<Longrightarrow> i < n \<Longrightarrow> p_workers (b_pool b) ! i = Busy job \<Longrightarrow>
    snd (callable job) (b_world b) = Some (out, w) \<Longrightarrow> bridge_run sys i b = Some b' \<Longrightarrow>
    blocking_reach sys ctr n cap (log @ [(fst (callable job), out)]) b'"
| turn: "blocking_reach sys ctr n cap log b \<Longrightarrow> i < n \<Longrightarrow> bridge_turn sys i b = Some b' \<Longrightarrow> blocking_reach sys ctr n cap log b'"
| poll: "blocking_reach sys ctr n cap log b \<Longrightarrow> b_alive b \<Longrightarrow> blocking_reach sys ctr n cap log (bridge_poll sys b)"
| resume: "blocking_reach sys ctr n cap log b \<Longrightarrow> b_alive b \<Longrightarrow> (h, aw) \<in> set (b_awaiting b) \<Longrightarrow>
    Some h \<in> set (ready_queue (b_core b)) \<Longrightarrow> bridge_resume sys h aw b = (res, b') \<Longrightarrow> blocking_reach sys ctr n cap log b'"
| other: "blocking_reach sys ctr n cap log b \<Longrightarrow> bystander ctr (fst ` set (b_awaiting b)) (b_core b) c \<Longrightarrow>
    blocking_reach sys ctr n cap log (b\<lparr>b_core := c\<rparr>)"
| stop_pool: "blocking_reach sys ctr n cap log b \<Longrightarrow> blocking_reach sys ctr n cap log (b\<lparr>b_pool := pool_shutdown (b_pool b)\<rparr>)"
| join_pool: "blocking_reach sys ctr n cap log b \<Longrightarrow> pool_join (b_pool b) = Some pl \<Longrightarrow>
    blocking_reach sys ctr n cap log (b\<lparr>b_pool := pl\<rparr>)"
| teardown: "blocking_reach sys ctr n cap log b \<Longrightarrow> b_alive b \<Longrightarrow> blocking_reach sys ctr n cap log (bridge_teardown sys b)"

section \<open>The invariant\<close>

text \<open>The closures in the queue and in the hands of workers, by the address of their state.\<close>

definition pool_jobs :: "('a, 'w) work pool \<Rightarrow> nat multiset" where
  "pool_jobs pl = image_mset (\<lambda>j. fst (callable j)) (mset (queue (p_tasks pl)) + running pl)"

text \<open>
  A shared state: its descriptor is open, its pointers are counted right; a closure that has not run is still in
  the pool and its counter is 0; once it has run and until the coroutine is resumed the counter is 1 and the
  result is there.
\<close>

definition state_ok ::
  "('w \<Rightarrow> int \<rightharpoonup> nat) \<Rightarrow> (nat \<times> 'a option) list \<Rightarrow> nat set \<Rightarrow> nat multiset \<Rightarrow> 'w \<Rightarrow> nat \<Rightarrow> 'a blocking_state \<Rightarrow> bool" where
  "state_ok ctr log waited jobs w p st \<longleftrightarrow>
     0 \<le> bs_notifier st \<and> ctr w (bs_notifier st) \<noteq> None \<and>
     bs_refs st = (if p \<in> waited then 1 else 0) + count jobs p \<and> 0 < bs_refs st \<and>
     (runs p log = [] \<longrightarrow> 0 < count jobs p \<and> ctr w (bs_notifier st) = Some 0) \<and>
     (\<forall>out. p \<in> waited \<longrightarrow> runs p log = [out] \<longrightarrow> ctr w (bs_notifier st) = Some 1 \<and> bs_result st = work_outcome out)"

definition states_ok ::
  "('w \<Rightarrow> int \<rightharpoonup> nat) \<Rightarrow> (nat \<times> 'a option) list \<Rightarrow> nat set \<Rightarrow> nat multiset \<Rightarrow> 'w \<Rightarrow> (nat \<rightharpoonup> 'a blocking_state) \<Rightarrow> bool" where
  "states_ok ctr log waited jobs w sts \<longleftrightarrow>
     (\<forall>p. count jobs p \<le> 1 \<and> length (runs p log) \<le> 1 \<and>
        (case sts p of None \<Rightarrow> count jobs p = 0 \<and> p \<notin> waited | Some st \<Rightarrow> state_ok ctr log waited jobs w p st)) \<and>
     (\<forall>p q st st'. sts p = Some st \<longrightarrow> sts q = Some st' \<longrightarrow> bs_notifier st = bs_notifier st' \<longrightarrow> p = q)"

definition job_ok :: "('w \<Rightarrow> int \<rightharpoonup> nat) \<Rightarrow> ('a, 'w) work job \<Rightarrow> bool" where
  "job_ok ctr job \<longleftrightarrow> leaves_counters ctr (snd (callable job))"

definition pool_ok :: "('w \<Rightarrow> int \<rightharpoonup> nat) \<Rightarrow> (nat \<times> 'a option) list \<Rightarrow> nat \<Rightarrow> nat set \<Rightarrow> ('a, 'w) work pool \<Rightarrow> bool" where
  "pool_ok ctr log n fin pl \<longleftrightarrow>
     length (p_workers pl) = n \<and>
     (\<forall>i\<in>fin. i < n \<and> (\<exists>job. p_workers pl ! i = Busy job)) \<and>
     (\<forall>job\<in>set (queue (p_tasks pl)). runs (fst (callable job)) log = [] \<and> job_ok ctr job) \<and>
     (\<forall>i<n. \<forall>job. p_workers pl ! i = Busy job \<longrightarrow> (i \<in> fin \<longleftrightarrow> runs (fst (callable job)) log \<noteq> []) \<and> job_ok ctr job)"

text \<open>A coroutine that awaits: it waits for its notifier only, or it has been queued, once, after the run.\<close>

definition waiter_ok ::
  "(nat \<times> 'a option) list \<Rightarrow> (nat \<rightharpoonup> 'a blocking_state) \<Rightarrow> ('v, 'w) core \<Rightarrow> coro \<times> ('a, 'w) blocking_awaiter \<Rightarrow> bool" where
  "waiter_ok log sts c x \<longleftrightarrow>
     (let (h, aw) = x; t = view (l_reactor c)
      in ba_work aw = None \<and>
         (\<exists>st. sts (ba_state aw) = Some st \<and>
            (waits_at h (bs_notifier st) t \<and> queued h c = 0 \<or>
             spots h t = {} \<and> queued h c = 1 \<and> runs (ba_state aw) log \<noteq> [])))"

definition waiters_ok ::
  "(nat \<times> 'a option) list \<Rightarrow> (nat \<rightharpoonup> 'a blocking_state) \<Rightarrow> ('v, 'w) core \<Rightarrow> (coro \<times> ('a, 'w) blocking_awaiter) list \<Rightarrow> bool" where
  "waiters_ok log sts c aws \<longleftrightarrow>
     distinct (map fst aws) \<and> distinct (map (\<lambda>(h, aw). ba_state aw) aws) \<and> (\<forall>x\<in>set aws. waiter_ok log sts c x)"

definition blocking_inv ::
  "('w \<Rightarrow> int \<rightharpoonup> nat) \<Rightarrow> nat \<Rightarrow> (nat \<times> 'a option) list \<Rightarrow> ('a, 'v, 'w) bridge \<Rightarrow> bool" where
  "blocking_inv ctr n log b \<longleftrightarrow>
     states_ok ctr log (waiting_for b) (pool_jobs (b_pool b)) (b_world b) (b_states b) \<and>
     pool_ok ctr log n (b_finishing b) (b_pool b) \<and>
     waiters_ok log (b_states b) (b_core b) (b_awaiting b)"

section \<open>Every step keeps it\<close>

lemma states_ok_cong: "ctr w = ctr w' \<Longrightarrow> states_ok ctr log waited jobs w sts = states_ok ctr log waited jobs w' sts"
  by (simp add: states_ok_def state_ok_def cong: option.case_cong)

lemma states_okD:
  assumes "states_ok ctr log waited jobs w sts"
  shows "sts p = Some st \<Longrightarrow> state_ok ctr log waited jobs w p st"
    and "sts p = None \<Longrightarrow> count jobs p = 0 \<and> p \<notin> waited"
    and "count jobs p \<le> 1" "length (runs p log) \<le> 1"
    and "sts p = Some st \<Longrightarrow> sts q = Some st' \<Longrightarrow> bs_notifier st = bs_notifier st' \<Longrightarrow> p = q"
  using assms by (auto simp: states_ok_def dest!: spec [of _ p])

lemma blocking_inv_core:
  assumes "blocking_inv ctr n log b" "ctr (world c) = ctr (b_world b)"
    "\<And>h aw st. (h, aw) \<in> set (b_awaiting b) \<Longrightarrow> b_states b (ba_state aw) = Some st \<Longrightarrow>
       moved_on h (bs_notifier st) (ctr (b_world b) (bs_notifier st) = Some 0)
         (view (l_reactor (b_core b))) (queued h (b_core b)) (view (l_reactor c)) (queued h c)"
  shows "blocking_inv ctr n log (b\<lparr>b_core := c\<rparr>)"
proof -
  note inv = assms(1) [unfolded blocking_inv_def]
  have "waiter_ok log (b_states b) c (h, aw)" if x: "(h, aw) \<in> set (b_awaiting b)" for h aw
  proof -
    have "waiter_ok log (b_states b) (b_core b) (h, aw)" using inv x by (auto simp: waiters_ok_def)
    then obtain st where st: "b_states b (ba_state aw) = Some st" "ba_work aw = None"
      and w: "waits_at h (bs_notifier st) (view (l_reactor (b_core b))) \<and> queued h (b_core b) = 0 \<or>
        spots h (view (l_reactor (b_core b))) = {} \<and> queued h (b_core b) = 1 \<and> runs (ba_state aw) log \<noteq> []"
      by (auto simp: waiter_ok_def Let_def)
    have "runs (ba_state aw) log = [] \<Longrightarrow> ctr (b_world b) (bs_notifier st) = Some 0"
      using states_okD(1) [OF conjunct1 [OF inv] st(1)] by (simp add: state_ok_def)
    then show ?thesis using w st assms(3) [OF x st(1)] by (auto simp: waiter_ok_def Let_def moved_on_def)
  qed
  then show ?thesis
    using inv states_ok_cong [OF assms(2), of log] by (auto simp: blocking_inv_def b_world_def waiting_for_def waiters_ok_def)
qed

lemma blocking_inv_poll:
  assumes "eventfd_laws sys ctr" "blocking_inv ctr n log b"
  shows "blocking_inv ctr n log (bridge_poll sys b)"
  unfolding bridge_poll_def
  by (rule blocking_inv_core [OF assms(2)]) (simp_all add: poll_io_moves [OF assms(1)] b_world_def)

lemma blocking_inv_other:
  assumes "blocking_inv ctr n log b" "bystander ctr (fst ` set (b_awaiting b)) (b_core b) c"
  shows "blocking_inv ctr n log (b\<lparr>b_core := c\<rparr>)"
proof (rule blocking_inv_core [OF assms(1)])
  show "ctr (world c) = ctr (b_world b)" using assms(2) by (simp add: bystander_def b_world_def)
next
  fix h aw st
  assume x: "(h, aw) \<in> set (b_awaiting b)" "b_states b (ba_state aw) = Some st"
  have "ctr (b_world b) (bs_notifier st) \<noteq> None"
    using states_okD(1) [OF conjunct1 [OF assms(1) [unfolded blocking_inv_def]] x(2)] by (simp add: state_ok_def)
  then have "view (l_reactor c) (bs_notifier st) = view (l_reactor (b_core b)) (bs_notifier st)"
    using assms(2) by (simp add: bystander_def b_world_def)
  moreover have "spots h (view (l_reactor c)) = spots h (view (l_reactor (b_core b)))" "queued h c = queued h (b_core b)"
    using assms(2) x(1) by (force simp: bystander_def)+
  ultimately show "moved_on h (bs_notifier st) (ctr (b_world b) (bs_notifier st) = Some 0)
         (view (l_reactor (b_core b))) (queued h (b_core b)) (view (l_reactor c)) (queued h c)"
    by (simp add: moved_on_def waits_at_def)
qed

text \<open>Steps of the pool that run nothing.\<close>

lemma blocking_inv_pool:
  assumes "blocking_inv ctr n log b" "pool_jobs pl = pool_jobs (b_pool b)" "pool_ok ctr log n (b_finishing b) pl"
  shows "blocking_inv ctr n log (b\<lparr>b_pool := pl\<rparr>)"
  using assms by (simp add: blocking_inv_def b_world_def waiting_for_def)

lemma pool_quiet:
  "queue (p_tasks pl') = queue (p_tasks pl) \<Longrightarrow> p_workers pl' = p_workers pl \<Longrightarrow>
     pool_jobs pl' = pool_jobs pl \<and> pool_ok ctr log n fin pl' = pool_ok ctr log n fin pl"
  by (simp add: pool_jobs_def pool_ok_def running_def)

lemma blocking_inv_pool_quiet:
  assumes "blocking_inv ctr n log b" "queue (p_tasks pl) = queue (p_tasks (b_pool b))" "p_workers pl = p_workers (b_pool b)"
  shows "blocking_inv ctr n log (b\<lparr>b_pool := pl\<rparr>)"
  using blocking_inv_pool [OF assms(1)] pool_quiet [OF assms(2,3)] assms(1) by (simp add: blocking_inv_def)

lemma blocking_inv_stop_pool:
  "blocking_inv ctr n log b \<Longrightarrow> blocking_inv ctr n log (b\<lparr>b_pool := pool_shutdown (b_pool b)\<rparr>)"
  by (rule blocking_inv_pool_quiet) (simp_all add: pool_shutdown_def)

lemma blocking_inv_join_pool:
  "blocking_inv ctr n log b \<Longrightarrow> pool_join (b_pool b) = Some pl \<Longrightarrow> blocking_inv ctr n log (b\<lparr>b_pool := pl\<rparr>)"
  by (rule blocking_inv_pool_quiet) (auto simp: pool_join_def close_chan_def split: shutdown_phase.splits if_splits)

lemma pool_jobs_new: "pool_jobs (new_pool n cap) = {#}"
  unfolding pool_jobs_def running_new by (simp add: new_pool_def make_channel_def)

lemma blocking_inv_start:
  "blocking_inv ctr n [] \<lparr>b_core = c, b_pool = new_pool n cap, b_states = Map.empty, b_awaiting = [],
    b_finishing = {}, b_alive = True\<rparr>"
proof -
  have "pool_ok ctr [] n {} (new_pool n cap)" by (simp add: pool_ok_def new_pool_def make_channel_def)
  then show ?thesis
    by (simp add: blocking_inv_def states_ok_def waiters_ok_def waiting_for_def pool_jobs_new runs_def)
qed

text \<open>Dropping one shared pointer to a state.\<close>

lemma destroy_counters:
  assumes "eventfd_laws sys ctr" "0 \<le> fd"
  shows "ctr (notifier_destroy sys fd w) = (ctr w)(fd := None)"
  using assms(2) eventfd_lawsD(6) [OF assms(1), of fd w]
  by (auto simp: notifier_destroy_def notifier_close_def split: prod.splits option.splits)

lemma states_ok_drop:
  assumes laws: "eventfd_laws sys ctr" and ok: "states_ok ctr log waited jobs w sts" and st: "sts p = Some st"
    and b: "b_states b = sts" "ctr (b_world b) = (ctr w)(bs_notifier st := x)" "x \<noteq> None"
    and x: "x = ctr w (bs_notifier st) \<or> runs p log \<noteq> [] \<and> p \<notin> waited'"
    and same: "\<And>q. q \<noteq> p \<Longrightarrow> (q \<in> waited') = (q \<in> waited) \<and> count jobs' q = count jobs q"
    and less: "(if p \<in> waited' then 1 else 0) + count jobs' p + 1 = bs_refs st" "waited' \<subseteq> waited" "count jobs' p \<le> count jobs p"
      "runs p log = [] \<Longrightarrow> count jobs' p = count jobs p"
  shows "states_ok ctr log waited' jobs' (b_world (release_ref sys p b)) (b_states (release_ref sys p b))"
proof -
  let ?b = "release_ref sys p b"
  note ok_p = states_okD(1) [OF ok st, unfolded state_ok_def]
  have other: "state_ok ctr log waited' jobs' v q st'"
    if "q \<noteq> p" "sts q = Some st'" "ctr v (bs_notifier st') = ctr w (bs_notifier st')" for q st' v
    using states_okD(1) [OF ok that(2)] same [OF that(1)] that(3)
    by (auto simp: state_ok_def)
  have none: "sts q = None \<Longrightarrow> count jobs' q = 0 \<and> q \<notin> waited'" for q
    using states_okD(2) [OF ok, of q] same [of q] st by (metis option.distinct(1))
  have cnt: "count jobs' q \<le> 1" for q
    using states_okD(3) [OF ok, of q] same [of q] less(3) by (metis le_trans)
  have inj: "q \<noteq> p \<Longrightarrow> sts q = Some st' \<Longrightarrow> bs_notifier st' \<noteq> bs_notifier st \<and> bs_notifier st \<noteq> bs_notifier st'" for q st'
    using states_okD(5) [OF ok _ st] by metis
  show ?thesis
  proof (cases "bs_refs st \<le> 1")
    case True
    then have gone: "p \<notin> waited'" "count jobs' p = 0" using less(1) by (auto split: if_splits)
    have b': "b_states ?b = sts(p := None)" "ctr (b_world ?b) = (ctr w)(bs_notifier st := None)"
      using True st b destroy_counters [OF laws, of "bs_notifier st" "b_world b"] ok_p
      by (simp_all add: release_ref_def set_state_def set_world_def b_world_def)
    show ?thesis unfolding states_ok_def b'(1)
    proof (intro conjI allI impI)
      fix q
      show "case (sts(p := None)) q of None \<Rightarrow> count jobs' q = 0 \<and> q \<notin> waited' | Some st' \<Rightarrow> state_ok ctr log waited' jobs' (b_world ?b) q st'"
        using gone none other [of q] inj [of q] b'(2) by (auto split: option.split)
    qed (use cnt states_okD(4,5) [OF ok] in \<open>auto split: if_splits\<close>)
  next
    case False
    have b': "b_states ?b = sts(p \<mapsto> st\<lparr>bs_refs := bs_refs st - 1\<rparr>)" "ctr (b_world ?b) = (ctr w)(bs_notifier st := x)"
      using False st b by (simp_all add: release_ref_def set_state_def b_world_def)
    have "state_ok ctr log waited' jobs' (b_world ?b) p (st\<lparr>bs_refs := bs_refs st - 1\<rparr>)"
      using ok_p False less x b(3) b'(2) by (auto simp: state_ok_def)
    then show ?thesis unfolding states_ok_def b'(1)
      using none other inj b'(2) cnt states_okD(4,5) [OF ok] by (auto split: option.split if_splits)
  qed
qed

lemma waiters_ok_cong:
  assumes "waiters_ok log sts c aws" "l_reactor c' = l_reactor c" "ready_queue c' = ready_queue c"
    "\<And>h aw. (h, aw) \<in> set aws \<Longrightarrow> map_option bs_notifier (sts' (ba_state aw)) = map_option bs_notifier (sts (ba_state aw))"
    "\<And>p. runs p log \<noteq> [] \<Longrightarrow> runs p log' \<noteq> []"
  shows "waiters_ok log' sts' c' aws"
proof -
  have "waiter_ok log' sts' c' (h, aw)" if x: "(h, aw) \<in> set aws" for h aw
  proof -
    have "waiter_ok log sts c (h, aw)" using assms(1) x by (auto simp: waiters_ok_def)
    with assms(2,3,5) assms(4) [OF x] show ?thesis
      by (cases "sts' (ba_state aw)") (auto simp: waiter_ok_def Let_def queued_def)
  qed
  then show ?thesis using assms(1) by (auto simp: waiters_ok_def)
qed

lemma release_ref_frame [simp]:
  "b_pool (release_ref sys p b) = b_pool b" "b_awaiting (release_ref sys p b) = b_awaiting b"
  "b_finishing (release_ref sys p b) = b_finishing b" "b_alive (release_ref sys p b) = b_alive b"
  "l_reactor (b_core (release_ref sys p b)) = l_reactor (b_core b)"
  "ready_queue (b_core (release_ref sys p b)) = ready_queue (b_core b)"
  "q \<noteq> p \<Longrightarrow> b_states (release_ref sys p b) q = b_states b q"
  by (simp_all add: release_ref_def set_state_def set_world_def split: option.split)

lemma release_ref_keeps:
  "b_states b p = Some st \<Longrightarrow> 1 < bs_refs st \<Longrightarrow> b_states (release_ref sys p b) p = Some (st\<lparr>bs_refs := bs_refs st - 1\<rparr>)"
  by (simp add: release_ref_def set_state_def)

lemma jobs_take:
  assumes "i < length (p_workers pl)" "p_workers pl ! i = Waiting" "queue (p_tasks pl) = job # js"
    "pl' = pl\<lparr>p_tasks := (p_tasks pl)\<lparr>queue := js\<rparr>, p_workers := (p_workers pl)[i := Busy job]\<rparr>"
  shows "pool_jobs pl' = pool_jobs pl"
  using running_update [OF assms(1), of pl' "Busy job"] assms(2-) by (simp add: pool_jobs_def)

lemma jobs_run:
  assumes "i < length (p_workers pl)" "p_workers pl ! i = Busy job" "p_workers pl' = (p_workers pl)[i := Waiting]"
    "p_tasks pl' = p_tasks pl"
  shows "pool_jobs pl = add_mset (fst (callable job)) (pool_jobs pl')"
proof -
  have "running pl = add_mset job (running pl')" using running_update [OF assms(1), of pl' Waiting] assms(2,3) by simp
  then show ?thesis using assms(4) by (simp add: pool_jobs_def)
qed

lemma busy_in_jobs:
  assumes "i < length (p_workers pl)" "p_workers pl ! i = Busy job"
  shows "0 < count (pool_jobs pl) (fst (callable job))"
  using jobs_run [OF assms, of "pl\<lparr>p_workers := (p_workers pl)[i := Waiting]\<rparr>"] by simp

lemma blocking_inv_turn:
  assumes laws: "eventfd_laws sys ctr" and inv: "blocking_inv ctr n log b" and i: "i < n" and t: "bridge_turn sys i b = Some b'"
  shows "blocking_inv ctr n log b'"
proof -
  note parts = inv [unfolded blocking_inv_def]
  let ?pl = "b_pool b"
  have pok: "pool_ok ctr log n (b_finishing b) ?pl" and sok: "states_ok ctr log (waiting_for b) (pool_jobs ?pl) (b_world b) (b_states b)"
    using parts by blast+
  have i': "i < length (p_workers ?pl)" using pok i by (simp add: pool_ok_def)
  obtain pl where w: "worker_loop (\<lambda>_. False) i ?pl = Some pl" using t by (auto simp: bridge_turn_def split: option.splits)
  from w show ?thesis
  proof (cases rule: worker_loop_cases)
    case (take job js)
    have "pool_ok ctr log n (b_finishing b) pl" using pok take by (auto simp: pool_ok_def nth_list_update_if)
    moreover have "b' = b\<lparr>b_pool := pl\<rparr>" using t w take(1) by (simp add: bridge_turn_def)
    ultimately show ?thesis using blocking_inv_pool [OF inv jobs_take [OF i' take]] by simp
  next
    case leave
    have "pool_ok ctr log n (b_finishing b) pl" using pok leave by (auto simp: pool_ok_def nth_list_update_if)
    moreover have "pool_jobs pl = pool_jobs ?pl"
      using running_update [OF i', of pl Finished] leave by (simp add: pool_jobs_def)
    moreover have "b' = b\<lparr>b_pool := pl\<rparr>" using t w leave(1) by (simp add: bridge_turn_def)
    ultimately show ?thesis using blocking_inv_pool [OF inv] by simp
  next
    case (run job)
    let ?p = "fst (callable job)"
    let ?b = "b\<lparr>b_pool := pl, b_finishing := b_finishing b - {i}\<rparr>"
    have fin: "i \<in> b_finishing b" and b': "b' = release_ref sys ?p ?b"
      using t w run(1) by (simp_all add: bridge_turn_def split: if_splits)
    have r: "runs ?p log \<noteq> []" using pok i run(1) fin by (auto simp: pool_ok_def)
    have jobs: "pool_jobs ?pl = add_mset ?p (pool_jobs pl)" using jobs_run [OF i' run(1)] run(2) by simp
    then obtain st where st: "b_states b ?p = Some st"
      using states_okD(2) [OF sok, of ?p] by (cases "b_states b ?p") auto
    note st_ok = states_okD(1) [OF sok st, unfolded state_ok_def]
    have "states_ok ctr log (waiting_for b) (pool_jobs pl) (b_world b') (b_states b')"
      unfolding b' by (rule states_ok_drop [OF laws sok st, where x = "ctr (b_world b) (bs_notifier st)"])
        (use st_ok jobs r in \<open>auto simp: b_world_def\<close>)
    moreover have "pool_ok ctr log n (b_finishing b - {i}) pl" using pok i' run by (auto simp: pool_ok_def nth_list_update_if)
    moreover have "waiters_ok log (b_states b') (b_core b') (b_awaiting b)"
    proof (rule waiters_ok_cong)
      show "waiters_ok log (b_states b) (b_core b) (b_awaiting b)" using parts by blast
      fix h aw assume "(h, aw) \<in> set (b_awaiting b)"
      then have "ba_state aw = ?p \<Longrightarrow> bs_refs st = 1 + count (pool_jobs ?pl) ?p"
        using st_ok by (force simp: waiting_for_def)
      then show "map_option bs_notifier (b_states b' (ba_state aw)) = map_option bs_notifier (b_states b (ba_state aw))"
        using st jobs release_ref_keeps [of ?b ?p st sys] by (cases "ba_state aw = ?p") (simp_all add: b')
    qed (simp_all add: b')
    ultimately show ?thesis by (simp add: blocking_inv_def b' waiting_for_def)
  qed
qed

lemma runs_snoc: "runs q (log @ [(p, out)]) = runs q log @ (if q = p then [out] else [])"
  by (simp add: runs_def)

lemma blocking_inv_run:
  assumes laws: "eventfd_laws sys ctr" and inv: "blocking_inv ctr n log b" and i: "i < n"
    and busy: "p_workers (b_pool b) ! i = Busy job" and fn': "snd (callable job) (b_world b) = Some (out, w1)"
    and t: "bridge_run sys i b = Some b'"
  shows "blocking_inv ctr n (log @ [(fst (callable job), out)]) b'"
proof -
  note parts = inv [unfolded blocking_inv_def]
  let ?pl = "b_pool b"
  obtain p fn where job: "callable job = (p, fn)" by fastforce
  have fn: "fn (b_world b) = Some (out, w1)" using fn' job by simp
  define log' where "log' = log @ [(p, out)]"
  have pok: "pool_ok ctr log n (b_finishing b) ?pl" and sok: "states_ok ctr log (waiting_for b) (pool_jobs ?pl) (b_world b) (b_states b)"
    using parts by blast+
  have i': "i < length (p_workers ?pl)" using pok i by (simp add: pool_ok_def)
  have nf: "i \<notin> b_finishing b" and b': "\<exists>b1. run_work sys (p, fn) b = Some b1 \<and> b' = b1\<lparr>b_finishing := insert i (b_finishing b)\<rparr>"
    using t busy job by (auto simp: bridge_run_def split: if_splits)
  have r: "runs p log = []" and lv: "ctr w1 = ctr (b_world b)"
    using pok i busy nf job fn by (auto simp: pool_ok_def job_ok_def leaves_counters_def)
  have "0 < count (pool_jobs ?pl) p" using busy_in_jobs [OF i' busy] job by simp
  then obtain st where st: "b_states b p = Some st"
    using states_okD(2) [OF sok, of p] by (cases "b_states b p") auto
  note st_ok = states_okD(1) [OF sok st, unfolded state_ok_def]
  define w2 where "w2 = snd (write_eventfd sys (bs_notifier st) w1)"
  have "ctr w1 (bs_notifier st) = Some 0" using st_ok r lv by simp
  from eventfd_lawsD(3) [OF laws this] have w2: "write_eventfd sys (bs_notifier st) w1 = (Inr 8, w2)" "ctr w2 = (ctr (b_world b))(bs_notifier st \<mapsto> 1)"
    using lv by (simp_all add: w2_def prod_eq_iff)
  have rw: "run_work sys (p, fn) b = Some (store_result p (work_outcome out) (set_world w2 b))"
    by (simp add: run_work_def fn st notifier_notify_def w2(1))
  have b_eq: "b_states b' = (b_states b)(p \<mapsto> st\<lparr>bs_result := work_outcome out\<rparr>)" "b_world b' = w2" "b_pool b' = ?pl"
    "b_awaiting b' = b_awaiting b" "b_finishing b' = insert i (b_finishing b)" "b_core b' = (b_core b)\<lparr>world := w2\<rparr>"
    using b' by (auto simp: rw store_result_def set_state_def set_world_def b_world_def st)
  have inj: "q \<noteq> p \<Longrightarrow> b_states b q = Some st' \<Longrightarrow> bs_notifier st' \<noteq> bs_notifier st" for q st'
    using states_okD(5) [OF sok _ st] by metis
  have "state_ok ctr log' (waiting_for b) (pool_jobs ?pl) w2 q st'" if "q \<noteq> p" "b_states b q = Some st'" for q st'
    using states_okD(1) [OF sok that(2)] inj [OF that] that(1) by (auto simp: state_ok_def log'_def runs_snoc w2(2))
  moreover have "state_ok ctr log' (waiting_for b) (pool_jobs ?pl) w2 p (st\<lparr>bs_result := work_outcome out\<rparr>)"
    using st_ok r by (simp add: state_ok_def log'_def runs_snoc w2(2))
  ultimately have "states_ok ctr log' (waiting_for b) (pool_jobs ?pl) w2 ((b_states b)(p \<mapsto> st\<lparr>bs_result := work_outcome out\<rparr>))"
    using states_okD(2-5) [OF sok] inj r st
    by (auto simp: states_ok_def log'_def runs_snoc split: option.split if_splits)
  moreover have "pool_ok ctr log' n (insert i (b_finishing b)) ?pl"
  proof -
    define pl where "pl = ?pl\<lparr>p_workers := (p_workers ?pl)[i := Waiting]\<rparr>"
    have "pool_jobs ?pl = add_mset p (pool_jobs pl)" using jobs_run [OF i' busy, of pl] job by (simp add: pl_def)
    then have none: "count (pool_jobs pl) p = 0" using states_okD(3) [OF sok, of p] by simp
    have "fst (callable j) \<noteq> p" if "j \<in> set (queue (p_tasks ?pl))" for j
      using none that by (auto simp: pool_jobs_def pl_def count_eq_zero_iff)
    moreover have "fst (callable j) \<noteq> p" if "k < n" "k \<noteq> i" "p_workers ?pl ! k = Busy j" for k j
      using busy_in_jobs [of k pl j] that none pok by (auto simp: pl_def pool_ok_def count_eq_zero_iff)
    ultimately show ?thesis
      using pok busy i job nf by (auto simp: pool_ok_def log'_def runs_snoc) 
  qed
  moreover have "waiters_ok log' (b_states b') (b_core b') (b_awaiting b)"
    by (rule waiters_ok_cong [OF conjunct2 [OF conjunct2 [OF parts]]]) (simp_all add: b_eq st log'_def runs_snoc)
  ultimately show ?thesis unfolding blocking_inv_def waiting_for_def b_eq by (simp add: job fn log'_def)
qed

lemma count_list_remove1: "count_list (remove1 x xs) y = (if x = y then count_list xs y - 1 else count_list xs y)"
  by (induction xs) auto

lemma distinct_map_remove1: "distinct (map f xs) \<Longrightarrow> distinct (map f (remove1 x xs))"
  by (induction xs) (auto dest: subsetD [OF set_remove1_subset])

text \<open>Resuming a coroutine that has been queued: it gets what its function gave.\<close>

lemma image_remove1:
  assumes "distinct (map f xs)" "x \<in> set xs"
  shows "f ` set (remove1 x xs) = f ` set xs - {f x}"
proof -
  have "set (remove1 x xs) = set xs - {x}" using assms(1) by (simp add: set_remove1_eq distinct_map)
  moreover have "inj_on f (set xs)" using assms(1) by (simp add: distinct_map)
  ultimately show ?thesis using assms(2) by (simp add: inj_on_image_set_diff)
qed

lemma waits_at_elsewhere:
  assumes "waits_at h f t" "f \<noteq> fd"
  shows "waits_at h f (t(fd := empty_entry))"
  using assms by (auto simp: waits_at_def spots_clear)

lemma resume_queued:
  assumes laws: "eventfd_laws sys ctr" and inv: "blocking_inv ctr n log b" and a: "(h, aw) \<in> set (b_awaiting b)"
    and q: "0 < queued h (b_core b)" and res: "bridge_resume sys h aw b = (res, b')"
  shows "\<exists>out. runs (ba_state aw) log = [out] \<and> res = work_outcome out" "blocking_inv ctr n log b'"
proof -
  let ?p = "ba_state aw"
  note parts = inv [unfolded blocking_inv_def]
  have sok: "states_ok ctr log (waiting_for b) (pool_jobs (b_pool b)) (b_world b) (b_states b)"
    and wok: "waiters_ok log (b_states b) (b_core b) (b_awaiting b)" using parts by blast+
  have "waiter_ok log (b_states b) (b_core b) (h, aw)" using wok a by (auto simp: waiters_ok_def)
  then obtain st where st: "b_states b ?p = Some st" "ba_work aw = None" "runs ?p log \<noteq> []"
    using q by (auto simp: waiter_ok_def Let_def)
  obtain out where out: "runs ?p log = [out]"
    using st(3) states_okD(4) [OF sok, of ?p] by (cases "runs ?p log") auto
  have p: "?p \<in> waiting_for b" using a by (force simp: waiting_for_def)
  note st_ok = states_okD(1) [OF sok st(1), unfolded state_ok_def]
  let ?fd = "bs_notifier st"
  have one: "ctr (b_world b) ?fd = Some 1" "bs_result st = work_outcome out" using st_ok p out by simp_all
  define w where "w = snd (read_counter_fd sys ?fd (b_world b))"
  have rd: "read_counter_fd sys ?fd (b_world b) = (Inr (8, 1), w)" "ctr w = (ctr (b_world b))(?fd \<mapsto> 0)"
    using eventfd_lawsD(5) [OF laws one(1)] by (simp_all add: w_def prod_eq_iff)
  define b1 where "b1 = b\<lparr>b_core := (b_core b)\<lparr>ready_queue := remove1 (Some h) (ready_queue (b_core b)), world := w,
      l_reactor := deregister ?fd (l_reactor (b_core b))\<rparr>, b_awaiting := remove1 (h, aw) (b_awaiting b)\<rparr>"
  define b0 where "b0 = b\<lparr>b_core := (b_core b)\<lparr>ready_queue := remove1 (Some h) (ready_queue (b_core b))\<rparr>,
      b_awaiting := remove1 (h, aw) (b_awaiting b)\<rparr>"
  have b0: "b_world b0 = b_world b" "b_states b0 = b_states b" by (simp_all add: b0_def b_world_def)
  have "awaiter_fd aw b0 = ?fd" by (simp add: awaiter_fd_def b0 st(1))
  moreover have "notifier_acknowledge sys ?fd (b_world b0) = (Ok 1, w)" by (simp add: notifier_acknowledge_def b0 rd(1))
  moreover have "b_deregister ?fd (set_world w b0) = b1" by (simp add: b_deregister_def set_world_def b0_def b1_def)
  ultimately have "blocking_await_resume sys aw b0 = (bs_result st, b1)"
    by (simp add: blocking_await_resume_def b1_def st(1))
  then have r: "res = work_outcome out" "b' = release_ref sys ?p b1"
    using res one(2) by (simp_all add: bridge_resume_def spawn_blocking_finish_def b0_def [symmetric] blocking_awaiter_destroy_def st(2))
  then show "\<exists>out. runs ?p log = [out] \<and> res = work_outcome out" using out by blast
  have d: "distinct (map fst (b_awaiting b))" "distinct (map (\<lambda>(h, aw). ba_state aw) (b_awaiting b))"
    using wok by (simp_all add: waiters_ok_def)
  have wf: "waiting_for b' = waiting_for b - {?p}"
    using image_remove1 [OF d(2) a] by (simp add: waiting_for_def r(2) b1_def)
  have "states_ok ctr log (waiting_for b') (pool_jobs (b_pool b)) (b_world b') (b_states b')"
    unfolding r(2) wf [unfolded r(2)]
    by (rule states_ok_drop [OF laws sok st(1), where x = "Some 0"])
      (use st_ok p out rd(2) in \<open>auto simp: b1_def b_world_def\<close>)
  moreover have "waiters_ok log (b_states b') (b_core b') (b_awaiting b')"
  proof -
    have "waiter_ok log (b_states b') (b_core b') (h', aw')" if x: "(h', aw') \<in> set (remove1 (h, aw) (b_awaiting b))" for h' aw'
    proof -
      have "h' \<in> fst ` set (remove1 (h, aw) (b_awaiting b))" "ba_state aw' \<in> (\<lambda>(h, aw). ba_state aw) ` set (remove1 (h, aw) (b_awaiting b))"
        using x by force+
      then have ne: "h' \<noteq> h" "ba_state aw' \<noteq> ?p"
        unfolding image_remove1 [OF d(1) a] image_remove1 [OF d(2) a] by auto
      have "waiter_ok log (b_states b) (b_core b) (h', aw')" using x wok set_remove1_subset by (fastforce simp: waiters_ok_def)
      then obtain st' where st': "b_states b (ba_state aw') = Some st'" "ba_work aw' = None"
        and w: "waits_at h' (bs_notifier st') (view (l_reactor (b_core b))) \<and> queued h' (b_core b) = 0 \<or>
          spots h' (view (l_reactor (b_core b))) = {} \<and> queued h' (b_core b) = 1 \<and> runs (ba_state aw') log \<noteq> []"
        by (auto simp: waiter_ok_def Let_def)
      have "bs_notifier st' \<noteq> ?fd" using states_okD(5) [OF sok st'(1) st(1)] ne(2) by metis
      moreover have "queued h' (b_core b') = queued h' (b_core b)"
        using ne(1) by (simp add: r(2) b1_def queued_def deregister_spec count_list_remove1)
      moreover have "view (l_reactor (b_core b')) = (view (l_reactor (b_core b)))(?fd := empty_entry)"
        by (simp add: r(2) b1_def deregister_spec)
      ultimately show ?thesis
        using w st' ne(2) waits_at_elsewhere by (auto simp: waiter_ok_def Let_def r(2) b1_def spots_clear)
    qed
    then show ?thesis using d by (auto simp: waiters_ok_def r(2) b1_def distinct_map_remove1)
  qed
  ultimately show "blocking_inv ctr n log b'" using parts by (simp add: blocking_inv_def r(2) b1_def)
qed

text \<open>Teardown.\<close>

lemma destroy_all_states:
  assumes laws: "eventfd_laws sys ctr"
  shows "states_ok ctr log ((\<lambda>(h, aw). ba_state aw) ` set xs) jobs (b_world b) (b_states b) \<Longrightarrow>
      distinct (map (\<lambda>(h, aw). ba_state aw) xs) \<Longrightarrow> \<forall>(h, aw)\<in>set xs. ba_work aw = None \<Longrightarrow>
      b' = fold (\<lambda>(h, aw). blocking_awaiter_destroy sys aw) xs b \<Longrightarrow>
      states_ok ctr log {} jobs (b_world b') (b_states b') \<and>
      b_pool b' = b_pool b \<and> b_finishing b' = b_finishing b \<and> b_awaiting b' = b_awaiting b"
proof (induction xs arbitrary: b)
  case Nil
  then show ?case by simp
next
  case (Cons x xs)
  obtain h aw where x: "x = (h, aw)" by fastforce
  let ?p = "ba_state aw"
  let ?ws = "(\<lambda>(h, aw). ba_state aw) ` set xs"
  have sok: "states_ok ctr log (insert ?p ?ws) jobs (b_world b) (b_states b)" and new: "?p \<notin> ?ws"
    using Cons.prems(1,2) by (simp_all add: x image_image case_prod_beta)
  obtain st where st: "b_states b ?p = Some st"
    using states_okD(2) [OF sok, of ?p] by (cases "b_states b ?p") auto
  have d: "blocking_awaiter_destroy sys aw b = release_ref sys ?p b"
    using Cons.prems(3) by (simp add: x blocking_awaiter_destroy_def)
  have "states_ok ctr log ?ws jobs (b_world (release_ref sys ?p b)) (b_states (release_ref sys ?p b))"
    by (rule states_ok_drop [OF laws sok st, where x = "ctr (b_world b) (bs_notifier st)"])
      (use states_okD(1) [OF sok st] new in \<open>auto simp: state_ok_def\<close>)
  from Cons.IH [OF this] Cons.prems(2-4) show ?case by (simp add: x d)
qed

lemma blocking_inv_teardown:
  assumes "eventfd_laws sys ctr" "blocking_inv ctr n log b"
  shows "blocking_inv ctr n log (bridge_teardown sys b)"
proof -
  let ?b = "b\<lparr>b_awaiting := [], b_alive := False\<rparr>"
  note parts = assms(2) [unfolded blocking_inv_def]
  have w: "\<forall>(h, aw)\<in>set (b_awaiting b). ba_work aw = None" "distinct (map (\<lambda>(h, aw). ba_state aw) (b_awaiting b))"
    using parts by (auto simp: waiters_ok_def waiter_ok_def Let_def)
  have "states_ok ctr log ((\<lambda>(h, aw). ba_state aw) ` set (b_awaiting b)) (pool_jobs (b_pool b)) (b_world ?b) (b_states ?b)"
    using parts by (simp add: waiting_for_def b_world_def)
  from destroy_all_states [OF assms(1) this w(2,1) refl] parts show ?thesis
    by (simp add: blocking_inv_def bridge_teardown_def waiting_for_def waiters_ok_def)
qed

end
