(* ===== verification/Bridge_Call.thy ===== *)
theory Bridge_Call
  imports Bridge_Invariant
begin

text \<open>
  The call of \<open>spawn_blocking\<close>: its outcomes, that it keeps the invariant, and with it the invariant of all
  states that can arise.
\<close>

section \<open>Outcomes of a call\<close>

text \<open>A call that fails leaves nothing behind; one that suspends has queued its closure and registered.\<close>

lemma finish_failed:
  assumes laws: "eventfd_laws sys ctr" and st: "b_states b (ba_state aw) = Some st" "bs_result st = Err e" "0 \<le> bs_notifier st"
    and ctr: "ctr (b_world b) (bs_notifier st) = Some 0"
    and refs: "case ba_work aw of None \<Rightarrow> bs_refs st = 1 | Some job \<Rightarrow> bs_refs st = 2 \<and> fst job = ba_state aw"
    and fin: "spawn_blocking_finish sys aw b = (res, b')"
  shows "res = Err e \<and> b_states b' = (b_states b)(ba_state aw := None) \<and> ctr (b_world b') = (ctr (b_world b))(bs_notifier st := None) \<and>
    view (l_reactor (b_core b')) = (view (l_reactor (b_core b)))(bs_notifier st := empty_entry) \<and>
    io_ready (l_reactor (b_core b')) = io_ready (l_reactor (b_core b)) \<and> ready_queue (b_core b') = ready_queue (b_core b) \<and>
    b_pool b' = b_pool b \<and> b_awaiting b' = b_awaiting b \<and> b_finishing b' = b_finishing b \<and> b_alive b' = b_alive b"
proof -
  let ?fd = "bs_notifier st" and ?p = "ba_state aw"
  define w where "w = snd (read_counter_fd sys ?fd (b_world b))"
  have rd: "read_counter_fd sys ?fd (b_world b) = (Inl EAGAIN, w)" "ctr w = ctr (b_world b)"
    using eventfd_lawsD(4) [OF laws ctr] by (simp_all add: w_def prod_eq_iff)
  define b1 where "b1 = b_deregister ?fd (set_world w b)"
  have b1: "b_states b1 = b_states b" "ctr (b_world b1) = ctr (b_world b)"
    "view (l_reactor (b_core b1)) = (view (l_reactor (b_core b)))(?fd := empty_entry)"
    "io_ready (l_reactor (b_core b1)) = io_ready (l_reactor (b_core b))" "ready_queue (b_core b1) = ready_queue (b_core b)"
    "b_pool b1 = b_pool b" "b_awaiting b1 = b_awaiting b" "b_finishing b1 = b_finishing b" "b_alive b1 = b_alive b"
    using rd(2) by (simp_all add: b1_def b_deregister_def set_world_def b_world_def deregister_spec)
  have "notifier_acknowledge sys ?fd (b_world b) = (Ok 0, w)" by (simp add: notifier_acknowledge_def rd(1))
  then have "blocking_await_resume sys aw b = (Err e, b1)"
    using st(1,2) b1(1) by (simp add: blocking_await_resume_def awaiter_fd_def b1_def [symmetric])
  then have res: "res = Err e" "b' = blocking_awaiter_destroy sys aw b1" using fin by (simp_all add: spawn_blocking_finish_def)
  have last: "b_states (release_ref sys ?p b2) = (b_states b2)(?p := None)" "ctr (b_world (release_ref sys ?p b2)) = (ctr (b_world b2))(?fd := None)"
    if "b_states b2 ?p = Some (st\<lparr>bs_refs := 1\<rparr>)" for b2
    using that destroy_counters [OF laws st(3)] by (simp_all add: release_ref_def set_state_def set_world_def b_world_def)
  show ?thesis
  proof (cases "ba_work aw")
    case None
    then have "b' = release_ref sys ?p b1" "st\<lparr>bs_refs := 1\<rparr> = st" using res(2) refs by (simp_all add: blocking_awaiter_destroy_def)
    then show ?thesis using last [of b1] st(1) b1 res(1) by simp
  next
    case (Some job)
    define b2 where "b2 = release_ref sys ?p b1"
    have "b' = release_ref sys ?p b2" using res(2) refs Some by (simp add: blocking_awaiter_destroy_def b2_def)
    moreover have "b_states b2 = (b_states b)(?p \<mapsto> st\<lparr>bs_refs := 1\<rparr>)" "b_world b2 = b_world b1"
      using refs Some st(1) b1(1) by (simp_all add: b2_def release_ref_def set_state_def b_world_def)
    ultimately show ?thesis using last [of b2] b1 res(1) by (simp add: b2_def)
  qed
qed

text \<open>The members that \<open>spawn_blocking\<close> leaves alone until it suspends.\<close>

definition same_frame :: "('a, 'v, 'w) bridge \<Rightarrow> ('a, 'v, 'w) bridge \<Rightarrow> bool" where
  "same_frame b b' \<longleftrightarrow> b_awaiting b' = b_awaiting b \<and> b_finishing b' = b_finishing b \<and>
     ready_queue (b_core b') = ready_queue (b_core b) \<and> io_ready (l_reactor (b_core b')) = io_ready (l_reactor (b_core b))"

lemma await_suspend_eq:
  assumes "ba_work aw = Some job" "awaiter_fd aw b = fd" "pool_spawn job (b_pool b) = (sp, pl)"
    "register_read (epoll_ctl sys) fd (Some h) (Some (ba_readiness aw)) None Ready (l_reactor (b_core b)) (world (b_core b)) = (reg, r, w)"
  shows "blocking_await_suspend sys h aw b =
     (let b1 = b\<lparr>b_core := (b_core b)\<lparr>l_reactor := r, world := w\<rparr>\<rparr>
      in case reg of
           Inl e \<Rightarrow> (False, aw, store_result (ba_state aw) (Err e) b1)
         | Inr _ \<Rightarrow>
             (case sp of
                Inl e \<Rightarrow> (False, aw\<lparr>ba_work := None\<rparr>,
                  store_result (ba_state aw) (Err e) (b_deregister fd (release_ref sys (ba_state aw) (b1\<lparr>b_pool := pl\<rparr>))))
              | Inr _ \<Rightarrow> (True, aw\<lparr>ba_work := None\<rparr>, b1\<lparr>b_pool := pl\<rparr>)))"
  using assms by (simp add: blocking_await_suspend_def Let_def split: sum.split)

text \<open>The state in which \<open>spawn_blocking\<close> reaches its \<open>co_await\<close>, and what \<open>await_suspend\<close> does there.\<close>

definition at_await ::
  "('w \<Rightarrow> int \<rightharpoonup> nat) \<Rightarrow> ('a, 'v, 'w) bridge \<Rightarrow> nat \<Rightarrow> int \<Rightarrow> ('a, 'v, 'w) bridge \<Rightarrow> bool" where
  "at_await ctr b p fd b2 \<longleftrightarrow>
     b_states b2 = (b_states b)(p \<mapsto> \<lparr>bs_notifier = fd, bs_result = Err not_completed_error, bs_refs = 2\<rparr>) \<and>
     b_pool b2 = b_pool b \<and> l_reactor (b_core b2) = l_reactor (b_core b) \<and> same_frame b b2 \<and>
     0 \<le> fd \<and> ctr (b_world b) fd = None \<and> ctr (b_world b2) = (ctr (b_world b))(fd \<mapsto> 0)"

definition gave_up :: "('w \<Rightarrow> int \<rightharpoonup> nat) \<Rightarrow> ('a, 'v, 'w) bridge \<Rightarrow> ('a, 'v, 'w) bridge \<Rightarrow> bool" where
  "gave_up ctr b b' \<longleftrightarrow> b_states b' = b_states b \<and> b_pool b' = b_pool b \<and> same_frame b b' \<and> ctr (b_world b') = ctr (b_world b) \<and>
     (\<exists>fd. ctr (b_world b) fd = None \<and> view (l_reactor (b_core b')) = (view (l_reactor (b_core b)))(fd := empty_entry) \<or>
           view (l_reactor (b_core b')) = view (l_reactor (b_core b)))"

lemma gave_upI:
  assumes laws: "eventfd_laws sys ctr" and at: "at_await ctr b p fd b2" and fresh: "b_states b p = None"
    and aw: "ba_state aw = p" "case ba_work aw of None \<Rightarrow> k = 1 | Some job \<Rightarrow> k = 2 \<and> fst job = p"
    and st: "b_states b3 = (b_states b)(p \<mapsto> \<lparr>bs_notifier = fd, bs_result = Err e, bs_refs = k\<rparr>)"
    and b3: "b_pool b3 = b_pool b" "same_frame b b3" "ctr (b_world b3) = ctr (b_world b2)"
      "\<And>g. g \<noteq> fd \<Longrightarrow> view (l_reactor (b_core b3)) g = view (l_reactor (b_core b)) g"
    and fin: "spawn_blocking_finish sys aw b3 = (res, b')"
  shows "res = Err e \<and> gave_up ctr b b'"
proof -
  have v: "(view (l_reactor (b_core b3)))(fd := empty_entry) = (view (l_reactor (b_core b)))(fd := empty_entry)"
    using b3(4) by (auto simp: fun_eq_iff)
  let ?st = "\<lparr>bs_notifier = fd, bs_result = Err e, bs_refs = k\<rparr>"
  have "b_states b3 (ba_state aw) = Some ?st" "bs_result ?st = Err e" "0 \<le> bs_notifier ?st" "ctr (b_world b3) (bs_notifier ?st) = Some 0"
    "case ba_work aw of None \<Rightarrow> bs_refs ?st = 1 | Some job \<Rightarrow> bs_refs ?st = 2 \<and> fst job = ba_state aw"
    using st aw b3(3) at by (auto simp: at_await_def split: option.splits)
  from finish_failed [OF laws this fin] show ?thesis
    using st aw(1) b3 at fresh v by (auto simp: gave_up_def same_frame_def at_await_def fun_upd_idem)
qed

lemma at_awaitI:
  assumes laws: "eventfd_laws sys ctr" and c: "notifier_create sys (b_world b) = (Ok fd, w)"
  shows "at_await ctr b p fd (snd (set_work fn \<lparr>ba_state = p, ba_work = None, ba_readiness = q\<rparr>
    (snd (blocking_awaiter_new p q fd (set_world w b)))))"
proof -
  have "0 \<le> fd \<and> ctr (b_world b) fd = None \<and> ctr w = (ctr (b_world b))(fd \<mapsto> 0)"
    using c eventfd_lawsD(2) [OF laws] by (auto simp: notifier_create_def split: prod.splits sum.splits)
  then show ?thesis
    by (simp add: at_await_def same_frame_def set_work_def retain_def blocking_awaiter_new_def set_state_def set_world_def
        new_blocking_state_def b_world_def numeral_2_eq_2)
qed

lemma await_suspend_cases:
  fixes b :: "('a, 'v, 'w) bridge"
  assumes laws: "eventfd_laws sys ctr" and at: "at_await ctr b p fd b2" and fresh: "b_states b p = None"
    and aw: "aw = \<lparr>ba_state = p, ba_work = Some (p, fn), ba_readiness = q\<rparr>"
    and s: "blocking_await_suspend sys h aw b2 = (susp, aw', b3)"
  shows "if susp
    then aw' = aw\<lparr>ba_work := None\<rparr> \<and> b_states b3 = b_states b2 \<and> same_frame b b3 \<and> ctr (b_world b3) = ctr (b_world b2) \<and>
      pool_spawn (p, fn) (b_pool b) = (Ok (), b_pool b3) \<and> view (l_reactor (b_core b3)) =
        (view (l_reactor (b_core b)))(fd := (view (l_reactor (b_core b)) fd)\<lparr>rd := Some (entry_of (Some h) (Some q) None Ready)\<rparr>)
    else \<exists>e. fst (spawn_blocking_finish sys aw' b3) = Err e \<and> gave_up ctr b (snd (spawn_blocking_finish sys aw' b3))"
proof -
  let ?c = "b_core b2"
  obtain reg r w where g: "register_read (epoll_ctl sys) fd (Some h) (Some q) None Ready (l_reactor ?c) (world ?c) = (reg, r, w)"
    using prod_cases3 by blast
  obtain sp pl where ps: "pool_spawn (p, fn) (b_pool b2) = (sp, pl)" by fastforce
  have "awaiter_fd aw b2 = fd" using at by (simp add: awaiter_fd_def aw at_await_def)
  note eq = await_suspend_eq [of aw "(p, fn)" b2 fd sp pl sys h reg r w, OF _ this ps] 
  note spec = register_read_spec [OF g]
  define b1 where "b1 = b2\<lparr>b_core := ?c\<lparr>l_reactor := r, world := w\<rparr>\<rparr>"
  have b1: "b_states b1 = b_states b2" "b_pool b1 = b_pool b" "same_frame b b1" "ctr (b_world b1) = ctr (b_world b2)"
    "\<And>g. g \<noteq> fd \<Longrightarrow> view (l_reactor (b_core b1)) g = view (l_reactor (b_core b)) g" "l_reactor (b_core b1) = r"
    using at spec register_counters [OF laws g]
    by (auto simp: b1_def at_await_def same_frame_def b_world_def split: if_splits prod.splits option.splits)
  note at' = at [unfolded at_await_def]
  show ?thesis
  proof (cases reg)
    case (Inl e)
    then have r: "susp = False" "aw' = aw" "b3 = store_result p (Err e) b1"
      using s eq g by (simp_all add: aw b1_def)
    have "fst (spawn_blocking_finish sys aw b3) = Err e \<and> gave_up ctr b (snd (spawn_blocking_finish sys aw b3))"
      by (rule gave_upI [OF laws at fresh, where k = 2 and ?b3.0 = b3])
        (use at' b1 in \<open>auto simp: aw r(3) store_result_def set_state_def same_frame_def b_world_def\<close>)
    then show ?thesis unfolding r by auto
  next
    case reg: (Inr u)
    show ?thesis
    proof (cases sp)
      case (Inl e)
      have pl: "pl = b_pool b" using ps Inl at' by (auto simp: pool_spawn_def try_send_def split: if_splits)
      have r: "susp = False" "aw' = aw\<lparr>ba_work := None\<rparr>"
          "b3 = store_result p (Err e) (b_deregister fd (release_ref sys p (b1\<lparr>b_pool := pl\<rparr>)))"
        using s eq g reg Inl by (simp_all add: aw b1_def)
      have "fst (spawn_blocking_finish sys aw' b3) = Err e \<and> gave_up ctr b (snd (spawn_blocking_finish sys aw' b3))"
        by (rule gave_upI [OF laws at fresh, where k = 1 and ?b3.0 = b3])
          (use at' b1 pl in \<open>auto simp: aw r(2,3) store_result_def set_state_def same_frame_def b_world_def release_ref_def b_deregister_def deregister_spec\<close>)
      then show ?thesis unfolding r(1) by auto
    next
      case (Inr u')
      have "susp" "aw' = aw\<lparr>ba_work := None\<rparr>" "b3 = b1\<lparr>b_pool := pl\<rparr>" using s eq g reg Inr by (simp_all add: aw b1_def)
      moreover have "view r = (view (l_reactor (b_core b)))(fd := (view (l_reactor (b_core b)) fd)\<lparr>rd := Some (entry_of (Some h) (Some q) None Ready)\<rparr>)"
        using spec reg at' by (auto split: if_splits prod.splits option.splits)
      ultimately show ?thesis using b1 ps at' Inr by (simp add: same_frame_def b_world_def)
    qed
  qed
qed

lemma spawn_blocking_start_cases:
  assumes laws: "eventfd_laws sys ctr" and fresh: "b_states b p = None" and s: "spawn_blocking_start sys p q h fn b = (res, b')"
  obtains (failed) e where "res = Some (Err e)" "gave_up ctr b b'"
    | (suspended) fd b2 b3 where "res = None" "at_await ctr b p fd b2" "same_frame b b3" "b_states b3 = b_states b2"
      "ctr (b_world b3) = ctr (b_world b2)" "pool_spawn (p, fn) (b_pool b) = (Ok (), b_pool b3)"
      "view (l_reactor (b_core b3)) =
        (view (l_reactor (b_core b)))(fd := (view (l_reactor (b_core b)) fd)\<lparr>rd := Some (entry_of (Some h) (Some q) None Ready)\<rparr>)"
      "b' = b3\<lparr>b_awaiting := b_awaiting b @ [(h, \<lparr>ba_state = p, ba_work = None, ba_readiness = q\<rparr>)]\<rparr>"
proof -
  let ?aw = "\<lparr>ba_state = p, ba_work = Some (p, fn), ba_readiness = q\<rparr>"
  obtain cr w where c: "notifier_create sys (b_world b) = (cr, w)" by fastforce
  show thesis
  proof (cases cr)
    case (Inl e)
    then have "ctr w = ctr (b_world b)" "res = Some (Err e)" "b' = set_world w b"
      using c s eventfd_lawsD(1) [OF laws] by (auto simp: notifier_create_def spawn_blocking_start_def split: prod.splits sum.splits)
    then show ?thesis by (intro failed [of e]) (simp_all add: gave_up_def same_frame_def set_world_def b_world_def)
  next
    case (Inr fd)
    define b2 where "b2 = snd (set_work fn \<lparr>ba_state = p, ba_work = None, ba_readiness = q\<rparr>
      (snd (blocking_awaiter_new p q fd (set_world w b))))"
    have at: "at_await ctr b p fd b2" unfolding b2_def by (rule at_awaitI [OF laws c [unfolded Inr]])
    obtain susp aw' b3 where a: "blocking_await_suspend sys h ?aw b2 = (susp, aw', b3)" using prod_cases3 by blast
    have "(if susp then (None, b3\<lparr>b_awaiting := b_awaiting b3 @ [(h, aw')]\<rparr>)
        else let (res, b4) = spawn_blocking_finish sys aw' b3 in (Some res, b4)) = (res, b')"
      using s c Inr a by (simp add: spawn_blocking_start_def b2_def blocking_awaiter_new_def set_work_def)
    then show ?thesis
      using await_suspend_cases [OF laws at fresh refl a] failed suspended [OF _ at, of b3]
      by (cases susp) (auto simp: same_frame_def split: prod.splits)
  qed
qed

lemma waiter_away:
  assumes sok: "states_ok ctr log waited jobs w sts" and x: "waiter_ok log sts c (h, aw)" and fd: "ctr w fd = None"
    and t: "view (l_reactor c') = (view (l_reactor c))(fd := e)" "\<forall>b. (fd, b) \<notin> spots h (\<lambda>_. e)"
    and q: "queued h c' = queued h c" and st': "sts' (ba_state aw) = sts (ba_state aw)"
  shows "waiter_ok log sts' c' (h, aw)"
proof -
  obtain st where st: "sts (ba_state aw) = Some st" using x by (auto simp: waiter_ok_def Let_def)
  have ne: "bs_notifier st \<noteq> fd" using states_okD(1) [OF sok st] fd by (auto simp: state_ok_def)
  have old: "spots h (view (l_reactor c)) \<subseteq> {(bs_notifier st, False)}"
    using x st by (auto simp: waiter_ok_def Let_def waits_at_def)
  have "((g, b) \<in> spots h (view (l_reactor c'))) = ((g, b) \<in> spots h (view (l_reactor c)))" for g b
    using old ne t(2) by (auto simp: t(1) in_spots_upd)
  then have "spots h (view (l_reactor c')) = spots h (view (l_reactor c))" by (simp add: set_eq_iff)
  then show ?thesis using x st st' q ne by (auto simp: waiter_ok_def Let_def waits_at_def t(1))
qed

lemma blocking_inv_gave_up:
  assumes inv: "blocking_inv ctr n log b" and g: "gave_up ctr b b'"
  shows "blocking_inv ctr n log b'"
proof -
  note parts = inv [unfolded blocking_inv_def] and f = g [unfolded gave_up_def same_frame_def]
  have sok: "states_ok ctr log (waiting_for b) (pool_jobs (b_pool b)) (b_world b) (b_states b)" using parts by blast
  have "waiter_ok log (b_states b') (b_core b') (h, aw)" if x: "(h, aw) \<in> set (b_awaiting b)" for h aw
  proof -
    have ok: "waiter_ok log (b_states b) (b_core b) (h, aw)" using parts x by (auto simp: waiters_ok_def)
    have q: "queued h (b_core b') = queued h (b_core b)" using f by (simp add: queued_def)
    have none: "\<forall>b. (fd, b) \<notin> spots h (\<lambda>_. empty_entry)" for fd by (simp add: in_spots)
    from f obtain fd where "ctr (b_world b) fd = None \<and> view (l_reactor (b_core b')) = (view (l_reactor (b_core b)))(fd := empty_entry) \<or>
        view (l_reactor (b_core b')) = view (l_reactor (b_core b))" by blast
    then show ?thesis
    proof
      assume "ctr (b_world b) fd = None \<and> view (l_reactor (b_core b')) = (view (l_reactor (b_core b)))(fd := empty_entry)"
      then have c: "ctr (b_world b) fd = None" "view (l_reactor (b_core b')) = (view (l_reactor (b_core b)))(fd := empty_entry)" by blast+
      show ?thesis by (rule waiter_away [OF sok ok c none q]) (use f in simp)
    next
      assume "view (l_reactor (b_core b')) = view (l_reactor (b_core b))"
      then show ?thesis using ok q f by (simp add: waiter_ok_def)
    qed
  qed
  then show ?thesis
    using parts f states_ok_cong [of ctr "b_world b'" "b_world b" log] by (auto simp: blocking_inv_def waiting_for_def waiters_ok_def)
qed

lemma pool_spawn_ok:
  "pool_spawn f pl = (Ok u, pl') \<Longrightarrow> queue (p_tasks pl') = queue (p_tasks pl) @ [Direct f] \<and> p_workers pl' = p_workers pl"
  by (auto simp: pool_spawn_def try_send_def split: if_splits)

lemma blocking_inv_call:
  assumes laws: "eventfd_laws sys ctr" and inv: "blocking_inv ctr n log b" and fresh: "b_states b p = None" "runs p log = []"
    and h: "h \<notin> fst ` set (b_awaiting b)" "spots h (view (l_reactor (b_core b))) = {}" "queued h (b_core b) = 0"
    and fn: "leaves_counters ctr fn" and s: "spawn_blocking_start sys p q h fn b = (res, b')"
  shows "blocking_inv ctr n log b'"
  using laws fresh(1) s
proof (cases rule: spawn_blocking_start_cases)
  case (failed e)
  then show ?thesis using blocking_inv_gave_up [OF inv] by blast
next
  case (suspended fd b2 b3)
  note parts = inv [unfolded blocking_inv_def] and at = suspended(2) [unfolded at_await_def] and f = suspended(3) [unfolded same_frame_def]
  let ?jobs = "pool_jobs (b_pool b)" and ?aw = "\<lparr>ba_state = p, ba_work = None, ba_readiness = q\<rparr>"
    and ?st = "\<lparr>bs_notifier = fd, bs_result = Err not_completed_error, bs_refs = 2\<rparr>" and ?t = "view (l_reactor (b_core b))"
  have sok: "states_ok ctr log (waiting_for b) ?jobs (b_world b) (b_states b)"
    and pok: "pool_ok ctr log n (b_finishing b) (b_pool b)" and wok: "waiters_ok log (b_states b) (b_core b) (b_awaiting b)"
    using parts by blast+
  have b': "b_states b' = (b_states b)(p \<mapsto> ?st)" "ctr (b_world b') = (ctr (b_world b))(fd \<mapsto> 0)" "b_pool b' = b_pool b3"
    "b_awaiting b' = b_awaiting b @ [(h, ?aw)]" "b_finishing b' = b_finishing b" "queued k (b_core b') = queued k (b_core b)"
    "view (l_reactor (b_core b')) = ?t(fd := (?t fd)\<lparr>rd := Some (entry_of (Some h) (Some q) None Ready)\<rparr>)" for k
    using suspended at f by (simp_all add: b_world_def queued_def)
  have p: "count ?jobs p = 0" "p \<notin> waiting_for b" using states_okD(2) [OF sok fresh(1)] by blast+
  have wf: "waiting_for b' = insert p (waiting_for b)" by (simp add: waiting_for_def b'(4))
  have q: "queue (p_tasks (b_pool b3)) = queue (p_tasks (b_pool b)) @ [Direct (p, fn)]" "p_workers (b_pool b3) = p_workers (b_pool b)"
    using pool_spawn_ok [OF suspended(6)] by simp_all
  then have jobs: "pool_jobs (b_pool b3) = add_mset p ?jobs" by (simp add: pool_jobs_def running_def)
  have ne: "bs_notifier st \<noteq> fd \<and> fd \<noteq> bs_notifier st" if "b_states b k = Some st" for k st
    using states_okD(1) [OF sok that] at by (auto simp: state_ok_def)
  have "state_ok ctr log (insert p (waiting_for b)) (add_mset p ?jobs) (b_world b') k st" if "b_states b k = Some st" "k \<noteq> p" for k st
    using states_okD(1) [OF sok that(1)] ne [OF that(1)] that(2) by (auto simp: state_ok_def b'(2))
  moreover have "state_ok ctr log (insert p (waiting_for b)) (add_mset p ?jobs) (b_world b') p ?st"
    using p fresh(2) at by (simp add: state_ok_def b'(2))
  ultimately have "states_ok ctr log (waiting_for b') (pool_jobs (b_pool b')) (b_world b') (b_states b')"
    unfolding states_ok_def wf jobs b'(1,3) using states_okD(2-5) [OF sok] ne p
    by (auto split: option.split if_splits)
  moreover have "pool_ok ctr log n (b_finishing b') (b_pool b')"
    using pok fresh(2) fn by (auto simp: pool_ok_def b'(3,5) q job_ok_def)
  moreover have "waiters_ok log (b_states b') (b_core b') (b_awaiting b')"
  proof -
    have "waiter_ok log (b_states b') (b_core b') (h', aw')" if x: "(h', aw') \<in> set (b_awaiting b)" for h' aw'
    proof -
      have ok: "waiter_ok log (b_states b) (b_core b) (h', aw')" using wok x by (auto simp: waiters_ok_def)
      then obtain st where st: "b_states b (ba_state aw') = Some st" by (auto simp: waiter_ok_def Let_def)
      have "(fd, True) \<notin> spots h' ?t"
        using ok ne [OF st] st by (auto simp: waiter_ok_def Let_def waits_at_def)
      moreover have "h' \<noteq> h" using h(1) x by force
      ultimately have "\<forall>c. (fd, c) \<notin> spots h' (\<lambda>_. (?t fd)\<lparr>rd := Some (entry_of (Some h) (Some q) None Ready)\<rparr>)"
        by (auto simp: in_spots entry_of_def)
      moreover have "ba_state aw' \<noteq> p" using st fresh(1) by auto
      ultimately show ?thesis using waiter_away [OF sok ok _ b'(7)] at b'(1,6) by simp
    qed
    moreover have "waiter_ok log (b_states b') (b_core b') (h, ?aw)"
    proof -
      have "((g, c) \<in> spots h (view (l_reactor (b_core b')))) = (g = fd \<and> \<not> c)" for g c
        using h(2) in_spots [of g c h ?t] by (auto simp: b'(7) in_spots_upd in_spots [of _ _ _ "\<lambda>_. _"] entry_of_def split: if_splits)
      then have "spots h (view (l_reactor (b_core b'))) = {(fd, False)}" by auto
      then show ?thesis using h(3) by (simp add: waiter_ok_def Let_def waits_at_def b'(1,6,7) entry_of_def)
    qed
    moreover have "p \<notin> (\<lambda>(h, aw). ba_state aw) ` set (b_awaiting b)" using p(2) by (simp add: waiting_for_def)
    ultimately show ?thesis using wok h(1) by (auto simp: waiters_ok_def b'(4) image_iff)
  qed
  ultimately show ?thesis by (simp add: blocking_inv_def)
qed

lemma blocking_reach_inv:
  assumes "eventfd_laws sys ctr" "blocking_reach sys ctr n cap log b"
  shows "blocking_inv ctr n log b"
  using assms(2)
proof (induction rule: blocking_reach.induct)
  case (resume log b h aw res b')
  have "0 < queued h (b_core b)" using resume.hyps(4) count_list_0_iff [of "ready_queue (b_core b)" "Some h"] by (auto simp: queued_def)
  then show ?case by (rule resume_queued(2) [OF assms(1) resume.IH resume.hyps(3) _ resume.hyps(5)])
qed (auto intro: blocking_inv_start blocking_inv_call [OF assms(1)] blocking_inv_run [OF assms(1)] blocking_inv_turn [OF assms(1)]
  blocking_inv_poll [OF assms(1)] blocking_inv_other blocking_inv_stop_pool blocking_inv_join_pool blocking_inv_teardown [OF assms(1)])

end
