(* ===== verification/Bridge_Properties.thy ===== *)
theory Bridge_Properties
  imports Bridge_Call
begin

text \<open>What a coroutine that awaits \<open>spawn_blocking\<close> gets, and when.\<close>

text \<open>
  C19. \<open>spawn_blocking\<close> delivers. In every interleaving of calls, pool workers, polls, resumptions, a shutdown of the pool,
  the teardown of the loop and a rest of the program that leaves the notifiers alone: a coroutine that awaits has been queued
  at most once, and only after its function has run; when it is resumed it gets exactly what its function gave, an
  exception as \<open>EPERM\<close>. While it is not queued, the reactor waits for its notifier and for nothing else on its behalf, and
  its function is still in the pool or its notifier is readable, so the wake-up is not lost. A worker that runs or has
  run a closure finds the shared state alive and its descriptor open, also when the loop is gone, and a shared state lives
  only as long as somebody needs it. No function runs twice. A call that does not suspend fails with an error and leaves no
  closure, state, descriptor or registration behind.
\<close>

theorem blocking_result_arrives:
  assumes "eventfd_laws sys ctr" "blocking_reach sys ctr n cap log b"
  shows "(\<forall>h aw. (h, aw) \<in> set (b_awaiting b) \<longrightarrow>
      (if queued h (b_core b) = 0
       then waits_at h (awaiter_fd aw b) (view (l_reactor (b_core b))) \<and>
         (if runs (ba_state aw) log = [] then 0 < count (pool_jobs (b_pool b)) (ba_state aw)
          else ctr (b_world b) (awaiter_fd aw b) = Some 1)
       else queued h (b_core b) = 1 \<and>
         (\<exists>out. runs (ba_state aw) log = [out] \<and> fst (bridge_resume sys h aw b) = work_outcome out))) \<and>
    (\<forall>i job. i < n \<and> p_workers (b_pool b) ! i = Busy job \<longrightarrow>
      (\<exists>st. b_states b (fst (callable job)) = Some st \<and> ctr (b_world b) (bs_notifier st) \<noteq> None)) \<and>
    (\<forall>p. length (runs p log) \<le> 1) \<and>
    (\<forall>p. b_states b p \<noteq> None \<longrightarrow> p \<in> waiting_for b \<or> 0 < count (pool_jobs (b_pool b)) p) \<and>
    (\<forall>p q h fn res b'. b_states b p = None \<and> spawn_blocking_start sys p q h fn b = (Some res, b') \<longrightarrow>
      (\<exists>e. res = Err e) \<and> gave_up ctr b b')"
proof -
  note inv = blocking_reach_inv [OF assms]
  note parts = inv [unfolded blocking_inv_def]
  have sok: "states_ok ctr log (waiting_for b) (pool_jobs (b_pool b)) (b_world b) (b_states b)"
    and pok: "pool_ok ctr log n (b_finishing b) (b_pool b)" using parts by blast+
  have "if queued h (b_core b) = 0
       then waits_at h (awaiter_fd aw b) (view (l_reactor (b_core b))) \<and>
         (if runs (ba_state aw) log = [] then 0 < count (pool_jobs (b_pool b)) (ba_state aw)
          else ctr (b_world b) (awaiter_fd aw b) = Some 1)
       else queued h (b_core b) = 1 \<and>
         (\<exists>out. runs (ba_state aw) log = [out] \<and> fst (bridge_resume sys h aw b) = work_outcome out)"
    if a: "(h, aw) \<in> set (b_awaiting b)" for h aw
  proof -
    have ok: "waiter_ok log (b_states b) (b_core b) (h, aw)" using parts a by (auto simp: waiters_ok_def)
    then obtain st where st: "b_states b (ba_state aw) = Some st" by (auto simp: waiter_ok_def Let_def)
    have "ba_state aw \<in> waiting_for b" using a by (force simp: waiting_for_def)
    then have "if runs (ba_state aw) log = [] then 0 < count (pool_jobs (b_pool b)) (ba_state aw)
        else ctr (b_world b) (bs_notifier st) = Some 1"
      using states_okD(1) [OF sok st] states_okD(4) [OF sok, of "ba_state aw"]
      by (cases "runs (ba_state aw) log") (auto simp: state_ok_def)
    moreover have "queued h (b_core b) \<noteq> 0 \<Longrightarrow> \<exists>out. runs (ba_state aw) log = [out] \<and> fst (bridge_resume sys h aw b) = work_outcome out"
      using resume_queued(1) [OF assms(1) inv a, of "fst (bridge_resume sys h aw b)" "snd (bridge_resume sys h aw b)"] by simp
    ultimately show ?thesis using ok st by (auto simp: waiter_ok_def Let_def awaiter_fd_def)
  qed
  moreover have "\<exists>st. b_states b (fst (callable job)) = Some st \<and> ctr (b_world b) (bs_notifier st) \<noteq> None"
    if "i < n" "p_workers (b_pool b) ! i = Busy job" for i job
  proof -
    have "0 < count (pool_jobs (b_pool b)) (fst (callable job))"
      using busy_in_jobs [of i "b_pool b" job] that pok by (simp add: pool_ok_def)
    then obtain st where st: "b_states b (fst (callable job)) = Some st"
      using states_okD(2) [OF sok, of "fst (callable job)"] by (cases "b_states b (fst (callable job))") auto
    then show ?thesis using states_okD(1) [OF sok st] by (auto simp: state_ok_def)
  qed
  moreover have "b_states b p \<noteq> None \<Longrightarrow> p \<in> waiting_for b \<or> 0 < count (pool_jobs (b_pool b)) p" for p
    using states_okD(1) [OF sok, of p] by (auto simp: state_ok_def split: if_splits)
  moreover have "(\<exists>e. res = Err e) \<and> gave_up ctr b b'"
    if "b_states b p = None" "spawn_blocking_start sys p q h fn b = (Some res, b')" for p q h fn res b'
    using assms(1) that by (cases rule: spawn_blocking_start_cases) auto
  ultimately show ?thesis using states_okD(4) [OF sok] by blast
qed

section \<open>A run\<close>

definition sample_bridge :: "(unit, int \<rightharpoonup> nat) bridge_sys" where
  "sample_bridge = \<lparr>epoll_create1 = (\<lambda>w. (Inr 3, w)),
     eventfd = (\<lambda>w. if w 5 = None then (Inr 5, w(5 \<mapsto> 0)) else (Inl 24, w)),
     epoll_ctl = (\<lambda>_ _ _ _ w. (None, w)),
     epoll_wait = (\<lambda>_ _ _ w. (Inr (if w 5 = None \<or> w 5 = Some 0 then [] else [(5, EPOLLIN)]), w)),
     close_fd = (\<lambda>fd w. (None, w(fd := None))),
     write_eventfd = (\<lambda>fd w. case w fd of None \<Rightarrow> (Inl EBADF, w) | Some n \<Rightarrow> (Inr 8, w(fd \<mapsto> n + 1))),
     read_eventfd = (\<lambda>fd w. w), clock_now = (\<lambda>w. (0, w)), sys_errno = (\<lambda>_. 0), resume = (\<lambda>_ c. c),
     read_counter_fd = (\<lambda>fd w. case w fd of
        None \<Rightarrow> (Inl EBADF, w)
      | Some n \<Rightarrow> if n = 0 then (Inl EAGAIN, w) else (Inr (8, of_nat n), w(fd \<mapsto> 0)))\<rparr>"

lemma sample_bridge_laws: "eventfd_laws sample_bridge id"
  by (auto simp: eventfd_laws_def sample_bridge_def)

definition sample_core :: "(unit, int \<rightharpoonup> nat) core" where
  "sample_core = \<lparr>l_reactor = \<lparr>epoll_fd = 3, fd_slots = [], io_ready = []\<rparr>, l_timer = new_wheel 0, l_signals = None,
     owned_tasks = [], ready_queue = [], stop_source = None, graceful_source = None, cross_core_fd = 4, cross_core_queue = [],
     cells = \<lparr>wstate = (\<lambda>_. Pending), results = (\<lambda>_. Ok 0)\<rparr>, frames = Map.empty, stops = no_stop_states, world = Map.empty\<rparr>"

theorem blocking_result_arrives_witness:
  "\<exists>b aw. blocking_reach sample_bridge id 1 4 [(0, Some (42 :: nat))] b \<and> b_awaiting b = [(7, aw)] \<and>
     queued 7 (b_core b) = 1 \<and> fst (bridge_resume sample_bridge 7 aw b) = Ok 42"
proof -
  let ?R = "blocking_reach sample_bridge id 1 4 :: (nat \<times> nat option) list \<Rightarrow> _"
  define fn :: "(int \<rightharpoonup> nat) \<Rightarrow> (nat option \<times> (int \<rightharpoonup> nat)) option" where "fn = (\<lambda>w. Some (Some 42, w))"
  define b0 :: "(nat, unit, int \<rightharpoonup> nat) bridge" where "b0 = \<lparr>b_core = sample_core, b_pool = new_pool 1 4, b_states = Map.empty,
    b_awaiting = [], b_finishing = {}, b_alive = True\<rparr>"
  define b1 where "b1 = snd (spawn_blocking_start sample_bridge 0 1 7 fn b0)"
  define b2 where "b2 = the (bridge_turn sample_bridge 0 b1)"
  define b3 where "b3 = the (bridge_run sample_bridge 0 b2)"
  define b4 where "b4 = bridge_poll sample_bridge b3"
  note call = spawn_blocking_start_def blocking_await_suspend_def blocking_awaiter_new_def set_work_def notifier_create_def retain_def
    set_state_def set_world_def b_world_def new_blocking_state_def awaiter_fd_def register_read_def ensure_slot_def set_rd_def ensure_def
    pool_spawn_def try_send_def sample_core_def sample_bridge_def b0_def new_pool_def make_channel_def empty_entry_def
  have c: "spawn_blocking_start sample_bridge 0 1 7 fn b0 = (None, b1)"
    unfolding b1_def by (simp add: call)
  define aw :: "(nat, int \<rightharpoonup> nat) blocking_awaiter" where "aw = \<lparr>ba_state = 0, ba_work = None, ba_readiness = 1\<rparr>"
  let ?st = "\<lparr>bs_notifier = 5, bs_result = Err not_completed_error, bs_refs = Suc 1\<rparr>"
  have b1: "b_awaiting b1 = [(7, aw)]" "b_states b1 = [0 \<mapsto> ?st]" "p_workers (b_pool b1) = [Waiting]" "queue (p_tasks (b_pool b1)) = [Direct (0, fn)]"
    "b_finishing b1 = {}" "world (b_core b1) = [5 \<mapsto> 0]" "ready_queue (b_core b1) = []" "io_ready (l_reactor (b_core b1)) = []"
    "fd_slots (l_reactor (b_core b1)) = (replicate 6 empty_entry)[5 := \<lparr>rd = Some (entry_of (Some 7) (Some 1) None Ready), wr = None\<rparr>]"
    "b_alive b1"
    unfolding b1_def by (simp_all add: call aw_def entry_of_def)
  have b2: "bridge_turn sample_bridge 0 b1 = Some b2"
    "b2 = b1\<lparr>b_pool := (b_pool b1)\<lparr>p_tasks := (p_tasks (b_pool b1))\<lparr>queue := []\<rparr>, p_workers := [Busy (Direct (0, fn))]\<rparr>\<rparr>"
    unfolding b2_def by (simp_all add: bridge_turn_def worker_loop_def b1 recv_def pop_front_def)
  have b3: "bridge_run sample_bridge 0 b2 = Some b3"
    "b3 = b2\<lparr>b_core := (b_core b1)\<lparr>world := [5 \<mapsto> 1]\<rparr>, b_states := [0 \<mapsto> ?st\<lparr>bs_result := Ok 42\<rparr>], b_finishing := {0}\<rparr>"
    unfolding b3_def by (simp_all add: b2(2) bridge_run_def b1 run_work_def fn_def b_world_def notifier_notify_def sample_bridge_def
        store_result_def set_state_def set_world_def work_outcome_def)
  have "?R [] b0" unfolding b0_def by (rule blocking_reach.start)
  from blocking_reach.call [OF this _ _ _ _ _ _ _ c] have "?R [] b1"
    by (simp add: b0_def runs_def sample_core_def spots_def view_def queued_def leaves_counters_def fn_def)
  from blocking_reach.turn [OF this _ b2(1)] have "?R [] b2" by simp
  from blocking_reach.run [OF this _ _ _ b3(1), of "Direct (0, fn)"] have "?R [(0, Some 42)] b3" by (simp add: b2(2) fn_def)
  from blocking_reach.poll [OF this] have r: "?R [(0, Some 42)] b4" by (simp add: b4_def b3(2) b2(2) b1(10))
  have "EPOLLIN AND EPOLLIN \<noteq> 0" by (simp add: EPOLLIN_def)
  then have "queued 7 (b_core b4) = 1" "b_awaiting b4 = [(7, aw)]"
    by (simp_all add: b4_def b3(2) b2(2) b1 bridge_poll_def poll_io_def sample_bridge_def poll_def poll_event_def fire_def entry_of_def
        set_rd_def reactor_drain_ready_into_def queued_def Let_def)
  then show ?thesis using blocking_result_arrives [OF sample_bridge_laws r] r by (auto simp: runs_def aw_def work_outcome_def)
qed

end
