(* ===== verification/Fs_Async.thy ===== *)
theory Fs_Async
  imports Fs_File Bridge_Call
begin

text \<open>
  The asynchronous file operations, \<^verbatim>\<open>src/fs/ops.hpp\<close>, and \<open>spawn_blocking_result\<close> of
  \<^verbatim>\<open>src/fs/detail.hpp\<close>, which runs a synchronous operation on the blocking pool. As for
  \<open>spawn_blocking\<close>, an operation is its part up to the suspension and its part from the resumption on.
  \<open>loop\<close> and \<open>pool\<close> say whether the thread's \<open>g_reactor\<close> and \<open>g_thread_pool\<close> are set.
\<close>

section \<open>Running a fallible operation on the pool\<close>

text \<open>The operation handed to the pool returns a \<open>Result\<close> and throws nothing.\<close>

definition blocking_op :: "('w \<Rightarrow> ('a result \<times> 'w) option) \<Rightarrow> 'w \<Rightarrow> ('a result option \<times> 'w) option" where
  "blocking_op f w = map_option (\<lambda>(r, w'). (Some r, w')) (f w)"

definition flatten_result :: "'a result result \<Rightarrow> 'a result" where
  "flatten_result nested = (case nested of Inl e \<Rightarrow> Err e | Inr r \<Rightarrow> r)"

definition no_loop_error :: system_error where
  "no_loop_error = make_error EPERM ''fs operation requires a running EventLoop''"

definition no_pool_error :: system_error where
  "no_pool_error = make_error EPERM ''fs operation requires Runtime blocking pool''"

definition spawn_blocking_result ::
  "('v, 'w) bridge_sys \<Rightarrow> bool \<Rightarrow> bool \<Rightarrow> nat \<Rightarrow> nat \<Rightarrow> coro \<Rightarrow> ('w \<Rightarrow> ('a result \<times> 'w) option)
     \<Rightarrow> ('a result, 'v, 'w) bridge \<Rightarrow> 'a result option \<times> ('a result, 'v, 'w) bridge" where
  "spawn_blocking_result sys loop pool p q h f b =
     (if \<not> loop then (Some (Err no_loop_error), b)
      else if \<not> pool then (Some (Err no_pool_error), b)
      else let (res, b1) = spawn_blocking_start sys p q h (blocking_op f) b in (map_option flatten_result res, b1))"

definition spawn_blocking_result_finish ::
  "('v, 'w) bridge_sys \<Rightarrow> ('a result, 'w) blocking_awaiter \<Rightarrow> ('a result, 'v, 'w) bridge
     \<Rightarrow> 'a result \<times> ('a result, 'v, 'w) bridge" where
  "spawn_blocking_result_finish sys aw b = (let (res, b1) = spawn_blocking_finish sys aw b in (flatten_result res, b1))"

section \<open>The operations\<close>

type_synonym ('a, 'v, 'w) async_op =
  "('v, 'w) bridge_sys \<Rightarrow> bool \<Rightarrow> bool \<Rightarrow> nat \<Rightarrow> nat \<Rightarrow> coro \<Rightarrow> ('a result, 'v, 'w) bridge
     \<Rightarrow> 'a result option \<times> ('a result, 'v, 'w) bridge"

text \<open>The work each operation hands to the pool; \<open>Some\<close> where the synchronous operation always returns.\<close>

definition returns :: "('w \<Rightarrow> 'a result \<times> 'w) \<Rightarrow> 'w \<Rightarrow> ('a result \<times> 'w) option" where
  "returns f w = Some (f w)"

definition fs_read :: "'w fs_calls \<Rightarrow> string \<Rightarrow> (u8 list, 'v, 'w) async_op" where
  "fs_read fc path sys loop pool p q h b = spawn_blocking_result sys loop pool p q h (read_file_sync fc path) b"

definition fs_write :: "'w fs_calls \<Rightarrow> string \<Rightarrow> u8 list \<Rightarrow> (unit, 'v, 'w) async_op" where
  "fs_write fc path data sys loop pool p q h b = spawn_blocking_result sys loop pool p q h (write_file_sync fc path data False) b"

definition fs_write_string :: "'w fs_calls \<Rightarrow> string \<Rightarrow> string \<Rightarrow> (unit, 'v, 'w) async_op" where
  "fs_write_string fc path data sys loop pool p q h b =
     spawn_blocking_result sys loop pool p q h (write_file_sync fc path (bytes_of data) False) b"

definition fs_append :: "'w fs_calls \<Rightarrow> string \<Rightarrow> u8 list \<Rightarrow> (unit, 'v, 'w) async_op" where
  "fs_append fc path data sys loop pool p q h b = spawn_blocking_result sys loop pool p q h (write_file_sync fc path data True) b"

definition fs_append_string :: "'w fs_calls \<Rightarrow> string \<Rightarrow> string \<Rightarrow> (unit, 'v, 'w) async_op" where
  "fs_append_string fc path data sys loop pool p q h b =
     spawn_blocking_result sys loop pool p q h (write_file_sync fc path (bytes_of data) True) b"

definition fs_exists :: "'w fs_calls \<Rightarrow> string \<Rightarrow> (bool, 'v, 'w) async_op" where
  "fs_exists fc path sys loop pool p q h b = spawn_blocking_result sys loop pool p q h (returns (exists_sync fc path)) b"

definition fs_metadata :: "'w fs_calls \<Rightarrow> string \<Rightarrow> (metadata, 'v, 'w) async_op" where
  "fs_metadata fc path sys loop pool p q h b = spawn_blocking_result sys loop pool p q h (returns (metadata_path_sync fc path True)) b"

definition fs_symlink_metadata :: "'w fs_calls \<Rightarrow> string \<Rightarrow> (metadata, 'v, 'w) async_op" where
  "fs_symlink_metadata fc path sys loop pool p q h b =
     spawn_blocking_result sys loop pool p q h (returns (metadata_path_sync fc path False)) b"

definition fs_remove_file :: "'w fs_calls \<Rightarrow> string \<Rightarrow> (unit, 'v, 'w) async_op" where
  "fs_remove_file fc path sys loop pool p q h b = spawn_blocking_result sys loop pool p q h (returns (remove_file_sync fc path)) b"

text \<open>\<open>read_to_string\<close> copies the bytes that \<open>read\<close> gives.\<close>

definition text_of_bytes :: "u8 list result \<Rightarrow> string result" where
  "text_of_bytes bytes = (case bytes of Inl e \<Rightarrow> Err e | Inr bs \<Rightarrow> Ok (map (\<lambda>b. char_of (unat b)) bs))"

definition fs_read_to_string ::
  "'w fs_calls \<Rightarrow> string \<Rightarrow> ('v, 'w) bridge_sys \<Rightarrow> bool \<Rightarrow> bool \<Rightarrow> nat \<Rightarrow> nat \<Rightarrow> coro \<Rightarrow> (u8 list result, 'v, 'w) bridge
     \<Rightarrow> string result option \<times> (u8 list result, 'v, 'w) bridge" where
  "fs_read_to_string fc path sys loop pool p q h b =
     (let (res, b1) = fs_read fc path sys loop pool p q h b in (map_option text_of_bytes res, b1))"

section \<open>What they return\<close>

text \<open>The bytes of a string read back are the string.\<close>

lemma text_of_string_bytes: "text_of_bytes (Ok (bytes_of s)) = Ok s"
proof -
  have "unat (of_char c :: u8) = of_char c" for c
  proof -
    have "unat (of_char c :: u8) = unat (of_nat (of_char c) :: u8)" by (simp only: of_nat_of_char)
    then show ?thesis using nat_of_char_less_256 [of c] by (simp only: unat_of_nat) simp
  qed
  then show ?thesis by (simp add: text_of_bytes_def bytes_of_def comp_def map_idI)
qed

text \<open>
  An operation that does not suspend has failed, with the error that says why, and has left nothing behind;
  one that is resumed returns what the synchronous operation returned on the pool.
\<close>

lemma spawn_blocking_result_fails:
  assumes "eventfd_laws sys ctr" "b_states b p = None" "spawn_blocking_result sys loop pool p q h f b = (Some res, b')"
  shows "(\<exists>e. res = Err e) \<and> (if loop \<and> pool then gave_up ctr b b' else b' = b)"
proof (cases "loop \<and> pool")
  case True
  obtain r b1 where s: "spawn_blocking_start sys p q h (blocking_op f) b = (r, b1)" by fastforce
  from assms(1,2) s show ?thesis
  proof (cases rule: spawn_blocking_start_cases)
    case (failed e)
    then show ?thesis using assms(3) True s by (auto simp: spawn_blocking_result_def flatten_result_def)
  next
    case (suspended fd b2 b3)
    then show ?thesis using assms(3) True s by (simp add: spawn_blocking_result_def)
  qed
next
  case False
  then show ?thesis using assms(3) by (auto simp: spawn_blocking_result_def split: if_splits)
qed

lemma spawn_blocking_result_passes:
  assumes "eventfd_laws sys ctr" "blocking_inv ctr n log b" "(h, aw) \<in> set (b_awaiting b)" "0 < queued h (b_core b)"
  shows "\<exists>out. runs (ba_state aw) log = [out] \<and> flatten_result (fst (bridge_resume sys h aw b)) =
    (case out of Some r \<Rightarrow> r | None \<Rightarrow> Err (make_error EPERM ''exception in spawn_blocking task''))"
proof -
  obtain out where "runs (ba_state aw) log = [out]" "fst (bridge_resume sys h aw b) = work_outcome out"
    using resume_queued(1) [OF assms(1-4), of "fst (bridge_resume sys h aw b)" "snd (bridge_resume sys h aw b)"] by auto
  then show ?thesis by (intro exI [of _ out]) (simp add: work_outcome_def flatten_result_def split: option.split)
qed

end
