(* ===== verification/Executor.thy ===== *)
theory Executor
  imports Loop_Properties
begin

text \<open>
  The executor, \<^verbatim>\<open>src/runtime/executor.hpp\<close>: one event loop per core, a thread for each, and the
  operations of the thread that owns the executor. The loops share the kernel and the rest of the world
  (\<open>x_world\<close>); everything else a loop's thread reaches belongs to its core. The callbacks the program
  installs are parameters, and so is \<open>sigaction\<close>.
\<close>

section \<open>State\<close>

datatype fault_policy = FailFast | LogOnly

text \<open>
  Where a worker is: created, in a phase of \<open>run\<close>, with the error that \<open>run\<close> gave, stopping all loops
  from this number on, leaving, gone.
\<close>

datatype thread = Created | Looping pc | Failed system_error | StopAll nat | Leaving | Exited

record ('s, 'v, 'w) executor =
  x_cores :: "('v, 'w) core list"
  x_world :: 'w
  x_threads :: "thread list"
  x_thread_init :: "(nat \<Rightarrow> 'w \<Rightarrow> 'w) option"
  x_teardown :: "(nat \<Rightarrow> 'w \<Rightarrow> 'w) option"
  x_metrics :: "core_metrics list"
  x_registry :: metrics_registry
  x_faults_mu :: bool
  x_faults :: "system_error list"
  x_policy :: fault_policy
  x_diag :: 's

definition kFallbackCoreCount :: nat where "kFallbackCoreCount = 1"

definition default_core_count :: "nat \<Rightarrow> nat" where
  "default_core_count hw = (if 0 < hw then hw else kFallbackCoreCount)"

text \<open>What a thread does to one core: its own state, and the world they share.\<close>

definition on_core :: "nat \<Rightarrow> (('v, 'w) core \<Rightarrow> ('v, 'w) core) \<Rightarrow> ('s, 'v, 'w) executor \<Rightarrow> ('s, 'v, 'w) executor" where
  "on_core i f x =
     (let c = f ((x_cores x ! i)\<lparr>world := x_world x\<rparr>)
      in x\<lparr>x_cores := (x_cores x)[i := c], x_world := world c\<rparr>)"

section \<open>Creation\<close>

definition core_of :: "event_loop \<Rightarrow> cancel_cb stop_states \<Rightarrow> 'w \<Rightarrow> ('v, 'w) core" where
  "core_of l st w =
     event_loop.extend l \<lparr>cells = \<lparr>wstate = (\<lambda>_. Pending), results = (\<lambda>_. Ok 0)\<rparr>, frames = Map.empty, stops = st, world = w\<rparr>"

text \<open>Destroying a loop closes its wake-up descriptor and then, with the reactor, the epoll descriptor.\<close>

definition destroy_loop :: "('v, 'w) sys \<Rightarrow> ('v, 'w) core \<Rightarrow> 'w \<Rightarrow> 'w" where
  "destroy_loop sys c w =
     (let w1 = event_loop_destroy sys (event_loop.truncate c) w
      in if 0 \<le> epoll_fd (l_reactor c) then snd (close_fd sys (epoll_fd (l_reactor c)) w1) else w1)"

fun create_loops :: "('v, 'w) sys \<Rightarrow> nat \<Rightarrow> ('v, 'w) core list \<Rightarrow> 'w \<Rightarrow> ('v, 'w) core list result \<times> 'w" where
  "create_loops sys 0 loops w = (Ok loops, w)"
| "create_loops sys (Suc k) loops w =
     (case event_loop_create sys no_stop_states w of
        (Inl e, _, w1) \<Rightarrow> (Err e, fold (destroy_loop sys) loops w1)
      | (Inr l, st, w1) \<Rightarrow> create_loops sys k (loops @ [core_of l st w1]) w1)"

definition new_executor :: "'s \<Rightarrow> metrics_registry \<Rightarrow> ('v, 'w) core list \<Rightarrow> 'w \<Rightarrow> ('s, 'v, 'w) executor" where
  "new_executor diag reg loops w =
     \<lparr>x_cores = loops, x_world = w, x_threads = [], x_thread_init = None, x_teardown = None, x_metrics = [],
      x_registry = reg, x_faults_mu = True, x_faults = [], x_policy = FailFast, x_diag = diag\<rparr>"

definition executor_create ::
  "('v, 'w) sys \<Rightarrow> 's \<Rightarrow> metrics_registry \<Rightarrow> nat \<Rightarrow> 'w \<Rightarrow> ('s, 'v, 'w) executor result \<times> 'w" where
  "executor_create sys diag reg num_cores w =
     (case create_loops sys num_cores [] w of
        (Inl e, w1) \<Rightarrow> (Err e, w1)
      | (Inr loops, w1) \<Rightarrow> (Ok (new_executor diag reg loops w1), w1))"

definition set_fault_policy :: "fault_policy \<Rightarrow> ('s, 'v, 'w) executor \<Rightarrow> ('s, 'v, 'w) executor" where
  "set_fault_policy p x = x\<lparr>x_policy := p\<rparr>"

definition on_thread_init :: "(nat \<Rightarrow> 'w \<Rightarrow> 'w) \<Rightarrow> ('s, 'v, 'w) executor \<Rightarrow> ('s, 'v, 'w) executor" where
  "on_thread_init f x = x\<lparr>x_thread_init := Some f\<rparr>"

definition on_teardown :: "(nat \<Rightarrow> 'w \<Rightarrow> 'w) \<Rightarrow> ('s, 'v, 'w) executor \<Rightarrow> ('s, 'v, 'w) executor" where
  "on_teardown f x = x\<lparr>x_teardown := Some f\<rparr>"

definition core_count :: "('s, 'v, 'w) executor \<Rightarrow> nat" where
  "core_count x = length (x_cores x)"

definition loop_at :: "nat \<Rightarrow> ('s, 'v, 'w) executor \<Rightarrow> ('v, 'w) core" where
  "loop_at i x = x_cores x ! i"

text \<open>Moving leaves a shell without loops, threads and mutex.\<close>

definition executor_move :: "('s, 'v, 'w) executor \<Rightarrow> ('s, 'v, 'w) executor \<times> ('s, 'v, 'w) executor" where
  "executor_move x =
     (x, x\<lparr>x_cores := [], x_threads := [], x_thread_init := None, x_teardown := None, x_metrics := [], x_faults_mu := False,
           x_faults := []\<rparr>)"

section \<open>Stopping and joining\<close>

text \<open>The calling thread runs no loop, so the stop callbacks find no \<open>g_event_loop\<close>.\<close>

definition stop_core :: "('v, 'w) sys \<Rightarrow> nat \<Rightarrow> ('s, 'v, 'w) executor \<Rightarrow> ('s, 'v, 'w) executor" where
  "stop_core sys k x = on_core k (request_stop sys False) x"

definition executor_stop :: "('v, 'w) sys \<Rightarrow> ('s, 'v, 'w) executor \<Rightarrow> ('s, 'v, 'w) executor" where
  "executor_stop sys x = fold (stop_core sys) [0..<length (x_cores x)] x"

definition graceful_stop_core :: "('v, 'w) sys \<Rightarrow> nat \<Rightarrow> ('s, 'v, 'w) executor \<Rightarrow> ('s, 'v, 'w) executor" where
  "graceful_stop_core sys k x = on_core k (request_graceful_stop sys False) x"

definition executor_request_graceful_stop :: "('v, 'w) sys \<Rightarrow> ('s, 'v, 'w) executor \<Rightarrow> ('s, 'v, 'w) executor" where
  "executor_request_graceful_stop sys x = fold (graceful_stop_core sys) [0..<length (x_cores x)] x"

text \<open>\<open>join\<close> waits for the threads one after the other; \<open>None\<close> while one of them is still there.\<close>

definition first_fault :: "('s, 'v, 'w) executor \<Rightarrow> unit result" where
  "first_fault x =
     (if x_faults_mu x then (case x_faults x of [] \<Rightarrow> Ok () | e # _ \<Rightarrow> Err e) else Ok ())"

definition executor_join :: "('s, 'v, 'w) executor \<Rightarrow> (unit result \<times> ('s, 'v, 'w) executor) option" where
  "executor_join x =
     (if list_all (\<lambda>t. t = Exited) (x_threads x) then Some (first_fault x, x\<lparr>x_threads := []\<rparr>) else None)"

text \<open>
  \<open>stop_and_join\<close>, which is also the destructor: the joining part is run again while it answers \<open>None\<close>.
\<close>

definition stop_and_join :: "('v, 'w) sys \<Rightarrow> ('s, 'v, 'w) executor \<Rightarrow> ('s, 'v, 'w) executor option" where
  "stop_and_join sys x = map_option snd (executor_join (executor_stop sys x))"

text \<open>
  \<open>graceful_stop\<close> asks for a graceful stop, starts a watchdog and joins. A round of the watchdog looks at
  the clock: past its end it stops the loops and is done, before it is done when the joining is.
\<close>

definition watchdog_round ::
  "('v, 'w) sys \<Rightarrow> time_point \<Rightarrow> bool \<Rightarrow> ('s, 'v, 'w) executor \<Rightarrow> bool \<times> ('s, 'v, 'w) executor" where
  "watchdog_round sys end_time drained x =
     (let (now, w) = clock_now sys (x_world x); x1 = x\<lparr>x_world := w\<rparr>
      in if now < end_time then (drained, x1) else (True, executor_stop sys x1))"

definition graceful_stop_begin ::
  "('v, 'w) sys \<Rightarrow> duration \<Rightarrow> ('s, 'v, 'w) executor \<Rightarrow> time_point \<times> ('s, 'v, 'w) executor" where
  "graceful_stop_begin sys deadline x =
     (let x1 = executor_request_graceful_stop sys x; (now, w) = clock_now sys (x_world x1)
      in (now + deadline, x1\<lparr>x_world := w\<rparr>))"

section \<open>Running\<close>

definition ignore_sigpipe :: "('w \<Rightarrow> int option \<times> 'w) \<Rightarrow> 'w \<Rightarrow> unit result \<times> 'w" where
  "ignore_sigpipe sigaction w =
     (case sigaction w of
        (Some e, w1) \<Rightarrow> (Err (from_errno e), w1)
      | (None, w1) \<Rightarrow> (Ok (), w1))"

text \<open>The setup of the cores from number \<open>i\<close> on, in the calling thread.\<close>

function run_setups ::
  "(('v, 'w) core \<Rightarrow> nat \<Rightarrow> unit result \<times> ('v, 'w) core) \<Rightarrow> nat \<Rightarrow> ('s, 'v, 'w) executor
     \<Rightarrow> unit result \<times> ('s, 'v, 'w) executor" where
  "run_setups setup_fn i x =
     (if length (x_cores x) \<le> i then (Ok (), x)
      else let (res, c) = setup_fn ((x_cores x ! i)\<lparr>world := x_world x\<rparr>) i;
               x1 = x\<lparr>x_cores := (x_cores x)[i := c], x_world := world c\<rparr>
           in case res of
                Inl e \<Rightarrow> (Err e, x1)
              | Inr _ \<Rightarrow> run_setups setup_fn (Suc i) x1)"
  by pat_completeness auto
termination by (relation "measure (\<lambda>(setup_fn, i, x). length (x_cores x) - i)") auto

declare run_setups.simps [simp del]

definition executor_run ::
  "('v, 'w) sys \<Rightarrow> ('w \<Rightarrow> int option \<times> 'w) \<Rightarrow> (('v, 'w) core \<Rightarrow> nat \<Rightarrow> unit result \<times> ('v, 'w) core)
     \<Rightarrow> ('s, 'v, 'w) executor \<Rightarrow> (unit result \<times> ('s, 'v, 'w) executor) option" where
  "executor_run sys sigaction setup_fn x =
     (case ignore_sigpipe sigaction (x_world x) of
        (Inl e, w) \<Rightarrow> Some (Err e, x\<lparr>x_world := w\<rparr>)
      | (Inr _, w) \<Rightarrow>
          (case run_setups setup_fn 0 (x\<lparr>x_world := w\<rparr>) of
             (Inl e, x1) \<Rightarrow> map_option (\<lambda>x2. (Err e, x2)) (stop_and_join sys x1)
           | (Inr _, x1) \<Rightarrow>
               Some (Ok (), x1\<lparr>x_metrics := take (length (x_cores x1)) (x_metrics x1) @
                                 replicate (length (x_cores x1) - length (x_metrics x1)) zero_metrics,
                               x_threads := x_threads x1 @ replicate (length (x_cores x1)) Created\<rparr>)))"

section \<open>The threads\<close>

text \<open>One phase of \<open>EventLoop::run\<close> as a function.\<close>

fun loop_phase :: "('v, 'w) sys \<Rightarrow> pc \<Rightarrow> ('v, 'w) core \<Rightarrow> pc \<times> ('v, 'w) core" where
  "loop_phase sys AtTop c =
     (if stop_requested (stop_source c) (stops c) then (Returned (Ok ()), c) else (AtCheck, start_round sys c))"
| "loop_phase sys AtCheck c = (let (exit, c1) = check_exit sys c in (if exit then Returned (Ok ()) else AtPoll, c1))"
| "loop_phase sys AtPoll c =
     (case poll_io sys c of (Inl e, c1) \<Rightarrow> (Returned (Err e), c1) | (Inr _, c1) \<Rightarrow> (AtTimers, c1))"
| "loop_phase sys AtTimers c = (AtDrain, advance_timer sys c)"
| "loop_phase sys AtDrain c = (AtTop, drain_cross_core sys c)"
| "loop_phase sys (Returned r) c = (Returned r, c)"

definition run_failed_event :: "system_error \<Rightarrow> event" where
  "run_failed_event e = \<lparr>ev_code = ''loop.run_failed'', ev_severity = Error, ev_error = Some e, ev_fields = []\<rparr>"

definition goto :: "nat \<Rightarrow> thread \<Rightarrow> ('s, 'v, 'w) executor \<Rightarrow> ('s, 'v, 'w) executor" where
  "goto i t x = x\<lparr>x_threads := (x_threads x)[i := t]\<rparr>"

text \<open>A step of worker \<open>i\<close>, the body of the thread that \<open>run\<close> starts for core \<open>i\<close>; \<open>None\<close> when it is gone.\<close>

definition worker_step ::
  "('v, 'w) sys \<Rightarrow> 's sink \<Rightarrow> nat \<Rightarrow> ('s, 'v, 'w) executor \<Rightarrow> ('s, 'v, 'w) executor option" where
  "worker_step sys sink i x =
     (case x_threads x ! i of
        Created \<Rightarrow>
          Some (goto i (Looping AtTop)
            (x\<lparr>x_registry := registry_add i (x_registry x),
               x_world := (case x_thread_init x of None \<Rightarrow> x_world x | Some f \<Rightarrow> f i (x_world x))\<rparr>))
      | Looping (Returned r) \<Rightarrow> Some (goto i (case r of Inl e \<Rightarrow> Failed e | Inr _ \<Rightarrow> Leaving) x)
      | Looping p \<Rightarrow>
          Some (goto i (Looping (fst (loop_phase sys p ((x_cores x ! i)\<lparr>world := x_world x\<rparr>))))
            (on_core i (\<lambda>c. snd (loop_phase sys p c)) x))
      | Failed e \<Rightarrow>
          Some (goto i (if x_policy x = FailFast then StopAll 0 else Leaving)
            (x\<lparr>x_metrics := (x_metrics x)[i := fetch_add LoopRunErrors 1 (x_metrics x ! i)],
               x_diag := emit sink (run_failed_event e) (x_diag x), x_faults := x_faults x @ [e]\<rparr>))
      | StopAll k \<Rightarrow>
          Some (if k < length (x_cores x) then goto i (StopAll (Suc k)) (stop_core sys k x) else goto i Leaving x)
      | Leaving \<Rightarrow>
          Some (goto i Exited
            (x\<lparr>x_world := (case x_teardown x of None \<Rightarrow> x_world x | Some f \<Rightarrow> f i (x_world x)),
               x_registry := registry_remove i (x_registry x)\<rparr>))
      | Exited \<Rightarrow> None)"

end
