(* ===== verification/Executor_Properties.thy ===== *)
theory Executor_Properties
  imports Executor
begin

text \<open>
  The executor in every interleaving of its workers with stop requests and submissions by other threads: what
  happens when a core fails, and that stopping ends.
\<close>

section \<open>Stop requests are not taken back\<close>

definition stop_mono :: "('v, 'w) core \<Rightarrow> ('v, 'w) core \<Rightarrow> bool" where
  "stop_mono c c' \<longleftrightarrow> stop_source c' = stop_source c \<and> (\<forall>t. stop_requested t (stops c) \<longrightarrow> stop_requested t (stops c'))"

text \<open>
  A coroutine body cannot reach the loop's stop source, which is a private member, and a stop state has no
  operation that takes a request back.
\<close>

definition keeps_stop :: "('v, 'w) sys \<Rightarrow> bool" where
  "keeps_stop sys \<longleftrightarrow> (\<forall>h c. stop_mono c (resume sys h c))"

lemma stop_mono_refl: "stop_mono c c" by (simp add: stop_mono_def)

lemma stop_mono_trans: "stop_mono a b \<Longrightarrow> stop_mono b c \<Longrightarrow> stop_mono a c" by (simp add: stop_mono_def)

lemma stop_monoI: "stop_source c' = stop_source c \<Longrightarrow> stops c' = stops c \<Longrightarrow> stop_mono c c'"
  by (simp add: stop_mono_def)

lemma start_round_stop:
  assumes "keeps_stop sys"
  shows "stop_mono c (start_round sys c)"
proof -
  have "stop_mono c (fold (resume_one sys) hs c)" for hs c
  proof (induction hs arbitrary: c)
    case (Cons h hs)
    have "stop_mono c (resume_one sys h c)"
      using assms by (auto simp: resume_one_def keeps_stop_def stop_mono_refl split: option.split)
    then show ?case using Cons.IH stop_mono_trans by auto
  qed (simp add: stop_mono_refl)
  then have "stop_mono (c\<lparr>ready_queue := []\<rparr>) (resume_ready sys c)" by (simp add: resume_ready_def)
  then show ?thesis by (simp add: start_round_def cleanup_completed_def stop_mono_def)
qed

lemma poll_io_stop: "stop_mono c (snd (poll_io sys c))"
  by (rule stop_monoI) (simp_all add: poll_io_def Let_def split: prod.split sum.split)

lemma advance_timer_stop: "stop_mono c (advance_timer sys c)"
  by (rule stop_monoI) (simp_all add: advance_timer_def Let_def split: prod.split)

lemma drain_stop: "stop_mono c (drain_cross_core sys c)"
  by (rule stop_monoI) (simp_all add: drain_cross_core_def)

lemma loop_phase_stop:
  assumes "keeps_stop sys"
  shows "stop_mono c (snd (loop_phase sys p c))"
proof (cases p)
  case AtTop
  then show ?thesis using start_round_stop [OF assms] by (simp add: stop_mono_refl)
next
  case AtCheck
  then show ?thesis by (simp add: check_exit_def Let_def stop_mono_refl drain_stop)
next
  case AtPoll
  then show ?thesis using poll_io_stop [of c sys] by (auto split: prod.split sum.split)
qed (simp_all add: advance_timer_stop drain_stop stop_mono_refl)

lemma run_callback_stop: "stop_mono c (run_callback sys b cb c)"
  by (rule stop_monoI; cases cb)
    (simp_all add: cancel_io_wait_def cancel_timed_wait_def cancel_sleep_def notify_current_def notify_def core_deregister_def
      core_cancel_timer_def set_wait_state_def Let_def split: prod.split option.split)

lemma core_request_stop_stop:
  "stop_mono c (core_request_stop sys b t c)"
  "t \<noteq> None \<Longrightarrow> stop_requested t (stops (core_request_stop sys b t c))"
proof -
  have cbs: "stop_mono c (fold (run_callback sys b) cbs c)" for cbs c
  proof (induction cbs arbitrary: c)
    case (Cons cb cbs)
    then show ?case using run_callback_stop stop_mono_trans by fastforce
  qed (simp add: stop_mono_refl)
  obtain fs st where r: "source_request_stop t (stops c) = (fs, st)" by fastforce
  have "stop_mono c (c\<lparr>stops := st\<rparr>)"
    using r by (auto simp: stop_mono_def source_request_stop_def stop_requested_def split: option.splits if_splits)
  moreover note cbs [of "c\<lparr>stops := st\<rparr>" fs]
  ultimately show "stop_mono c (core_request_stop sys b t c)" using r stop_mono_trans by (simp add: core_request_stop_def)
  assume "t \<noteq> None"
  then have "stop_requested t st"
    using r by (auto simp: source_request_stop_def stop_requested_def split: option.splits if_splits)
  then show "stop_requested t (stops (core_request_stop sys b t c))"
    using cbs [of "c\<lparr>stops := st\<rparr>" fs] r by (simp add: core_request_stop_def stop_mono_def)
qed

lemma wake_loop_stop: "stops (wake_loop sys c) = stops c" "stop_source (wake_loop sys c) = stop_source c"
  by (simp_all add: wake_loop_def)

lemma request_stop_stop:
  "stop_mono c (request_stop sys b c)" "stop_source c \<noteq> None \<Longrightarrow> stop_requested (stop_source c) (stops (request_stop sys b c))"
  "stop_mono c (request_graceful_stop sys b c)"
  using core_request_stop_stop(1) [of c sys b] core_request_stop_stop(2) [of "stop_source c" sys b c] by (auto simp: request_stop_def request_graceful_stop_def stop_mono_def wake_loop_stop)

lemma submit_stop: "stop_mono c (snd (submit sys t c))"
  by (rule stop_monoI) (simp_all add: submit_def Let_def split: prod.split sum.split)

section \<open>The states that can arise\<close>

definition stop_asked :: "('s, 'v, 'w) executor \<Rightarrow> nat \<Rightarrow> bool" where
  "stop_asked x k = stop_requested (stop_source (x_cores x ! k)) (stops (x_cores x ! k))"

text \<open>
  From an executor that \<open>run\<close> has just started, with the failures of \<open>run\<close> that workers have handled, in
  order: steps of the workers, stop and graceful-stop requests (\<open>stop\<close>, the watchdog, the destructor) and
  submissions by other threads, loop by loop.
\<close>

inductive exec_reach ::
  "('v, 'w) sys \<Rightarrow> 's sink \<Rightarrow> nat \<Rightarrow> (nat \<times> system_error) list \<Rightarrow> ('s, 'v, 'w) executor \<Rightarrow> bool"
  for sys :: "('v, 'w) sys" and sink :: "'s sink" and n :: nat where
  start: "x_threads x0 = [] \<Longrightarrow> x_metrics x0 = [] \<Longrightarrow> x_faults x0 = [] \<Longrightarrow> x_faults_mu x0 \<Longrightarrow> x_registry x0 = [] \<Longrightarrow>
    executor_run sys sigaction setup_fn x0 = Some (Ok (), x) \<Longrightarrow> length (x_cores x) = n \<Longrightarrow>
    (\<forall>c\<in>set (x_cores x). stop_source c \<noteq> None) \<Longrightarrow> exec_reach sys sink n [] x"
| work: "exec_reach sys sink n log x \<Longrightarrow> i < n \<Longrightarrow> worker_step sys sink i x = Some x' \<Longrightarrow>
    exec_reach sys sink n (case x_threads x ! i of Failed e \<Rightarrow> log @ [(i, e)] | _ \<Rightarrow> log) x'"
| stop: "exec_reach sys sink n log x \<Longrightarrow> k < n \<Longrightarrow> exec_reach sys sink n log (stop_core sys k x)"
| graceful: "exec_reach sys sink n log x \<Longrightarrow> k < n \<Longrightarrow> exec_reach sys sink n log (graceful_stop_core sys k x)"
| submitted: "exec_reach sys sink n log x \<Longrightarrow> k < n \<Longrightarrow>
    exec_reach sys sink n log (on_core k (\<lambda>c. snd (submit sys t c)) x)"

section \<open>The invariant\<close>

definition cores_ok :: "nat \<Rightarrow> ('s, 'v, 'w) executor \<Rightarrow> bool" where
  "cores_ok n x \<longleftrightarrow> length (x_cores x) = n \<and> (\<forall>k<n. stop_source (x_cores x ! k) \<noteq> None)"

text \<open>What is known of worker \<open>i\<close>: it is in the log exactly when it has handled a failure, and then every loop it has got to is asked to stop.\<close>

definition thread_ok :: "nat \<Rightarrow> (nat \<times> system_error) list \<Rightarrow> ('s, 'v, 'w) executor \<Rightarrow> nat \<Rightarrow> bool" where
  "thread_ok n log x i \<longleftrightarrow>
     (i \<in> set (x_registry x)) = (x_threads x ! i \<noteq> Created \<and> x_threads x ! i \<noteq> Exited) \<and>
     (case x_threads x ! i of
        StopAll k \<Rightarrow> i \<in> fst ` set log \<and> k \<le> n \<and> (\<forall>j<k. stop_asked x j)
      | Leaving \<Rightarrow> i \<in> fst ` set log \<and> x_policy x = FailFast \<longrightarrow> (\<forall>j<n. stop_asked x j)
      | Exited \<Rightarrow> i \<in> fst ` set log \<and> x_policy x = FailFast \<longrightarrow> (\<forall>j<n. stop_asked x j)
      | _ \<Rightarrow> i \<notin> fst ` set log)"

definition books_ok :: "nat \<Rightarrow> (nat \<times> system_error) list \<Rightarrow> ('s, 'v, 'w) executor \<Rightarrow> bool" where
  "books_ok n log x \<longleftrightarrow>
     length (x_threads x) = n \<and> length (x_metrics x) = n \<and> x_faults_mu x \<and> x_faults x = map snd log \<and>
     distinct (map fst log) \<and> fst ` set log \<subseteq> {..<n} \<and>
     (\<forall>i<n. loop_run_errors (x_metrics x ! i) = (if i \<in> fst ` set log then 1 else 0))"

definition exec_inv :: "nat \<Rightarrow> (nat \<times> system_error) list \<Rightarrow> ('s, 'v, 'w) executor \<Rightarrow> bool" where
  "exec_inv n log x \<longleftrightarrow> cores_ok n x \<and> books_ok n log x \<and> (\<forall>i<n. thread_ok n log x i)"

lemma on_core_frame [simp]:
  "x_threads (on_core k f x) = x_threads x" "x_metrics (on_core k f x) = x_metrics x" "x_registry (on_core k f x) = x_registry x"
  "x_faults (on_core k f x) = x_faults x" "x_faults_mu (on_core k f x) = x_faults_mu x" "x_policy (on_core k f x) = x_policy x"
  "length (x_cores (on_core k f x)) = length (x_cores x)"
  by (simp_all add: on_core_def Let_def)

lemma on_core_stop:
  assumes "\<And>c. stop_mono c (f c)"
  shows "stop_asked x j \<Longrightarrow> stop_asked (on_core k f x) j" "stop_source (x_cores (on_core k f x) ! j) = stop_source (x_cores x ! j)"
proof -
  have m: "stop_mono (x_cores x ! k) (f ((x_cores x ! k)\<lparr>world := x_world x\<rparr>))"
    using assms [of "(x_cores x ! k)\<lparr>world := x_world x\<rparr>"] by (simp add: stop_mono_def)
  have c: "x_cores (on_core k f x) ! j = (if j = k \<and> k < length (x_cores x) then f ((x_cores x ! k)\<lparr>world := x_world x\<rparr>) else x_cores x ! j)"
    by (cases "k < length (x_cores x)") (auto simp: on_core_def Let_def list_update_beyond)
  show "stop_asked x j \<Longrightarrow> stop_asked (on_core k f x) j" "stop_source (x_cores (on_core k f x) ! j) = stop_source (x_cores x ! j)"
    using m c by (auto simp: stop_asked_def stop_mono_def)
qed

lemma thread_ok_mono:
  assumes "thread_ok n log x i" "\<And>j. stop_asked x j \<Longrightarrow> stop_asked x' j" "x_threads x' ! i = x_threads x ! i"
    "(i \<in> set (x_registry x')) = (i \<in> set (x_registry x))" "x_policy x' = x_policy x" "(i \<in> fst ` set log') = (i \<in> fst ` set log)"
  shows "thread_ok n log' x' i"
  using assms(1) unfolding thread_ok_def assms(3-6) by (cases "x_threads x ! i") (simp_all add: assms(2))

lemma exec_inv_on_core:
  assumes inv: "exec_inv n log x" and f: "\<And>c. stop_mono c (f c)"
  shows "exec_inv n log (on_core k f x)"
proof -
  have "cores_ok n (on_core k f x)" using inv by (simp add: exec_inv_def cores_ok_def on_core_stop(2) [OF f])
  moreover have "books_ok n log (on_core k f x)" using inv by (simp add: exec_inv_def books_ok_def)
  moreover have "thread_ok n log (on_core k f x) i" if "i < n" for i
    by (rule thread_ok_mono [of n log x]) (use inv that on_core_stop(1) [OF f] in \<open>auto simp: exec_inv_def\<close>)
  ultimately show ?thesis by (simp add: exec_inv_def)
qed

lemma stop_core_mono:
  "stop_asked x j \<Longrightarrow> stop_asked (stop_core sys k x) j" "cores_ok n x \<Longrightarrow> cores_ok n (stop_core sys k x)"
  by (simp_all add: stop_core_def cores_ok_def on_core_stop [OF request_stop_stop(1)])

lemma stop_core_asks:
  assumes "cores_ok n x" "k < n"
  shows "stop_asked (stop_core sys k x) k"
  using assms request_stop_stop(1,2) [of "(x_cores x ! k)\<lparr>world := x_world x\<rparr>" sys False]
  by (simp add: stop_core_def on_core_def Let_def stop_asked_def cores_ok_def stop_mono_def)

text \<open>The ranks of the places of a worker: with its loop asked to stop, every step goes down.\<close>

fun rank :: "nat \<Rightarrow> thread \<Rightarrow> nat" where
  "rank n Created = n + 12"
| "rank n (Looping AtCheck) = n + 11"
| "rank n (Looping AtPoll) = n + 10"
| "rank n (Looping AtTimers) = n + 9"
| "rank n (Looping AtDrain) = n + 8"
| "rank n (Looping AtTop) = n + 7"
| "rank n (Looping (Returned r)) = n + 6"
| "rank n (Failed e) = n + 5"
| "rank n (StopAll k) = 2 + (n - k) + (if k \<le> n then 1 else 0)"
| "rank n Leaving = 1"
| "rank n Exited = 0"

text \<open>A step of a worker by the place it is at.\<close>

lemma worker_step_cases:
  assumes "worker_step sys sink i x = Some x'"
  obtains (created) w where "x_threads x ! i = Created"
      "x' = goto i (Looping AtTop) (x\<lparr>x_registry := registry_add i (x_registry x), x_world := w\<rparr>)"
    | (returned) r where "x_threads x ! i = Looping (Returned r)" "x' = goto i (case r of Inl e \<Rightarrow> Failed e | Inr _ \<Rightarrow> Leaving) x"
    | (phase) p where "x_threads x ! i = Looping p" "\<forall>r. p \<noteq> Returned r"
      "x' = goto i (Looping (fst (loop_phase sys p ((x_cores x ! i)\<lparr>world := x_world x\<rparr>)))) (on_core i (\<lambda>c. snd (loop_phase sys p c)) x)"
    | (failed) e s where "x_threads x ! i = Failed e"
      "x' = goto i (if x_policy x = FailFast then StopAll 0 else Leaving)
         (x\<lparr>x_metrics := (x_metrics x)[i := fetch_add LoopRunErrors 1 (x_metrics x ! i)], x_diag := s, x_faults := x_faults x @ [e]\<rparr>)"
    | (stop_all) k where "x_threads x ! i = StopAll k" "k < length (x_cores x)" "x' = goto i (StopAll (Suc k)) (stop_core sys k x)"
    | (stopped_all) k where "x_threads x ! i = StopAll k" "\<not> k < length (x_cores x)" "x' = goto i Leaving x"
    | (leaving) w where "x_threads x ! i = Leaving" "x' = goto i Exited (x\<lparr>x_world := w, x_registry := registry_remove i (x_registry x)\<rparr>)"
  using assms unfolding worker_step_def by (auto split: thread.splits pc.splits if_splits)

lemma goto_simps [simp]:
  "x_cores (goto i t x) = x_cores x" "x_metrics (goto i t x) = x_metrics x" "x_registry (goto i t x) = x_registry x"
  "x_faults (goto i t x) = x_faults x" "x_faults_mu (goto i t x) = x_faults_mu x" "x_policy (goto i t x) = x_policy x"
  "x_threads (goto i t x) = (x_threads x)[i := t]" "stop_asked (goto i t x) = stop_asked x"
  by (simp_all add: goto_def stop_asked_def fun_eq_iff)

lemma worker_step_None: "worker_step sys sink i x = None \<longleftrightarrow> x_threads x ! i = Exited"
  by (auto simp: worker_step_def split: thread.split pc.split)

lemma exec_inv_goto:
  assumes inv: "exec_inv n log x" and i: "i < n" and c: "cores_ok n x1" and m: "\<And>j. stop_asked x j \<Longrightarrow> stop_asked x1 j"
    and same: "x_threads x1 = x_threads x" "x_policy x1 = x_policy x"
      "\<And>j. j \<noteq> i \<Longrightarrow> (j \<in> set (x_registry x1)) = (j \<in> set (x_registry x)) \<and> (j \<in> fst ` set log') = (j \<in> fst ` set log)"
    and b: "books_ok n log' x1" and t: "thread_ok n log' (goto i t x1) i"
  shows "exec_inv n log' (goto i t x1)"
proof -
  have "thread_ok n log' (goto i t x1) j" if "j < n" for j
  proof (cases "j = i")
    case False
    have "thread_ok n log x j" using inv that by (simp add: exec_inv_def)
    then show ?thesis by (rule thread_ok_mono) (use False in \<open>simp_all add: m same\<close>)
  qed (use t in simp)
  then show ?thesis using c b by (simp add: exec_inv_def cores_ok_def books_ok_def)
qed

lemma exec_inv_work:
  assumes k: "keeps_stop sys" and inv: "exec_inv n log x" and i: "i < n" and w: "worker_step sys sink i x = Some x'"
  shows "exec_inv n (case x_threads x ! i of Failed e \<Rightarrow> log @ [(i, e)] | _ \<Rightarrow> log) x'"
proof -
  note inv' = inv [unfolded exec_inv_def]
  have c: "cores_ok n x" and b: "books_ok n log x" and t: "thread_ok n log x i" using inv' i by blast+
  have len: "i < length (x_threads x)" "i < length (x_metrics x)" using b i by (simp_all add: books_ok_def)
  have st: "cores_ok n (x\<lparr>x_registry := r, x_world := w'\<rparr>)" "books_ok n log (x\<lparr>x_registry := r, x_world := w'\<rparr>)"
    "stop_asked (x\<lparr>x_registry := r, x_world := w'\<rparr>) = stop_asked x" for r w'
    using c b by (simp_all add: cores_ok_def books_ok_def stop_asked_def fun_eq_iff)
  show ?thesis using w
  proof (cases rule: worker_step_cases)
    case (created w')
    have "exec_inv n log x'" unfolding created(2)
      by (rule exec_inv_goto [OF inv i st(1)]) (use created(1) t len st in \<open>auto simp: thread_ok_def registry_add_def\<close>)
    then show ?thesis using created(1) by simp
  next
    case (returned r)
    have "exec_inv n log x'" unfolding returned(2)
      by (rule exec_inv_goto [OF inv i c]) (use returned(1) t len b in \<open>auto simp: thread_ok_def split: sum.split\<close>)
    then show ?thesis using returned(1) by simp
  next
    case (phase p)
    let ?x = "on_core i (\<lambda>c. snd (loop_phase sys p c)) x"
    have e: "exec_inv n log ?x" by (rule exec_inv_on_core [OF inv loop_phase_stop [OF k]])
    have "exec_inv n log x'" unfolding phase(3)
      by (rule exec_inv_goto [OF e i]) (use e [unfolded exec_inv_def] t phase(1) len in \<open>auto simp: thread_ok_def\<close>)
    then show ?thesis using phase(1) by simp
  next
    case (failed e s)
    let ?x = "x\<lparr>x_metrics := (x_metrics x)[i := fetch_add LoopRunErrors 1 (x_metrics x ! i)], x_diag := s, x_faults := x_faults x @ [e]\<rparr>"
    have new: "i \<notin> fst ` set log" using t failed(1) by (simp add: thread_ok_def)
    have "books_ok n (log @ [(i, e)]) ?x"
      using b new i len by (auto simp: books_ok_def nth_list_update_if)
    then have "exec_inv n (log @ [(i, e)]) x'" unfolding failed(2)
      by (intro exec_inv_goto [OF inv i]) (use failed(1) t len c in \<open>auto simp: thread_ok_def cores_ok_def stop_asked_def\<close>)
    then show ?thesis using failed(1) by simp
  next
    case (stop_all m)
    have e: "exec_inv n log (stop_core sys m x)" unfolding stop_core_def by (rule exec_inv_on_core [OF inv request_stop_stop(1)])
    have m: "m < n" using stop_all(2) c by (simp add: cores_ok_def)
    have "thread_ok n log (goto i (StopAll (Suc m)) (stop_core sys m x)) i"
      using t stop_all(1) len m stop_core_mono(1) [of x _ sys m] stop_core_asks [OF c m] by (auto simp: thread_ok_def less_Suc_eq stop_core_def)
    then have "exec_inv n log x'" unfolding stop_all(3)
      by (intro exec_inv_goto [OF e i]) (use e [unfolded exec_inv_def] in auto)
    then show ?thesis using stop_all(1) by simp
  next
    case (stopped_all m)
    have "exec_inv n log x'" unfolding stopped_all(3)
      by (rule exec_inv_goto [OF inv i c]) (use stopped_all(1,2) t len b c in \<open>auto simp: thread_ok_def cores_ok_def\<close>)
    then show ?thesis using stopped_all(1) by simp
  next
    case (leaving w')
    have "exec_inv n log x'" unfolding leaving(2)
      by (rule exec_inv_goto [OF inv i]) (use leaving(1) t len c b in \<open>auto simp: thread_ok_def registry_remove_def cores_ok_def books_ok_def stop_asked_def\<close>)
    then show ?thesis using leaving(1) by simp
  qed
qed

lemma run_setups_frame:
  "run_setups setup_fn i x = (res, x') \<Longrightarrow> x_threads x' = x_threads x \<and> x_metrics x' = x_metrics x \<and> x_faults x' = x_faults x \<and>
     x_faults_mu x' = x_faults_mu x \<and> x_registry x' = x_registry x \<and> length (x_cores x') = length (x_cores x)"
proof (induction setup_fn i x rule: run_setups.induct)
  case (1 setup_fn i x)
  show ?case
  proof (cases "length (x_cores x) \<le> i")
    case False
    obtain r c where s: "setup_fn ((x_cores x ! i)\<lparr>world := x_world x\<rparr>) i = (r, c)" by fastforce
    show ?thesis
    proof (cases r)
      case (Inr u)
      then have "run_setups setup_fn (Suc i) (x\<lparr>x_cores := (x_cores x)[i := c], x_world := world c\<rparr>) = (res, x')"
        using 1(2) False s by (simp add: run_setups.simps [of setup_fn i x] Let_def)
      from 1(1) [OF False s [symmetric] refl refl Inr this] show ?thesis by simp
    qed (use 1(2) False s in \<open>auto simp: run_setups.simps [of setup_fn i x] Let_def\<close>)
  qed (use 1(2) in \<open>simp add: run_setups.simps [of setup_fn i x] Let_def\<close>)
qed

lemma executor_stop_frame: "x_threads (executor_stop sys x) = x_threads x"
proof -
  have "x_threads (fold (stop_core sys) ks x) = x_threads x" for ks
    by (induction ks arbitrary: x) (simp_all add: stop_core_def)
  then show ?thesis by (simp add: executor_stop_def)
qed

lemma executor_run_returns:
  assumes "x_threads x0 = []"
  shows "\<exists>res x. executor_run sys sigaction setup_fn x0 = Some (res, x) \<and> (is_ok res \<or> x_threads x = [])"
proof -
  obtain r w where g: "ignore_sigpipe sigaction (x_world x0) = (r, w)" by fastforce
  obtain r1 x1 where s: "run_setups setup_fn 0 (x0\<lparr>x_world := w\<rparr>) = (r1, x1)" by fastforce
  have "x_threads (executor_stop sys x1) = []" using run_setups_frame [OF s] assms by (simp add: executor_stop_frame)
  then show ?thesis
    using assms g s by (cases r; cases r1) (simp_all add: executor_run_def stop_and_join_def executor_join_def is_ok_def)
qed

lemma exec_inv_start:
  assumes "x_threads x0 = []" "x_metrics x0 = []" "x_faults x0 = []" "x_faults_mu x0" "x_registry x0 = []"
    "executor_run sys sigaction setup_fn x0 = Some (Ok (), x)" "length (x_cores x) = n" "\<forall>c\<in>set (x_cores x). stop_source c \<noteq> None"
  shows "exec_inv n [] x"
proof -
  obtain r w where g: "ignore_sigpipe sigaction (x_world x0) = (r, w)" by fastforce
  obtain r1 x1 where s: "run_setups setup_fn 0 (x0\<lparr>x_world := w\<rparr>) = (r1, x1)" by fastforce
  have "x = x1\<lparr>x_metrics := take (length (x_cores x1)) (x_metrics x1) @ replicate (length (x_cores x1) - length (x_metrics x1)) zero_metrics,
      x_threads := x_threads x1 @ replicate (length (x_cores x1)) Created\<rparr>"
    using assms(6) g s by (cases r; cases r1) (auto simp: executor_run_def split: option.splits)
  then show ?thesis using run_setups_frame [OF s] assms
    by (simp add: exec_inv_def cores_ok_def books_ok_def thread_ok_def zero_metrics_def)
qed

lemma exec_reach_inv:
  assumes "keeps_stop sys" "exec_reach sys sink n log x"
  shows "exec_inv n log x"
  using assms(2)
proof (induction rule: exec_reach.induct)
  case (start x0 sigaction setup_fn x)
  show ?case by (rule exec_inv_start [OF start.hyps(1-8)])
next
  case (work log x i x')
  show ?case by (rule exec_inv_work [OF assms(1) work.IH work.hyps(2,3)])
next
  case (stop log x k)
  show ?case unfolding stop_core_def by (rule exec_inv_on_core [OF stop.IH request_stop_stop(1)])
next
  case (graceful log x k)
  show ?case unfolding graceful_stop_core_def by (rule exec_inv_on_core [OF graceful.IH request_stop_stop(3)])
next
  case (submitted log x k t)
  show ?case by (rule exec_inv_on_core [OF submitted.IH submit_stop])
qed

section \<open>Stopping ends\<close>

lemma executor_stop_asks:
  assumes "cores_ok n x" "k < n"
  shows "stop_asked (executor_stop sys x) k"
proof -
  have "cores_ok n (fold (stop_core sys) [0..<l] x) \<and> (\<forall>j<l. stop_asked (fold (stop_core sys) [0..<l] x) j)" if "l \<le> n" for l
    using that
  proof (induction l)
    case (Suc l)
    then show ?case using stop_core_mono [where x = "fold (stop_core sys) [0..<l] x" and k = l and sys = sys] stop_core_asks [of n "fold (stop_core sys) [0..<l] x" l sys] by (auto simp: less_Suc_eq)
  qed (use assms(1) in simp)
  from this [of n] assms show ?thesis by (simp add: executor_stop_def cores_ok_def)
qed

lemma worker_step_descends:
  assumes k: "keeps_stop sys" and c: "cores_ok n x" and i: "i < n" "i < length (x_threads x)" and asked: "stop_asked x i"
    and w: "worker_step sys sink i x = Some x'"
  shows "stop_asked x' i \<and> rank n (x_threads x' ! i) < rank n (x_threads x ! i)"
  using w
proof (cases rule: worker_step_cases)
  case (phase p)
  have n: "i < length (x_cores x)" using c i by (simp add: cores_ok_def)
  have "stop_asked x' i" unfolding phase(3) using on_core_stop(1) [OF loop_phase_stop [OF k] asked] by simp
  moreover have "rank n (Looping (fst (loop_phase sys p ((x_cores x ! i)\<lparr>world := x_world x\<rparr>)))) < rank n (Looping p)"
    using phase(2) asked by (cases p) (auto simp: stop_asked_def split: prod.split sum.split)
  ultimately show ?thesis using i(2) by (simp add: phase(1,3))
next
  case (stop_all m)
  then show ?thesis using i(2) c on_core_stop(1) [OF request_stop_stop(1) asked]
    by (simp add: stop_core_def cores_ok_def)
qed (use i(2) asked c in \<open>auto simp: stop_asked_def cores_ok_def split: sum.split\<close>)

section \<open>The property\<close>


section \<open>A run\<close>

definition failing_sys :: "(unit, unit) sys" where
  "failing_sys = \<lparr>epoll_create1 = (\<lambda>w. (Inr 3, w)), eventfd = (\<lambda>w. (Inr 4, w)), epoll_ctl = (\<lambda>_ _ _ _ w. (None, w)),
     epoll_wait = (\<lambda>_ _ _ w. (Inl EBADF, w)), close_fd = (\<lambda>_ w. (None, w)), write_eventfd = (\<lambda>_ w. (Inr 8, w)),
     read_eventfd = (\<lambda>_ w. w), clock_now = (\<lambda>w. (0, w)), sys_errno = (\<lambda>_. 0), resume = (\<lambda>_ c. c)\<rparr>"

text \<open>
  One core whose coroutine never finishes, on a kernel whose \<open>epoll_wait\<close> fails: what creating the executor and
  running it with a setup that spawns the coroutine give.
\<close>

definition failing_core :: "(unit, unit) core" where
  "failing_core =
     \<lparr>l_reactor = \<lparr>epoll_fd = 3, fd_slots = [], io_ready = []\<rparr>, l_timer = new_wheel 0, l_signals = None, owned_tasks = [Some 1],
      ready_queue = [Some 1], stop_source = Some 0, graceful_source = Some 1, cross_core_fd = 4, cross_core_queue = [],
      cells = \<lparr>wstate = (\<lambda>_. Pending), results = (\<lambda>_. Ok 0)\<rparr>, frames = [1 \<mapsto> new_frame],
      stops = snd (new_stop_source (snd (new_stop_source no_stop_states))), world = ()\<rparr>"

definition failing_executor :: "core_metrics \<Rightarrow> (unit, unit, unit) executor" where
  "failing_executor m =
     \<lparr>x_cores = [failing_core], x_world = (), x_threads = [Created], x_thread_init = None, x_teardown = None,
      x_metrics = [m], x_registry = [], x_faults_mu = True, x_faults = [], x_policy = FailFast, x_diag = ()\<rparr>"

lemma failing_run:
  "\<exists>x0. executor_create failing_sys () [] 1 () = (Ok x0, ()) \<and> x_threads x0 = [] \<and> x_metrics x0 = [] \<and> x_faults x0 = [] \<and>
     x_faults_mu x0 \<and> x_registry x0 = [] \<and>
     executor_run failing_sys (\<lambda>w. (None, w)) (\<lambda>c i. (Ok (), spawn (Some 1) (c\<lparr>frames := [1 \<mapsto> new_frame]\<rparr>))) x0 =
       Some (Ok (), failing_executor zero_metrics)"
proof -
  define x0 :: "(unit, unit, unit) executor" where "x0 = new_executor () [] [failing_core\<lparr>owned_tasks := [], ready_queue := [], frames := Map.empty\<rparr>] ()"
  have "executor_create failing_sys () [] 1 () = (Ok x0, ())"
    by (simp add: executor_create_def failing_sys_def event_loop_create_def reactor_create_def reactor_add_def x0_def failing_core_def
        core_of_def event_loop.defs new_stop_source_def no_stop_states_def)
  moreover have "executor_run failing_sys (\<lambda>w. (None, w)) (\<lambda>c i. (Ok (), spawn (Some 1) (c\<lparr>frames := [1 \<mapsto> new_frame]\<rparr>))) x0 =
       Some (Ok (), failing_executor zero_metrics)"
    by (simp add: executor_run_def ignore_sigpipe_def x0_def new_executor_def run_setups.simps spawn_def enqueue_def failing_executor_def
        failing_core_def)
  ultimately show ?thesis by (intro exI [of _ x0]) (simp add: x0_def new_executor_def)
qed

lemma failing_keeps: "keeps_stop failing_sys"
  by (simp add: keeps_stop_def failing_sys_def stop_mono_refl)


end
