(* ===== verification/Runtime.thy ===== *)
theory Runtime
  imports Executor Bridge
begin

text \<open>
  The runtime, \<^verbatim>\<open>src/runtime/runtime.hpp\<close>: an executor and an optional pool for blocking work, the
  builder, \<open>block_on\<close> and the global functions. The thread-local \<open>g_thread_pool\<close> lives in the world: \<open>set_pool\<close>
  stores the pool or null for the thread that runs. So does the optional on the stack of \<open>block_on\<close>, which
  \<open>get\<close> reads and \<open>put\<close> stores.
\<close>

section \<open>The builder\<close>

record builder =
  bl_workers :: nat
  bl_blockers :: nat
  bl_queue_cap :: nat
  bl_enable_blocking :: bool

text \<open>\<open>hw\<close> is what \<open>std::thread::hardware_concurrency\<close> answers.\<close>

definition new_builder :: "nat \<Rightarrow> builder" where
  "new_builder hw =
     \<lparr>bl_workers = default_core_count hw, bl_blockers = default_core_count hw, bl_queue_cap = kDefaultTaskQueueCapacity,
      bl_enable_blocking = True\<rparr>"

definition worker_threads :: "nat \<Rightarrow> builder \<Rightarrow> builder" where
  "worker_threads n b = b\<lparr>bl_workers := n\<rparr>"

definition blocking_threads :: "nat \<Rightarrow> builder \<Rightarrow> builder" where
  "blocking_threads n b = b\<lparr>bl_blockers := n\<rparr>"

definition blocking_queue_capacity :: "nat \<Rightarrow> builder \<Rightarrow> builder" where
  "blocking_queue_capacity n b = b\<lparr>bl_queue_cap := n\<rparr>"

definition enable_blocking :: "bool \<Rightarrow> builder \<Rightarrow> builder" where
  "enable_blocking on b = b\<lparr>bl_enable_blocking := on\<rparr>"

section \<open>The runtime\<close>

record ('j, 's, 'v, 'w) runtime =
  rt_executor :: "('s, 'v, 'w) executor"
  rt_pool :: "'j pool option"

definition build ::
  "('v, 'w) sys \<Rightarrow> 's \<Rightarrow> metrics_registry \<Rightarrow> builder \<Rightarrow> 'w \<Rightarrow> ('j, 's, 'v, 'w) runtime result \<times> 'w" where
  "build sys diag reg b w =
     (case executor_create sys diag reg (bl_workers b) w of
        (Inl e, w1) \<Rightarrow> (Err e, w1)
      | (Inr x, w1) \<Rightarrow>
          (Ok \<lparr>rt_executor = x,
               rt_pool = (if bl_enable_blocking b then Some (new_pool (bl_blockers b) (bl_queue_cap b)) else None)\<rparr>, w1))"

definition has_thread_pool :: "('j, 's, 'v, 'w) runtime \<Rightarrow> bool" where
  "has_thread_pool rt = (rt_pool rt \<noteq> None)"

definition runtime_core_count :: "('j, 's, 'v, 'w) runtime \<Rightarrow> nat" where
  "runtime_core_count rt = core_count (rt_executor rt)"

definition runtime_run ::
  "('v, 'w) sys \<Rightarrow> (bool \<Rightarrow> 'w \<Rightarrow> 'w) \<Rightarrow> ('w \<Rightarrow> int option \<times> 'w) \<Rightarrow> (('v, 'w) core \<Rightarrow> nat \<Rightarrow> unit result \<times> ('v, 'w) core)
     \<Rightarrow> ('j, 's, 'v, 'w) runtime \<Rightarrow> (unit result \<times> ('j, 's, 'v, 'w) runtime) option" where
  "runtime_run sys set_pool sigaction setup_fn rt =
     map_option (\<lambda>(res, x). (res, rt\<lparr>rt_executor := x\<rparr>))
       (executor_run sys sigaction setup_fn (on_thread_init (\<lambda>_. set_pool (has_thread_pool rt)) (rt_executor rt)))"

definition runtime_stop :: "('v, 'w) sys \<Rightarrow> ('j, 's, 'v, 'w) runtime \<Rightarrow> ('j, 's, 'v, 'w) runtime" where
  "runtime_stop sys rt = rt\<lparr>rt_executor := executor_stop sys (rt_executor rt)\<rparr>"

definition runtime_request_graceful_stop :: "('v, 'w) sys \<Rightarrow> ('j, 's, 'v, 'w) runtime \<Rightarrow> ('j, 's, 'v, 'w) runtime" where
  "runtime_request_graceful_stop sys rt = rt\<lparr>rt_executor := executor_request_graceful_stop sys (rt_executor rt)\<rparr>"

definition runtime_graceful_stop ::
  "('v, 'w) sys \<Rightarrow> duration \<Rightarrow> ('j, 's, 'v, 'w) runtime \<Rightarrow> time_point \<times> ('j, 's, 'v, 'w) runtime" where
  "runtime_graceful_stop sys deadline rt =
     (let (t, x) = graceful_stop_begin sys deadline (rt_executor rt) in (t, rt\<lparr>rt_executor := x\<rparr>))"

definition runtime_join :: "('j, 's, 'v, 'w) runtime \<Rightarrow> (unit result \<times> ('j, 's, 'v, 'w) runtime) option" where
  "runtime_join rt = map_option (\<lambda>(res, x). (res, rt\<lparr>rt_executor := x\<rparr>)) (executor_join (rt_executor rt))"

definition runtime_stop_and_join :: "('v, 'w) sys \<Rightarrow> ('j, 's, 'v, 'w) runtime \<Rightarrow> ('j, 's, 'v, 'w) runtime option" where
  "runtime_stop_and_join sys rt = map_option snd (runtime_join (runtime_stop sys rt))"

text \<open>
  The destructor destroys the members in reverse order: first the pool, which is shut down and joined, then the
  executor, which stops its loops and joins. \<open>None\<close>: it is still waiting.
\<close>

definition runtime_destroy_pool :: "('j, 's, 'v, 'w) runtime \<Rightarrow> ('j, 's, 'v, 'w) runtime" where
  "runtime_destroy_pool rt = rt\<lparr>rt_pool := map_option pool_shutdown (rt_pool rt)\<rparr>"

definition runtime_destroy_executor :: "('v, 'w) sys \<Rightarrow> ('j, 's, 'v, 'w) runtime \<Rightarrow> ('j, 's, 'v, 'w) runtime option" where
  "runtime_destroy_executor sys rt =
     (if \<exists>p. rt_pool rt = Some p \<and> p_phase p \<noteq> Joined then None
      else map_option (\<lambda>x. \<lparr>rt_executor = x, rt_pool = None\<rparr>) (stop_and_join sys (rt_executor rt)))"

section \<open>block\_on\<close>

text \<open>
  The coroutine \<open>capture_into\<close>, in frame \<open>k\<close>, awaits the task in frame \<open>h\<close> through its join handle. Resumed before
  the task is done it becomes the task's continuation; once it is done, it stores the result and ends.
\<close>

definition capture_into ::
  "('v result option \<Rightarrow> 'w \<Rightarrow> 'w) \<Rightarrow> 'v \<Rightarrow> coro \<Rightarrow> coro \<Rightarrow> ('v, 'w) core \<Rightarrow> ('v, 'w) core" where
  "capture_into put unit_value h k c =
     (if join_done (Some h) (frames c)
      then c\<lparr>frames := snd (final_await_suspend k (return_value unit_value k (frames c))),
             world := put (join_await_resume (Some h) (frames c)) (world c)\<rparr>
      else c\<lparr>frames := snd (join_await_suspend (Some h) k (frames c))\<rparr>)"

text \<open>
  Resuming a coroutine of the loop. When the task ends while \<open>capture_into\<close> is its continuation, the final
  suspension of the task transfers to it.
\<close>

definition capture_resume ::
  "('v, 'w) sys \<Rightarrow> ('v result option \<Rightarrow> 'w \<Rightarrow> 'w) \<Rightarrow> 'v \<Rightarrow> coro \<Rightarrow> coro \<Rightarrow> coro \<Rightarrow> ('v, 'w) core \<Rightarrow> ('v, 'w) core" where
  "capture_resume sys put unit_value h k x c =
     (if x = k then capture_into put unit_value h k c
      else let c1 = resume sys x c
           in if \<not> h_done (frames c) h \<and> h_done (frames c1) h \<and> fst (final_await_suspend h (frames c1)) = Some k
              then capture_into put unit_value h k c1 else c1)"

definition block_on_sys ::
  "('v, 'w) sys \<Rightarrow> ('v result option \<Rightarrow> 'w \<Rightarrow> 'w) \<Rightarrow> 'v \<Rightarrow> coro \<Rightarrow> coro \<Rightarrow> ('v, 'w) sys" where
  "block_on_sys sys put unit_value h k = sys\<lparr>resume := capture_resume sys put unit_value h k\<rparr>"

definition block_on_core ::
  "('v result option \<Rightarrow> 'w \<Rightarrow> 'w) \<Rightarrow> (bool \<Rightarrow> 'w \<Rightarrow> 'w) \<Rightarrow> bool \<Rightarrow> coro \<Rightarrow> coro \<Rightarrow> 'v frames \<Rightarrow> event_loop
     \<Rightarrow> cancel_cb stop_states \<Rightarrow> 'w \<Rightarrow> ('v, 'w) core" where
  "block_on_core put set_pool pool h k fs l st w =
     (let c = (core_of l st (set_pool pool (put None w)))\<lparr>frames := fs\<rparr>
      in spawn (Some k) (snd (spawn_with_handle (Some h) c)))"

text \<open>What \<open>block_on\<close> makes of the captured result, for a task that returns a \<open>Result\<close> and for another (\<open>None\<close>: it aborts).\<close>

definition block_on_value :: "'u result result option \<Rightarrow> 'u result" where
  "block_on_value slot = (case slot of None \<Rightarrow> Err make_cancelled_error | Some (Inl e) \<Rightarrow> Err e | Some (Inr r) \<Rightarrow> r)"

definition block_on_plain :: "'u result option \<Rightarrow> 'u option" where
  "block_on_plain slot = (case slot of Some (Inr v) \<Rightarrow> Some v | _ \<Rightarrow> None)"

definition block_on_failed_event :: "system_error \<Rightarrow> event" where
  "block_on_failed_event e = \<lparr>ev_code = ''block_on.run_failed'', ev_severity = Error, ev_error = Some e, ev_fields = []\<rparr>"

text \<open>
  The loop runs the coroutines of the program, and \<open>capture_into\<close> in frame \<open>k\<close>. The result is the captured value,
  the counters, what the diagnostics sink has become and the world; \<open>None\<close> when the loop does not return. The
  temporary loop is destroyed at the end.
\<close>

definition block_on ::
  "('u result, 'w) sys \<Rightarrow> ('w \<Rightarrow> 'u result result option) \<Rightarrow> ('u result result option \<Rightarrow> 'w \<Rightarrow> 'w) \<Rightarrow> (bool \<Rightarrow> 'w \<Rightarrow> 'w)
     \<Rightarrow> 's sink \<Rightarrow> 'u result \<Rightarrow> bool \<Rightarrow> coro \<Rightarrow> coro \<Rightarrow> 'u result frames \<Rightarrow> 's \<Rightarrow> 'w
     \<Rightarrow> ('u result \<times> core_metrics option \<times> 's \<times> 'w) option" where
  "block_on sys get put set_pool sink unit_value pool h k fs diag w =
     (case event_loop_create sys no_stop_states w of
        (Inl e, _, w1) \<Rightarrow> Some (Err e, None, diag, w1)
      | (Inr l, st, w1) \<Rightarrow>
          (case run (block_on_sys sys put unit_value h k) (block_on_core put set_pool pool h k fs l st w1) of
             None \<Rightarrow> None
           | Some (res, c1) \<Rightarrow>
               let w2 = set_pool False (world c1);
                   g_metrics = Some zero_metrics
               in (case res of
                     Inl e \<Rightarrow> Some (block_on_value (get w2), Core.count LoopRunErrors 1 g_metrics,
                                      emit sink (block_on_failed_event e) diag, destroy_loop sys c1 w2)
                   | Inr _ \<Rightarrow> Some (block_on_value (get w2), g_metrics, diag, destroy_loop sys c1 w2))))"

section \<open>The global functions\<close>

text \<open>They read the thread-local pointers; \<open>loop\<close> says whether \<open>g_event_loop\<close> is set.\<close>

definition runtime_spawn :: "bool \<Rightarrow> handle \<Rightarrow> ('v, 'w) core \<Rightarrow> ('v, 'w) core" where
  "runtime_spawn loop task c = (if loop then spawn task c else c)"

definition runtime_spawn_with_handle :: "handle \<Rightarrow> ('v, 'w) core \<Rightarrow> handle \<times> ('v, 'w) core" where
  "runtime_spawn_with_handle task c = spawn_with_handle task c"

definition runtime_spawn_blocking ::
  "('v, 'w) bridge_sys \<Rightarrow> nat \<Rightarrow> nat \<Rightarrow> coro \<Rightarrow> ('w \<Rightarrow> ('a option \<times> 'w) option) \<Rightarrow> ('a, 'v, 'w) bridge
     \<Rightarrow> 'a result option \<times> ('a, 'v, 'w) bridge" where
  "runtime_spawn_blocking sys p q h fn b = spawn_blocking_start sys p q h fn b"

definition runtime_spawn_on :: "('v, 'w) sys \<Rightarrow> handle \<Rightarrow> ('v, 'w) core \<Rightarrow> unit result \<times> ('v, 'w) core" where
  "runtime_spawn_on sys task target = submit sys task target"

end
