(* ===== verification/Echo_Server.thy ===== *)
theory Echo_Server
  imports Reactor
begin

text \<open>
  The epoll echo server of \<^verbatim>\<open>rain_tour/examples/coroutines_advanced/echo_server.cpp\<close>: one thread, a
  map from descriptors to the coroutines that wait for them, a coroutine that accepts connections and a
  coroutine for each connection. A suspended coroutine is the point where it suspended, with the local
  variables it needs from there; a running coroutine has none. System calls are parameters on a world
  \<open>'w\<close>; what the program prints is left out. \<open>EWOULDBLOCK\<close> is \<open>EAGAIN\<close>.
\<close>

section \<open>State\<close>

definition kPort :: u16 where "kPort = 9200"
definition kBacklog :: int where "kBacklog = 128"
definition kMaxEvents :: nat where "kMaxEvents = 64"
definition kBufSize :: nat where "kBufSize = 4096"

text \<open>An error is the call that failed and the \<open>errno\<close> whose text follows.\<close>

type_synonym 'a echo_result = "(string \<times> int) + 'a"

datatype co_point =
    AcceptWait (point_fd: int)
  | ReadWait (point_fd: int)
  | WriteWait (point_fd: int) "u8 list" nat

record 'w echo =
  g_epfd :: int
  g_waiters :: "int \<Rightarrow> coro option"
  echo_frames :: "coro \<Rightarrow> co_point option"
  echo_next :: coro
  echo_world :: 'w

record sockaddr_in =
  sin_family :: int
  sin_addr :: u32
  sin_port :: u16

record 'w echo_sys =
  s_epoll_create :: "'w \<Rightarrow> (int + int) \<times> 'w"
  s_ctl :: "'w epoll_ctl"
  s_wait :: "'w epoll_wait"
  s_socket :: "'w \<Rightarrow> (int + int) \<times> 'w"
  s_reuseaddr :: "int \<Rightarrow> 'w \<Rightarrow> 'w"
  s_bind :: "int \<Rightarrow> sockaddr_in \<Rightarrow> 'w \<Rightarrow> int option \<times> 'w"
  s_listen :: "int \<Rightarrow> int \<Rightarrow> 'w \<Rightarrow> int option \<times> 'w"
  s_getfl :: "int \<Rightarrow> 'w \<Rightarrow> int \<times> 'w"
  s_setfl :: "int \<Rightarrow> int \<Rightarrow> 'w \<Rightarrow> 'w"
  s_accept :: "int \<Rightarrow> 'w \<Rightarrow> (int + int) \<times> 'w"
  s_read :: "int \<Rightarrow> nat \<Rightarrow> 'w \<Rightarrow> (int + u8 list) \<times> 'w"
  s_write :: "int \<Rightarrow> u8 list \<Rightarrow> 'w \<Rightarrow> (int + nat) \<times> 'w"
  s_close :: "int \<Rightarrow> 'w \<Rightarrow> int option \<times> 'w"
  s_ignore_sigpipe :: "'w \<Rightarrow> 'w"

section \<open>Pure functions\<close>

definition htons :: "u16 \<Rightarrow> u16" where
  "htons x = push_bit 8 x OR drop_bit 8 x"

definition make_addr :: "u16 \<Rightarrow> sockaddr_in" where
  "make_addr port = \<lparr>sin_family = 2, sin_addr = 0, sin_port = htons port\<rparr>"

record epoll_event =
  ev_events :: u32
  ev_data_fd :: int

definition make_event :: "int \<Rightarrow> u32 \<Rightarrow> epoll_event" where
  "make_event fd events = \<lparr>ev_events = events OR EPOLLONESHOT, ev_data_fd = fd\<rparr>"

definition O_NONBLOCK :: int where "O_NONBLOCK = 2048"

definition set_nonblocking :: "'w echo_sys \<Rightarrow> int \<Rightarrow> 'w \<Rightarrow> 'w" where
  "set_nonblocking sys fd w = (let (fl, w1) = s_getfl sys fd w in s_setfl sys fd (fl OR O_NONBLOCK) w1)"

section \<open>Waiting\<close>

definition io_await_suspend :: "'w echo_sys \<Rightarrow> int \<Rightarrow> u32 \<Rightarrow> coro \<Rightarrow> 'w echo \<Rightarrow> 'w echo" where
  "io_await_suspend sys fd events h s =
     (let s1 = s\<lparr>g_waiters := (g_waiters s)(fd \<mapsto> h)\<rparr>;
          ev = make_event fd events
      in case s_ctl sys (g_epfd s) CtlMod (ev_data_fd ev) (ev_events ev) (echo_world s) of
           (None, w1) \<Rightarrow> s1\<lparr>echo_world := w1\<rparr>
         | (Some _, w1) \<Rightarrow>
             s1\<lparr>echo_world := snd (s_ctl sys (g_epfd s) CtlAdd (ev_data_fd ev) (ev_events ev) w1)\<rparr>)"

definition wait_readable :: "'w echo_sys \<Rightarrow> int \<Rightarrow> coro \<Rightarrow> 'w echo \<Rightarrow> 'w echo" where
  "wait_readable sys fd = io_await_suspend sys fd EPOLLIN"

definition wait_writable :: "'w echo_sys \<Rightarrow> int \<Rightarrow> coro \<Rightarrow> 'w echo \<Rightarrow> 'w echo" where
  "wait_writable sys fd = io_await_suspend sys fd EPOLLOUT"

definition suspend_at :: "coro \<Rightarrow> co_point \<Rightarrow> 'w echo \<Rightarrow> 'w echo" where
  "suspend_at h p s = s\<lparr>echo_frames := (echo_frames s)(h \<mapsto> p)\<rparr>"

section \<open>A connection\<close>

definition await_request :: "'w echo_sys \<Rightarrow> coro \<Rightarrow> int \<Rightarrow> 'w echo \<Rightarrow> 'w echo" where
  "await_request sys h conn s = wait_readable sys conn h (suspend_at h (ReadWait conn) s)"

definition finish_connection :: "'w echo_sys \<Rightarrow> int \<Rightarrow> 'w echo \<Rightarrow> 'w echo" where
  "finish_connection sys conn s =
     (let w1 = snd (s_ctl sys (g_epfd s) CtlDel conn 0 (echo_world s));
          w2 = snd (s_close sys conn w1)
      in s\<lparr>g_waiters := (g_waiters s)(conn := None), echo_world := w2\<rparr>)"

partial_function (option) write_back ::
  "'w echo_sys \<Rightarrow> coro \<Rightarrow> int \<Rightarrow> u8 list \<Rightarrow> nat \<Rightarrow> 'w echo \<Rightarrow> 'w echo option" where
  "write_back sys h conn buf off s =
     (if off < length buf
      then (case s_write sys conn (drop off buf) (echo_world s) of
              (Inl e, w) \<Rightarrow>
                if e = EAGAIN
                then Some (wait_writable sys conn h (suspend_at h (WriteWait conn buf off) (s\<lparr>echo_world := w\<rparr>)))
                else Some (finish_connection sys conn (s\<lparr>echo_world := w\<rparr>))
            | (Inr k, w) \<Rightarrow> write_back sys h conn buf (off + k) (s\<lparr>echo_world := w\<rparr>))
      else Some (await_request sys h conn s))"

definition serve_request :: "'w echo_sys \<Rightarrow> coro \<Rightarrow> int \<Rightarrow> 'w echo \<Rightarrow> 'w echo option" where
  "serve_request sys h conn s =
     (case s_read sys conn kBufSize (echo_world s) of
        (Inl e, w) \<Rightarrow>
          if e = EAGAIN then Some (await_request sys h conn (s\<lparr>echo_world := w\<rparr>))
          else Some (finish_connection sys conn (s\<lparr>echo_world := w\<rparr>))
      | (Inr buf, w) \<Rightarrow>
          if buf = [] then Some (finish_connection sys conn (s\<lparr>echo_world := w\<rparr>))
          else write_back sys h conn buf 0 (s\<lparr>echo_world := w\<rparr>))"

text \<open>The call creates the coroutine, which runs up to its first \<open>co_await\<close>.\<close>

definition handle_connection :: "'w echo_sys \<Rightarrow> int \<Rightarrow> 'w echo \<Rightarrow> 'w echo" where
  "handle_connection sys conn s =
     (let h = echo_next s
      in await_request sys h conn
           (s\<lparr>echo_next := Suc h, echo_world := set_nonblocking sys conn (echo_world s)\<rparr>))"

section \<open>Accepting\<close>

definition await_connection :: "'w echo_sys \<Rightarrow> coro \<Rightarrow> int \<Rightarrow> 'w echo \<Rightarrow> 'w echo" where
  "await_connection sys h listener s = wait_readable sys listener h (suspend_at h (AcceptWait listener) s)"

partial_function (option) accept_conns :: "'w echo_sys \<Rightarrow> coro \<Rightarrow> int \<Rightarrow> 'w echo \<Rightarrow> 'w echo option" where
  "accept_conns sys h listener s =
     (case s_accept sys listener (echo_world s) of
        (Inl e, w) \<Rightarrow>
          if e = EAGAIN then Some (await_connection sys h listener (s\<lparr>echo_world := w\<rparr>))
          else if e = EINTR then accept_conns sys h listener (s\<lparr>echo_world := w\<rparr>)
          else Some (await_connection sys h listener (s\<lparr>echo_world := w\<rparr>))
      | (Inr conn, w) \<Rightarrow> accept_conns sys h listener (handle_connection sys conn (s\<lparr>echo_world := w\<rparr>)))"

definition accept_loop :: "'w echo_sys \<Rightarrow> int \<Rightarrow> 'w echo \<Rightarrow> 'w echo" where
  "accept_loop sys listener s =
     (let h = echo_next s in await_connection sys h listener (s\<lparr>echo_next := Suc h\<rparr>))"

section \<open>The loop\<close>

text \<open>Resuming a coroutine that is not suspended has no defined behaviour: \<open>None\<close>.\<close>

definition echo_resume :: "'w echo_sys \<Rightarrow> coro \<Rightarrow> 'w echo \<Rightarrow> 'w echo option" where
  "echo_resume sys h s =
     (let s1 = s\<lparr>echo_frames := (echo_frames s)(h := None)\<rparr>
      in case echo_frames s h of
           None \<Rightarrow> None
         | Some (AcceptWait listener) \<Rightarrow> accept_conns sys h listener s1
         | Some (ReadWait conn) \<Rightarrow> serve_request sys h conn s1
         | Some (WriteWait conn buf off) \<Rightarrow> write_back sys h conn buf off s1)"

definition run_event :: "'w echo_sys \<Rightarrow> int \<Rightarrow> 'w echo \<Rightarrow> 'w echo option" where
  "run_event sys fd s =
     (case g_waiters s fd of
        None \<Rightarrow> Some s
      | Some h \<Rightarrow> echo_resume sys h (s\<lparr>g_waiters := (g_waiters s)(fd := None)\<rparr>))"

fun run_events :: "'w echo_sys \<Rightarrow> (int \<times> u32) list \<Rightarrow> 'w echo \<Rightarrow> 'w echo option" where
  "run_events sys [] s = Some s"
| "run_events sys ((fd, _) # evs) s =
     (case run_event sys fd s of None \<Rightarrow> None | Some s1 \<Rightarrow> run_events sys evs s1)"

text \<open>One turn of the loop of \<open>run\<close>; \<open>False\<close> when the loop is left.\<close>

definition run_turn :: "'w echo_sys \<Rightarrow> 'w echo \<Rightarrow> (bool \<times> 'w echo) option" where
  "run_turn sys s =
     (case s_wait sys (g_epfd s) kMaxEvents (- 1) (echo_world s) of
        (Inl e, w) \<Rightarrow> Some (e = EINTR, s\<lparr>echo_world := w\<rparr>)
      | (Inr evs, w) \<Rightarrow> map_option (Pair True) (run_events sys evs (s\<lparr>echo_world := w\<rparr>)))"

partial_function (option) echo_run :: "'w echo_sys \<Rightarrow> 'w echo \<Rightarrow> 'w echo option" where
  "echo_run sys s =
     (case run_turn sys s of
        None \<Rightarrow> None
      | Some (again, s1) \<Rightarrow> if again then echo_run sys s1 else Some s1)"

section \<open>The program\<close>

definition make_epoll :: "'w echo_sys \<Rightarrow> 'w \<Rightarrow> int echo_result \<times> 'w" where
  "make_epoll sys w =
     (case s_epoll_create sys w of
        (Inl e, w1) \<Rightarrow> (Inl (''epoll_create1: '', e), w1)
      | (Inr fd, w1) \<Rightarrow> (Inr fd, w1))"

text \<open>The text of the error is made after \<open>close\<close>, which sets \<open>errno\<close> anew if it fails.\<close>

definition close_then_error :: "'w echo_sys \<Rightarrow> string \<Rightarrow> int \<Rightarrow> int \<Rightarrow> 'w \<Rightarrow> int echo_result \<times> 'w" where
  "close_then_error sys what fd e w =
     (case s_close sys fd w of (None, w1) \<Rightarrow> (Inl (what, e), w1) | (Some e', w1) \<Rightarrow> (Inl (what, e'), w1))"

definition make_listener :: "'w echo_sys \<Rightarrow> u16 \<Rightarrow> 'w \<Rightarrow> int echo_result \<times> 'w" where
  "make_listener sys port w =
     (case s_socket sys w of
        (Inl e, w1) \<Rightarrow> (Inl (''socket: '', e), w1)
      | (Inr fd, w1) \<Rightarrow>
          (case s_bind sys fd (make_addr port) (s_reuseaddr sys fd w1) of
             (Some e, w2) \<Rightarrow> close_then_error sys ''bind: '' fd e w2
           | (None, w2) \<Rightarrow>
               (case s_listen sys fd kBacklog w2 of
                  (Some e, w3) \<Rightarrow> close_then_error sys ''listen: '' fd e w3
                | (None, w3) \<Rightarrow> (Inr fd, set_nonblocking sys fd w3))))"

text \<open>\<open>main\<close> up to the call of \<open>run\<close>, and the whole of it with the value it returns.\<close>

definition echo_start :: "'w echo_sys \<Rightarrow> 'w \<Rightarrow> (int \<times> 'w echo) echo_result \<times> 'w" where
  "echo_start sys w =
     (case make_epoll sys (s_ignore_sigpipe sys w) of
        (Inl e, w1) \<Rightarrow> (Inl e, w1)
      | (Inr ep, w1) \<Rightarrow>
          (case make_listener sys kPort w1 of
             (Inl e, w2) \<Rightarrow> (Inl e, w2)
           | (Inr listener, w2) \<Rightarrow>
               let s = accept_loop sys listener
                         \<lparr>g_epfd = ep, g_waiters = Map.empty, echo_frames = Map.empty, echo_next = 0, echo_world = w2\<rparr>
               in (Inr (listener, s), echo_world s)))"

definition echo_main :: "'w echo_sys \<Rightarrow> 'w \<Rightarrow> (int \<times> 'w) option" where
  "echo_main sys w =
     (case echo_start sys w of
        (Inl _, w1) \<Rightarrow> Some (1, w1)
      | (Inr (listener, s), _) \<Rightarrow>
          (case echo_run sys s of
             None \<Rightarrow> None
           | Some s1 \<Rightarrow> Some (0, snd (s_close sys (g_epfd s1) (snd (s_close sys listener (echo_world s1)))))))"

end
