(* ===== verification/Echo_Invariant.thy ===== *)
theory Echo_Invariant
  imports Echo_Server
begin

text \<open>
  The echo server echoes. The kernel is seen through \<open>echo_view\<close>: the open descriptors, what each epoll
  instance has armed, and for each connection the bytes the program has read from it and those it has
  written to it. \<open>echo_laws\<close> is the documented behaviour of the system calls on that view; that a
  descriptor can always be added to the epoll instance is part of it, since the server ignores the error.
\<close>

section \<open>The kernel\<close>

record 'w echo_view =
  v_open :: "'w \<Rightarrow> int set"
  v_armed :: "'w \<Rightarrow> int \<Rightarrow> int \<Rightarrow> u32 option"
  v_got :: "'w \<Rightarrow> int \<Rightarrow> u8 list"
  v_put :: "'w \<Rightarrow> int \<Rightarrow> u8 list"

definition same_data :: "'w echo_view \<Rightarrow> 'w \<Rightarrow> 'w \<Rightarrow> bool" where
  "same_data v w w' \<longleftrightarrow> v_open v w' = v_open v w \<and> v_got v w' = v_got v w \<and> v_put v w' = v_put v w"

definition unseen :: "'w echo_view \<Rightarrow> 'w \<Rightarrow> 'w \<Rightarrow> bool" where
  "unseen v w w' \<longleftrightarrow> same_data v w w' \<and> v_armed v w' = v_armed v w"

definition ctl_laws :: "'w echo_sys \<Rightarrow> 'w echo_view \<Rightarrow> bool" where
  "ctl_laws sys v \<longleftrightarrow>
     (\<forall>ep fd m w r w'. s_ctl sys ep CtlMod fd m w = (r, w') \<longrightarrow>
        (if v_armed v w ep fd = None then r \<noteq> None \<and> unseen v w w'
         else r = None \<and> same_data v w w' \<and> v_armed v w' = (v_armed v w)(ep := (v_armed v w ep)(fd \<mapsto> m)))) \<and>
     (\<forall>ep fd m w r w'. s_ctl sys ep CtlAdd fd m w = (r, w') \<longrightarrow> v_armed v w ep fd = None \<longrightarrow>
        same_data v w w' \<and> v_armed v w' = (v_armed v w)(ep := (v_armed v w ep)(fd \<mapsto> m))) \<and>
     (\<forall>ep fd m w r w'. s_ctl sys ep CtlDel fd m w = (r, w') \<longrightarrow>
        same_data v w w' \<and> (\<forall>fd'. fd' \<noteq> fd \<longrightarrow> v_armed v w' ep fd' = v_armed v w ep fd'))"

definition wait_laws :: "'w echo_sys \<Rightarrow> 'w echo_view \<Rightarrow> bool" where
  "wait_laws sys v \<longleftrightarrow>
     (\<forall>ep n t w e w'. s_wait sys ep n t w = (Inl e, w') \<longrightarrow> unseen v w w') \<and>
     (\<forall>ep n t w evs w'. s_wait sys ep n t w = (Inr evs, w') \<longrightarrow>
        same_data v w w' \<and> (\<forall>fd. fd \<notin> fst ` set evs \<longrightarrow> v_armed v w' ep fd = v_armed v w ep fd))"

definition socket_laws :: "'w echo_sys \<Rightarrow> 'w echo_view \<Rightarrow> bool" where
  "socket_laws sys v \<longleftrightarrow>
     (\<forall>w fd w'. s_epoll_create sys w = (Inr fd, w') \<longrightarrow>
        fd \<notin> v_open v w \<and> v_open v w' = insert fd (v_open v w)) \<and>
     (\<forall>w fd w'. s_socket sys w = (Inr fd, w') \<longrightarrow> fd \<notin> v_open v w \<and> v_open v w' = insert fd (v_open v w)) \<and>
     (\<forall>fd w. unseen v w (s_reuseaddr sys fd w)) \<and> (\<forall>fd a w. unseen v w (snd (s_bind sys fd a w))) \<and>
     (\<forall>fd b w. unseen v w (snd (s_listen sys fd b w))) \<and> (\<forall>fd w. unseen v w (snd (s_getfl sys fd w))) \<and>
     (\<forall>fd fl w. unseen v w (s_setfl sys fd fl w)) \<and> (\<forall>w. unseen v w (s_ignore_sigpipe sys w)) \<and>
     (\<forall>l w e w'. s_accept sys l w = (Inl e, w') \<longrightarrow> unseen v w w') \<and>
     (\<forall>l w c w'. s_accept sys l w = (Inr c, w') \<longrightarrow>
        c \<notin> v_open v w \<and> v_open v w' = insert c (v_open v w) \<and> v_armed v w' = v_armed v w \<and>
        v_got v w' = (v_got v w)(c := []) \<and> v_put v w' = (v_put v w)(c := []))"

definition read_laws :: "'w echo_sys \<Rightarrow> 'w echo_view \<Rightarrow> bool" where
  "read_laws sys v \<longleftrightarrow>
     (\<forall>fd n w e w'. s_read sys fd n w = (Inl e, w') \<longrightarrow> unseen v w w') \<and>
     (\<forall>fd n w bs w'. s_read sys fd n w = (Inr bs, w') \<longrightarrow>
        v_open v w' = v_open v w \<and> v_armed v w' = v_armed v w \<and> v_put v w' = v_put v w \<and>
        v_got v w' = (v_got v w)(fd := v_got v w fd @ bs))"

definition write_laws :: "'w echo_sys \<Rightarrow> 'w echo_view \<Rightarrow> bool" where
  "write_laws sys v \<longleftrightarrow>
     (\<forall>fd buf w e w'. s_write sys fd buf w = (Inl e, w') \<longrightarrow> unseen v w w') \<and>
     (\<forall>fd buf w k w'. s_write sys fd buf w = (Inr k, w') \<longrightarrow>
        k \<le> length buf \<and> v_open v w' = v_open v w \<and> v_armed v w' = v_armed v w \<and> v_got v w' = v_got v w \<and>
        v_put v w' = (v_put v w)(fd := v_put v w fd @ take k buf))"

definition close_laws :: "'w echo_sys \<Rightarrow> 'w echo_view \<Rightarrow> bool" where
  "close_laws sys v \<longleftrightarrow>
     (\<forall>fd w r w'. s_close sys fd w = (r, w') \<longrightarrow>
        v_open v w' = v_open v w - {fd} \<and>
        (\<forall>ep fd'. fd' \<noteq> fd \<longrightarrow> v_armed v w' ep fd' = v_armed v w ep fd' \<and>
           v_got v w' fd' = v_got v w fd' \<and> v_put v w' fd' = v_put v w fd'))"

definition echo_laws :: "'w echo_sys \<Rightarrow> 'w echo_view \<Rightarrow> bool" where
  "echo_laws sys v \<longleftrightarrow> ctl_laws sys v \<and> wait_laws sys v \<and> socket_laws sys v \<and>
     read_laws sys v \<and> write_laws sys v \<and> close_laws sys v"

section \<open>The invariant\<close>

text \<open>What a suspended coroutine waits for, and what it owes its client.\<close>

fun point_events :: "co_point \<Rightarrow> u32" where
  "point_events (AcceptWait _) = EPOLLIN"
| "point_events (ReadWait _) = EPOLLIN"
| "point_events (WriteWait _ _ _) = EPOLLOUT"

fun owes :: "int \<Rightarrow> ('w echo_view) \<Rightarrow> 'w \<Rightarrow> co_point \<Rightarrow> bool" where
  "owes l v w (AcceptWait fd) \<longleftrightarrow> fd = l"
| "owes l v w (ReadWait c) \<longleftrightarrow> c \<noteq> l \<and> v_got v w c = v_put v w c"
| "owes l v w (WriteWait c buf off) \<longleftrightarrow>
     c \<noteq> l \<and> off < length buf \<and> v_got v w c = v_put v w c @ drop off buf"

text \<open>
  \<open>held\<close> are the descriptors of running coroutines; \<open>rest\<close> those whose event has been reported but not
  handled, which the kernel has disarmed; \<open>base\<close> those that are not the server's connections.
\<close>

definition waiters_ok :: "'w echo \<Rightarrow> bool" where
  "waiters_ok s \<longleftrightarrow>
     (\<forall>fd h. g_waiters s fd = Some h \<longleftrightarrow> (\<exists>p. echo_frames s h = Some p \<and> point_fd p = fd)) \<and>
     (\<forall>h. echo_frames s h \<noteq> None \<longrightarrow> h < echo_next s)"

definition points_ok :: "'w echo_view \<Rightarrow> int \<Rightarrow> int set \<Rightarrow> 'w echo \<Rightarrow> bool" where
  "points_ok v l rest s \<longleftrightarrow>
     (\<forall>h p. echo_frames s h = Some p \<longrightarrow>
        owes l v (echo_world s) p \<and>
        (point_fd p \<notin> rest \<longrightarrow>
           v_armed v (echo_world s) (g_epfd s) (point_fd p) = Some (point_events p OR EPOLLONESHOT)))"

definition open_ok :: "'w echo_view \<Rightarrow> int set \<Rightarrow> int \<Rightarrow> int set \<Rightarrow> 'w echo \<Rightarrow> bool" where
  "open_ok v base l held s \<longleftrightarrow>
     v_open v (echo_world s) = base \<union> dom (g_waiters s) \<union> held \<and>
     base \<inter> (dom (g_waiters s) \<union> held) = {} \<and> held \<inter> dom (g_waiters s) = {} \<and> l \<in> dom (g_waiters s) \<union> held"

definition echo_inv :: "'w echo_view \<Rightarrow> int set \<Rightarrow> int \<Rightarrow> int set \<Rightarrow> int set \<Rightarrow> 'w echo \<Rightarrow> bool" where
  "echo_inv v base l held rest s \<longleftrightarrow> waiters_ok s \<and> points_ok v l rest s \<and> open_ok v base l held s"

lemma owes_cong:
  "v_got v w' (point_fd p) = v_got v w (point_fd p) \<Longrightarrow> v_put v w' (point_fd p) = v_put v w (point_fd p) \<Longrightarrow>
     owes l v w' p = owes l v w p"
  by (cases p) auto

lemma echo_inv_unseen:
  "echo_inv v base l held rest s \<Longrightarrow> unseen v (echo_world s) w \<Longrightarrow> echo_inv v base l held rest (s\<lparr>echo_world := w\<rparr>)"
  by (auto simp: echo_inv_def waiters_ok_def points_ok_def open_ok_def unseen_def same_data_def
      owes_cong [where w' = w and w = "echo_world s"])

lemma echo_inv_mono:
  "echo_inv v base l held rest s \<Longrightarrow> rest \<subseteq> rest' \<Longrightarrow> echo_inv v base l held rest' s"
  by (auto simp: echo_inv_def points_ok_def)

lemma echo_inv_unseen_fd:
  assumes "echo_inv v base l held rest s" "fd \<notin> dom (g_waiters s)"
  shows "echo_inv v base l held (rest - {fd}) s"
proof -
  have "\<not> (\<exists>h p. echo_frames s h = Some p \<and> point_fd p = fd)"
    using assms by (auto simp: echo_inv_def waiters_ok_def)
  then show ?thesis
    using assms(1) by (auto simp: echo_inv_def points_ok_def)
qed

lemma frame_fd:
  "echo_inv v base l held rest s \<Longrightarrow> echo_frames s h = Some p \<Longrightarrow> g_waiters s (point_fd p) = Some h"
  by (auto simp: echo_inv_def waiters_ok_def)


section \<open>Suspending and closing\<close>

lemma arm_effect:
  assumes "ctl_laws sys v"
  shows "same_data v (echo_world s) (echo_world (io_await_suspend sys fd ev h s)) \<and>
    v_armed v (echo_world (io_await_suspend sys fd ev h s)) (g_epfd s) =
      (v_armed v (echo_world s) (g_epfd s))(fd \<mapsto> ev OR EPOLLONESHOT)"
proof -
  let ?m = "ev OR EPOLLONESHOT" and ?ep = "g_epfd s" and ?w = "echo_world s"
  obtain r w1 where mod: "s_ctl sys ?ep CtlMod fd ?m ?w = (r, w1)" by fastforce
  obtain r2 w2 where add: "s_ctl sys ?ep CtlAdd fd ?m w1 = (r2, w2)" by fastforce
  have m: "if v_armed v ?w ?ep fd = None then r \<noteq> None \<and> unseen v ?w w1
    else r = None \<and> same_data v ?w w1 \<and> v_armed v w1 = (v_armed v ?w)(?ep := (v_armed v ?w ?ep)(fd \<mapsto> ?m))"
    using assms mod unfolding ctl_laws_def by blast
  have a: "v_armed v w1 ?ep fd = None \<longrightarrow>
    same_data v w1 w2 \<and> v_armed v w2 = (v_armed v w1)(?ep := (v_armed v w1 ?ep)(fd \<mapsto> ?m))"
    using assms add unfolding ctl_laws_def by blast
  show ?thesis
    using m a mod add
    by (cases r) (auto simp: io_await_suspend_def make_event_def Let_def unseen_def same_data_def split: if_splits)
qed

lemma io_await_suspend_frame [simp]:
  "g_waiters (io_await_suspend sys fd ev h s) = (g_waiters s)(fd \<mapsto> h)"
  "echo_frames (io_await_suspend sys fd ev h s) = echo_frames s"
  "echo_next (io_await_suspend sys fd ev h s) = echo_next s"
  "g_epfd (io_await_suspend sys fd ev h s) = g_epfd s"
  by (simp_all add: io_await_suspend_def Let_def split: prod.split option.split)

text \<open>A running coroutine: its handle has been given out and is nobody's waiter.\<close>

definition running :: "coro \<Rightarrow> 'w echo \<Rightarrow> bool" where
  "running h s \<longleftrightarrow> echo_frames s h = None \<and> h < echo_next s"

lemma suspend_inv:
  assumes laws: "echo_laws sys v"
    and inv: "echo_inv v base l (insert (point_fd p) held) rest s" "point_fd p \<notin> held"
    and h: "running h s" and owes: "owes l v (echo_world s) p"
  shows "echo_inv v base l held (rest - {point_fd p})
    (io_await_suspend sys (point_fd p) (point_events p) h (suspend_at h p s))"
    (is "echo_inv _ _ _ _ _ ?s'")
proof -
  let ?fd = "point_fd p"
  have ctl: "ctl_laws sys v" using laws by (simp add: echo_laws_def)
  have eff: "same_data v (echo_world s) (echo_world ?s')"
    "v_armed v (echo_world ?s') (g_epfd s) =
       (v_armed v (echo_world s) (g_epfd s))(?fd \<mapsto> point_events p OR EPOLLONESHOT)"
    using arm_effect [OF ctl, of "suspend_at h p s" ?fd "point_events p" h] by (simp_all add: suspend_at_def)
  have free: "?fd \<notin> dom (g_waiters s)"
    using inv(1) by (auto simp: echo_inv_def open_ok_def)
  have others: "point_fd p' \<noteq> ?fd" if "echo_frames s h' = Some p'" for h' p'
    using frame_fd [OF inv(1) that] free by auto
  have "waiters_ok ?s'"
    using inv(1) h others by (auto simp: echo_inv_def waiters_ok_def suspend_at_def running_def)
  moreover have "points_ok v l (rest - {?fd}) ?s'"
    using inv(1) owes eff others
    by (auto simp: echo_inv_def points_ok_def suspend_at_def same_data_def
        owes_cong [where w' = "echo_world ?s'" and w = "echo_world s", unfolded suspend_at_def])
  moreover have "open_ok v base l held ?s'"
    using inv eff(1) by (auto simp: echo_inv_def open_ok_def suspend_at_def same_data_def)
  ultimately show ?thesis by (simp add: echo_inv_def)
qed

lemma await_request_inv:
  assumes "echo_laws sys v" "echo_inv v base l (insert conn held) rest s" "conn \<notin> held" "running h s"
    and "conn \<noteq> l" "v_got v (echo_world s) conn = v_put v (echo_world s) conn"
  shows "echo_inv v base l held (rest - {conn}) (await_request sys h conn s)"
  using suspend_inv [where p = "ReadWait conn", of sys v base l held rest s h] assms
  by (simp add: await_request_def wait_readable_def)

lemma await_connection_inv:
  assumes "echo_laws sys v" "echo_inv v base l {l} rest s" "running h s"
  shows "echo_inv v base l {} (rest - {l}) (await_connection sys h l s)"
  using suspend_inv [where p = "AcceptWait l", of sys v base l "{}" rest s h] assms
  by (simp add: await_connection_def wait_readable_def)

lemma await_drain_inv:
  assumes "echo_laws sys v" "echo_inv v base l {conn} rest s" "running h s" "conn \<noteq> l" "off < length buf"
    and "v_got v (echo_world s) conn = v_put v (echo_world s) conn @ drop off buf"
  shows "echo_inv v base l {} (rest - {conn}) (wait_writable sys conn h (suspend_at h (WriteWait conn buf off) s))"
  using suspend_inv [where p = "WriteWait conn buf off", of sys v base l "{}" rest s h] assms
  by (simp add: wait_writable_def)

lemma finish_connection_inv:
  assumes laws: "echo_laws sys v" and inv: "echo_inv v base l {conn} rest s" and conn: "conn \<noteq> l"
  shows "echo_inv v base l {} (rest - {conn}) (finish_connection sys conn s)"
proof -
  let ?w = "echo_world s" and ?ep = "g_epfd s"
  obtain r1 w1 where del: "s_ctl sys ?ep CtlDel conn 0 ?w = (r1, w1)" by fastforce
  obtain r2 w2 where cls: "s_close sys conn w1 = (r2, w2)" by fastforce
  have d: "same_data v ?w w1 \<and> (\<forall>fd'. fd' \<noteq> conn \<longrightarrow> v_armed v w1 ?ep fd' = v_armed v ?w ?ep fd')"
    using laws del unfolding echo_laws_def ctl_laws_def by blast
  have c: "v_open v w2 = v_open v w1 - {conn} \<and>
      (\<forall>ep fd'. fd' \<noteq> conn \<longrightarrow> v_armed v w2 ep fd' = v_armed v w1 ep fd' \<and>
        v_got v w2 fd' = v_got v w1 fd' \<and> v_put v w2 fd' = v_put v w1 fd')"
    using laws cls by (simp add: echo_laws_def close_laws_def)
  have free: "conn \<notin> dom (g_waiters s)"
    using inv by (auto simp: echo_inv_def open_ok_def)
  have others: "point_fd p' \<noteq> conn" if "echo_frames s h' = Some p'" for h' p'
    using frame_fd [OF inv that] free by auto
  have new: "finish_connection sys conn s = s\<lparr>echo_world := w2\<rparr>"
    using free del cls by (simp add: finish_connection_def Let_def domIff fun_upd_idem)
  have "owes l v w2 p' = owes l v ?w p'" if "echo_frames s h' = Some p'" for h' p'
    using others [OF that] c d by (intro owes_cong) (auto simp: same_data_def)
  then have "points_ok v l (rest - {conn}) (s\<lparr>echo_world := w2\<rparr>)"
    using inv others c d by (auto simp: echo_inv_def points_ok_def same_data_def)
  moreover have "open_ok v base l {} (s\<lparr>echo_world := w2\<rparr>)"
    using inv c d conn free by (auto simp: echo_inv_def open_ok_def same_data_def)
  moreover have "waiters_ok (s\<lparr>echo_world := w2\<rparr>)"
    using inv by (simp add: echo_inv_def waiters_ok_def)
  ultimately show ?thesis by (simp add: new echo_inv_def)
qed


section \<open>The coroutines\<close>

lemma running_world [simp]: "running h (s\<lparr>echo_world := w\<rparr>) = running h s"
  by (simp add: running_def)

lemma write_step:
  assumes "echo_laws sys v" "echo_inv v base l held rest s" "conn \<notin> dom (g_waiters s)"
    and "s_write sys conn buf (echo_world s) = (Inr k, w)"
  shows "echo_inv v base l held rest (s\<lparr>echo_world := w\<rparr>)"
    and "k \<le> length buf" "v_got v w conn = v_got v (echo_world s) conn"
    "v_put v w conn = v_put v (echo_world s) conn @ take k buf"
proof -
  have eff: "k \<le> length buf \<and> v_open v w = v_open v (echo_world s) \<and> v_armed v w = v_armed v (echo_world s) \<and>
      v_got v w = v_got v (echo_world s) \<and>
      v_put v w = (v_put v (echo_world s))(conn := v_put v (echo_world s) conn @ take k buf)"
    using assms(1,4) by (simp add: echo_laws_def write_laws_def)
  then show "k \<le> length buf" "v_got v w conn = v_got v (echo_world s) conn"
    "v_put v w conn = v_put v (echo_world s) conn @ take k buf" by auto
  have "owes l v w p = owes l v (echo_world s) p" if "echo_frames s h = Some p" for h p
    using frame_fd [OF assms(2) that] assms(3) eff by (intro owes_cong) auto
  then show "echo_inv v base l held rest (s\<lparr>echo_world := w\<rparr>)"
    using assms(2) eff by (auto simp: echo_inv_def waiters_ok_def points_ok_def open_ok_def)
qed

lemma read_step:
  assumes "echo_laws sys v" "echo_inv v base l held rest s" "conn \<notin> dom (g_waiters s)"
    and "s_read sys conn n (echo_world s) = (Inr bs, w)"
  shows "echo_inv v base l held rest (s\<lparr>echo_world := w\<rparr>)"
    and "v_got v w conn = v_got v (echo_world s) conn @ bs" "v_put v w conn = v_put v (echo_world s) conn"
proof -
  have eff: "v_open v w = v_open v (echo_world s) \<and> v_armed v w = v_armed v (echo_world s) \<and>
      v_put v w = v_put v (echo_world s) \<and>
      v_got v w = (v_got v (echo_world s))(conn := v_got v (echo_world s) conn @ bs)"
    using assms(1,4) by (simp add: echo_laws_def read_laws_def)
  then show "v_got v w conn = v_got v (echo_world s) conn @ bs" "v_put v w conn = v_put v (echo_world s) conn"
    by auto
  have "owes l v w p = owes l v (echo_world s) p" if "echo_frames s h = Some p" for h p
    using frame_fd [OF assms(2) that] assms(3) eff by (intro owes_cong) auto
  then show "echo_inv v base l held rest (s\<lparr>echo_world := w\<rparr>)"
    using assms(2) eff by (auto simp: echo_inv_def waiters_ok_def points_ok_def open_ok_def)
qed

lemma held_not_waiting: "echo_inv v base l held rest s \<Longrightarrow> fd \<in> held \<Longrightarrow> fd \<notin> dom (g_waiters s)"
  by (auto simp: echo_inv_def open_ok_def)

lemma failed_calls:
  assumes "echo_laws sys v"
  shows "s_write sys fd buf w = (Inl e, w') \<Longrightarrow> unseen v w w'"
    and "s_read sys fd n w = (Inl e, w') \<Longrightarrow> unseen v w w'"
    and "s_accept sys fd w = (Inl e, w') \<Longrightarrow> unseen v w w'"
    and "unseen v w (set_nonblocking sys fd w)"
proof -
  show "s_write sys fd buf w = (Inl e, w') \<Longrightarrow> unseen v w w'" "s_read sys fd n w = (Inl e, w') \<Longrightarrow> unseen v w w'"
    using assms by (simp_all add: echo_laws_def read_laws_def write_laws_def)
  show "s_accept sys fd w = (Inl e, w') \<Longrightarrow> unseen v w w'"
    using assms unfolding echo_laws_def socket_laws_def by blast
  have get: "unseen v w (snd (s_getfl sys fd w))" and set: "unseen v w1 (s_setfl sys fd fl w1)" for fl w1
    using assms unfolding echo_laws_def socket_laws_def by blast+
  show "unseen v w (set_nonblocking sys fd w)"
    using get set [of "snd (s_getfl sys fd w)" "fst (s_getfl sys fd w) OR O_NONBLOCK"]
    by (simp add: set_nonblocking_def unseen_def same_data_def split_beta)
qed

lemma write_back_inv:
  assumes "write_back sys h conn buf off s = Some s'" and laws: "echo_laws sys v"
    and "echo_inv v base l {conn} rest s" "running h s" "conn \<noteq> l"
    and "v_got v (echo_world s) conn = v_put v (echo_world s) conn @ drop off buf"
  shows "echo_inv v base l {} (rest - {conn}) s'"
  using assms
proof (induct sys h conn buf off s s' rule: write_back.raw_induct [rotated, consumes 1, case_names step])
  case (step wb sys h conn buf off s s')
  note IH = step(1) and body = step(2) and laws = step(3) and inv = step(4) and run = step(5)
    and conn = step(6) and data = step(7)
  show ?case
  proof (cases "off < length buf")
    case False
    then have "s' = await_request sys h conn s" using body by simp
    then show ?thesis
      using await_request_inv [of sys v base l conn "{}" rest s h] inv run conn data laws False by simp
  next
    case True
    obtain r w where wr: "s_write sys conn (drop off buf) (echo_world s) = (r, w)" by fastforce
    show ?thesis
    proof (cases r)
      case (Inl e)
      then have un: "unseen v (echo_world s) w" using failed_calls(1) [OF laws] wr by simp
      have inv': "echo_inv v base l {conn} rest (s\<lparr>echo_world := w\<rparr>)"
        by (rule echo_inv_unseen [OF inv un])
      have same: "v_got v w = v_got v (echo_world s)" "v_put v w = v_put v (echo_world s)"
        using un by (simp_all add: unseen_def same_data_def)
      show ?thesis
        using body True wr Inl finish_connection_inv [OF laws inv' conn]
          await_drain_inv [OF laws inv', of h off buf] run conn data same
        by (auto split: if_splits)
    next
      case (Inr k)
      have free: "conn \<notin> dom (g_waiters s)" by (rule held_not_waiting [OF inv]) simp
      note st = write_step [OF laws inv free wr [unfolded Inr]]
      have rest: "drop off buf = take k (drop off buf) @ drop (off + k) buf"
        by (metis append_take_drop_id drop_drop add.commute)
      have "v_got v w conn = v_put v w conn @ drop (off + k) buf"
        using st data rest by (metis append.assoc)
      then show ?thesis
        using IH [of sys h conn buf "off + k" "s\<lparr>echo_world := w\<rparr>" s'] body laws True wr Inr st(1) run conn
        by simp
    qed
  qed
qed

lemma serve_request_inv:
  assumes laws: "echo_laws sys v" and serve: "serve_request sys h conn s = Some s'"
    and inv: "echo_inv v base l {conn} rest s" and run: "running h s" and conn: "conn \<noteq> l"
    and data: "v_got v (echo_world s) conn = v_put v (echo_world s) conn"
  shows "echo_inv v base l {} (rest - {conn}) s'"
proof -
  obtain r w where rd: "s_read sys conn kBufSize (echo_world s) = (r, w)" by fastforce
  have free: "conn \<notin> dom (g_waiters s)" by (rule held_not_waiting [OF inv]) simp
  show ?thesis
  proof (cases r)
    case (Inl e)
    then have un: "unseen v (echo_world s) w" using failed_calls(2) [OF laws] rd by simp
    have inv': "echo_inv v base l {conn} rest (s\<lparr>echo_world := w\<rparr>)"
      by (rule echo_inv_unseen [OF inv un])
    have "v_got v w conn = v_put v w conn"
      using un data by (simp add: unseen_def same_data_def)
    then show ?thesis
      using serve rd Inl finish_connection_inv [OF laws inv' conn]
        await_request_inv [OF laws inv', of h] run conn
      by (auto simp: serve_request_def split: if_splits)
  next
    case (Inr bs)
    note st = read_step [OF laws inv free rd [unfolded Inr]]
    show ?thesis
      using serve rd Inr finish_connection_inv [OF laws st(1) conn]
        write_back_inv [OF _ laws st(1), of h bs 0 s'] run conn st(2,3) data
      by (auto simp: serve_request_def split: if_splits)
  qed
qed

lemma handle_connection_inv:
  assumes laws: "echo_laws sys v" and inv: "echo_inv v base l {l} rest s"
    and acc: "s_accept sys l (echo_world s) = (Inr conn, w)"
  shows "echo_inv v base l {l} rest (handle_connection sys conn (s\<lparr>echo_world := w\<rparr>))"
proof -
  have eff: "conn \<notin> v_open v (echo_world s) \<and> v_open v w = insert conn (v_open v (echo_world s)) \<and>
      v_armed v w = v_armed v (echo_world s) \<and> v_got v w = (v_got v (echo_world s))(conn := []) \<and>
      v_put v w = (v_put v (echo_world s))(conn := [])"
    using laws acc unfolding echo_laws_def socket_laws_def by blast
  have fresh: "conn \<noteq> l" "conn \<notin> dom (g_waiters s)"
    using eff inv by (auto simp: echo_inv_def open_ok_def)
  have "owes l v w p = owes l v (echo_world s) p" if "echo_frames s h = Some p" for h p
    using frame_fd [OF inv that] fresh eff by (intro owes_cong) auto
  then have "echo_inv v base l (insert conn {l}) rest (s\<lparr>echo_world := w\<rparr>)"
    using inv eff by (auto simp: echo_inv_def waiters_ok_def points_ok_def open_ok_def)
  moreover have un: "unseen v w (set_nonblocking sys conn w)"
    by (rule failed_calls(4) [OF laws])
  ultimately have inv2: "echo_inv v base l (insert conn {l}) rest (s\<lparr>echo_world := set_nonblocking sys conn w\<rparr>)"
    using echo_inv_unseen [where s = "s\<lparr>echo_world := w\<rparr>"] by fastforce
  let ?s = "s\<lparr>echo_next := Suc (echo_next s), echo_world := set_nonblocking sys conn w\<rparr>"
  have inv3: "echo_inv v base l (insert conn {l}) rest ?s"
    using inv2 by (auto simp: echo_inv_def waiters_ok_def points_ok_def open_ok_def less_Suc_eq)
  have run: "running (echo_next s) ?s"
    using inv2 by (cases "echo_frames s (echo_next s)") (auto simp: running_def echo_inv_def waiters_ok_def)
  have "echo_inv v base l {l} (rest - {conn}) (await_request sys (echo_next s) conn ?s)"
    using await_request_inv [OF laws inv3 _ run] fresh(1) un eff by (simp add: unseen_def same_data_def)
  then show ?thesis
    by (auto simp: handle_connection_def Let_def intro: echo_inv_mono)
qed

lemma handle_connection_running: "running h s \<Longrightarrow> running h (handle_connection sys conn s)"
  by (auto simp: running_def handle_connection_def await_request_def wait_readable_def suspend_at_def Let_def)

lemma accept_conns_inv:
  assumes "accept_conns sys h l s = Some s'" "echo_laws sys v" "echo_inv v base l {l} rest s" "running h s"
  shows "echo_inv v base l {} (rest - {l}) s'"
  using assms
proof (induct sys h l s s' rule: accept_conns.raw_induct [rotated, consumes 1, case_names step])
  case (step ac sys h l s s')
  note IH = step(1) and body = step(2) and laws = step(3) and inv = step(4) and run = step(5)
  obtain r w where acc: "s_accept sys l (echo_world s) = (r, w)" by fastforce
  show ?case
  proof (cases r)
    case (Inl e)
    have inv': "echo_inv v base l {l} rest (s\<lparr>echo_world := w\<rparr>)"
      using echo_inv_unseen [OF inv] failed_calls(3) [OF laws] acc Inl by blast
    show ?thesis
      using body acc Inl await_connection_inv [OF laws inv', of h] IH [of sys h l "s\<lparr>echo_world := w\<rparr>" s'] laws inv' run
      by (auto split: if_splits)
  next
    case (Inr conn)
    show ?thesis
      using body acc Inr handle_connection_inv [OF laws inv acc [unfolded Inr]]
        handle_connection_running [of h "s\<lparr>echo_world := w\<rparr>" sys conn] IH laws run
      by auto
  qed
qed

section \<open>The loop\<close>

lemma waiters_take:
  assumes ok: "waiters_ok s" and h: "echo_frames s h = Some p"
  shows "waiters_ok (s\<lparr>g_waiters := (g_waiters s)(point_fd p := None), echo_frames := (echo_frames s)(h := None)\<rparr>)"
    (is "waiters_ok ?s")
proof -
  have W: "g_waiters s fd = Some h' \<longleftrightarrow> (\<exists>p'. echo_frames s h' = Some p' \<and> point_fd p' = fd)" for fd h'
    using ok by (simp add: waiters_ok_def)
  have "g_waiters ?s fd = Some h' \<longleftrightarrow> (\<exists>p'. echo_frames ?s h' = Some p' \<and> point_fd p' = fd)" for fd h'
    using W [of fd h'] W [of "point_fd p" h] h by (cases "fd = point_fd p"; cases "h' = h") auto
  then show ?thesis
    using ok by (simp add: waiters_ok_def)
qed

lemma run_event_inv:
  assumes laws: "echo_laws sys v" and inv: "echo_inv v base l {} rest s" and ev: "run_event sys fd s = Some s'"
  shows "echo_inv v base l {} (rest - {fd}) s'"
proof (cases "g_waiters s fd")
  case None
  then show ?thesis
    using ev echo_inv_unseen_fd [OF inv, of fd] by (auto simp: run_event_def)
next
  case (Some h)
  then obtain p where p: "echo_frames s h = Some p" "point_fd p = fd"
    using inv unfolding echo_inv_def waiters_ok_def by blast
  let ?s = "s\<lparr>g_waiters := (g_waiters s)(fd := None), echo_frames := (echo_frames s)(h := None)\<rparr>"
  have "waiters_ok ?s"
    using waiters_take [of s h p] inv p by (simp add: echo_inv_def)
  moreover have "points_ok v l rest ?s"
    using inv by (auto simp: echo_inv_def points_ok_def)
  moreover have "open_ok v base l {fd} ?s"
    using inv Some by (auto simp: echo_inv_def open_ok_def)
  ultimately have inv': "echo_inv v base l {fd} rest ?s"
    by (simp add: echo_inv_def)
  have run: "running h ?s"
    using inv p(1) by (auto simp: running_def echo_inv_def waiters_ok_def)
  have owes: "owes l v (echo_world ?s) p"
    using inv p(1) by (simp add: echo_inv_def points_ok_def)
  have res: "(case p of AcceptWait listener \<Rightarrow> accept_conns sys h listener ?s
      | ReadWait conn \<Rightarrow> serve_request sys h conn ?s
      | WriteWait conn buf off \<Rightarrow> write_back sys h conn buf off ?s) = Some s'"
    using ev Some p(1) by (simp add: run_event_def echo_resume_def Let_def)
  show ?thesis
  proof (cases p)
    case (AcceptWait a)
    then have "fd = l" "accept_conns sys h l ?s = Some s'" using res owes p(2) by simp_all
    then show ?thesis using accept_conns_inv [of sys h l ?s s'] laws inv' run by blast
  next
    case (ReadWait c)
    then have "c = fd" "fd \<noteq> l" "v_got v (echo_world ?s) fd = v_put v (echo_world ?s) fd" using owes p(2) by auto
    then show ?thesis using serve_request_inv [OF laws _ inv' run] res ReadWait by simp
  next
    case (WriteWait c buf off)
    then have "c = fd" "fd \<noteq> l" "v_got v (echo_world ?s) fd = v_put v (echo_world ?s) fd @ drop off buf"
      using owes p(2) by auto
    then show ?thesis using write_back_inv [OF _ laws inv' run] res WriteWait by simp
  qed
qed

lemma run_events_inv:
  "echo_laws sys v \<Longrightarrow> echo_inv v base l {} rest s \<Longrightarrow> run_events sys evs s = Some s' \<Longrightarrow>
     echo_inv v base l {} (rest - fst ` set evs) s'"
proof (induction sys evs s arbitrary: rest rule: run_events.induct)
  case (1 sys s)
  then show ?case by simp
next
  case (2 sys fd m evs s)
  then obtain s1 where s1: "run_event sys fd s = Some s1" "run_events sys evs s1 = Some s'"
    by (auto split: option.splits)
  have "echo_inv v base l {} (rest - {fd} - fst ` set evs) s'"
    by (rule "2.IH" [OF s1(1) "2.prems"(1) run_event_inv [OF "2.prems"(1,2) s1(1)] s1(2)])
  moreover have "rest - {fd} - fst ` set evs = rest - fst ` set ((fd, m) # evs)"
    by auto
  ultimately show ?case by (simp only:)
qed

lemma wait_inv:
  assumes laws: "echo_laws sys v" and inv: "echo_inv v base l {} {} s"
  shows "s_wait sys (g_epfd s) n t (echo_world s) = (Inl e, w) \<Longrightarrow> echo_inv v base l {} {} (s\<lparr>echo_world := w\<rparr>)"
    and "s_wait sys (g_epfd s) n t (echo_world s) = (Inr evs, w) \<Longrightarrow>
      echo_inv v base l {} (fst ` set evs) (s\<lparr>echo_world := w\<rparr>)"
proof -
  show "echo_inv v base l {} {} (s\<lparr>echo_world := w\<rparr>)" if "s_wait sys (g_epfd s) n t (echo_world s) = (Inl e, w)"
    using laws that echo_inv_unseen [OF inv] by (simp add: echo_laws_def wait_laws_def)
  assume "s_wait sys (g_epfd s) n t (echo_world s) = (Inr evs, w)"
  then have "same_data v (echo_world s) w \<and>
      (\<forall>fd. fd \<notin> fst ` set evs \<longrightarrow> v_armed v w (g_epfd s) fd = v_armed v (echo_world s) (g_epfd s) fd)"
    using laws by (simp add: echo_laws_def wait_laws_def)
  then show "echo_inv v base l {} (fst ` set evs) (s\<lparr>echo_world := w\<rparr>)"
    using inv by (auto simp: echo_inv_def waiters_ok_def points_ok_def open_ok_def same_data_def
        owes_cong [where w' = w and w = "echo_world s"])
qed

lemma run_turn_inv:
  assumes laws: "echo_laws sys v" and inv: "echo_inv v base l {} {} s" and turn: "run_turn sys s = Some (b, s')"
  shows "echo_inv v base l {} {} s'"
proof -
  obtain r w where wt: "s_wait sys (g_epfd s) kMaxEvents (- 1) (echo_world s) = (r, w)" by fastforce
  show ?thesis
  proof (cases r)
    case (Inl e)
    then show ?thesis
      using wait_inv(1) [OF laws inv] turn wt by (auto simp: run_turn_def)
  next
    case (Inr evs)
    then show ?thesis
      using run_events_inv [OF laws wait_inv(2) [OF laws inv], of kMaxEvents "- 1" evs w evs s'] turn wt
      by (auto simp: run_turn_def)
  qed
qed

lemma make_listener_opens:
  assumes laws: "echo_laws sys v" and mk: "make_listener sys port w = (Inr l, w')"
  shows "l \<notin> v_open v w \<and> v_open v w' = insert l (v_open v w)"
proof -
  obtain fd w1 where so: "s_socket sys w = (Inr fd, w1)"
    using mk by (auto simp: make_listener_def split: prod.splits sum.splits)
  obtain r w2 where bi: "s_bind sys fd (make_addr port) (s_reuseaddr sys fd w1) = (r, w2)" by fastforce
  obtain r' w3 where ls: "s_listen sys fd kBacklog w2 = (r', w3)" by fastforce
  have ok: "l = fd" "w' = set_nonblocking sys fd w3"
    using mk so bi ls by (auto simp: make_listener_def close_then_error_def split: option.splits prod.splits)
  have unb: "unseen v w1 (s_reuseaddr sys fd w1)" "unseen v w2' (snd (s_bind sys fd a w2'))"
      "unseen v w2' (snd (s_listen sys fd b w2'))" for w2' a b
    using laws by (simp_all add: echo_laws_def socket_laws_def)
  have un: "unseen v w1 (s_reuseaddr sys fd w1)" "unseen v (s_reuseaddr sys fd w1) w2" "unseen v w2 w3"
    using unb(1) unb(2) [of "s_reuseaddr sys fd w1" "make_addr port"] unb(3) [of w2 kBacklog] bi ls by simp_all
  have "fd \<notin> v_open v w \<and> v_open v w1 = insert fd (v_open v w)"
    using laws so by (simp add: echo_laws_def socket_laws_def)
  then show ?thesis
    using un failed_calls(4) [OF laws, of w3 fd] by (simp add: ok unseen_def same_data_def)
qed

section \<open>Every turn ends\<close>

text \<open>
  \<open>write\<close> on a socket takes at least one byte of a buffer that is not empty, and the clients that are
  waiting to be accepted are finitely many: \<open>backlog\<close> bounds the further successes and interruptions of
  \<open>accept\<close> before it answers \<open>EAGAIN\<close>.
\<close>

definition progress_laws :: "'w echo_sys \<Rightarrow> ('w \<Rightarrow> nat) \<Rightarrow> bool" where
  "progress_laws sys backlog \<longleftrightarrow>
     (\<forall>fd buf w k w'. s_write sys fd buf w = (Inr k, w') \<longrightarrow> buf \<noteq> [] \<longrightarrow> 0 < k) \<and>
     (\<forall>l w c w'. s_accept sys l w = (Inr c, w') \<longrightarrow> backlog w' < backlog w) \<and>
     (\<forall>l w w'. s_accept sys l w = (Inl EINTR, w') \<longrightarrow> backlog w' < backlog w) \<and>
     (\<forall>ep op fd m w. backlog (snd (s_ctl sys ep op fd m w)) \<le> backlog w) \<and>
     (\<forall>fd w. backlog (snd (s_getfl sys fd w)) \<le> backlog w) \<and>
     (\<forall>fd fl w. backlog (s_setfl sys fd fl w) \<le> backlog w)"

lemma write_progress:
  "progress_laws sys backlog \<Longrightarrow> s_write sys fd buf w = (Inr k, w') \<Longrightarrow> buf \<noteq> [] \<Longrightarrow> 0 < k"
  unfolding progress_laws_def by metis

lemma write_back_returns:
  assumes prog: "progress_laws sys backlog"
  shows "\<exists>s'. write_back sys h conn buf off s = Some s'"
proof (induction "length buf - off" arbitrary: off s rule: less_induct)
  case less
  obtain r w where wr: "s_write sys conn (drop off buf) (echo_world s) = (r, w)" by fastforce
  show ?case
  proof (cases "off < length buf \<and> (\<exists>k. r = Inr k)")
    case True
    then obtain k where k: "off < length buf" "r = Inr k" by blast
    then have "0 < k" using write_progress [OF prog] wr by simp
    then show ?thesis
      using less [of "off + k" "s\<lparr>echo_world := w\<rparr>"] k wr by (subst write_back.simps) simp
  next
    case False
    then show ?thesis
      using wr by (subst write_back.simps) (auto split: sum.split)
  qed
qed

lemma io_await_suspend_backlog:
  assumes "progress_laws sys backlog"
  shows "backlog (echo_world (io_await_suspend sys fd ev h s)) \<le> backlog (echo_world s)"
proof -
  have le: "backlog (snd (s_ctl sys ep op fd m w)) \<le> backlog w" for ep op fd m w
    using assms by (simp add: progress_laws_def)
  show ?thesis
    using le [of "g_epfd s" CtlMod fd "ev OR EPOLLONESHOT" "echo_world s"]
      le [of "g_epfd s" CtlAdd fd "ev OR EPOLLONESHOT" "snd (s_ctl sys (g_epfd s) CtlMod fd (ev OR EPOLLONESHOT) (echo_world s))"]
    by (auto simp: io_await_suspend_def make_event_def Let_def split: prod.split option.split)
qed

lemma handle_connection_backlog:
  assumes "progress_laws sys backlog"
  shows "backlog (echo_world (handle_connection sys conn s)) \<le> backlog (echo_world s)"
proof -
  have get: "backlog (snd (s_getfl sys fd w)) \<le> backlog w" and set: "backlog (s_setfl sys fd fl w) \<le> backlog w" for fd fl w
    using assms by (simp_all add: progress_laws_def)
  have "backlog (set_nonblocking sys conn (echo_world s)) \<le> backlog (echo_world s)"
    using order_trans [OF set get] by (simp add: set_nonblocking_def split_beta)
  moreover have "backlog (echo_world (handle_connection sys conn s)) \<le> backlog (set_nonblocking sys conn (echo_world s))"
    using io_await_suspend_backlog [OF assms, of conn EPOLLIN "echo_next s" "suspend_at (echo_next s) (ReadWait conn)
        (s\<lparr>echo_next := Suc (echo_next s), echo_world := set_nonblocking sys conn (echo_world s)\<rparr>)"]
    by (simp add: handle_connection_def await_request_def wait_readable_def suspend_at_def Let_def)
  ultimately show ?thesis by (rule order_trans [rotated])
qed

lemma accept_conns_returns:
  assumes prog: "progress_laws sys backlog"
  shows "\<exists>s'. accept_conns sys h l s = Some s'"
proof (induction "backlog (echo_world s)" arbitrary: s rule: less_induct)
  case less
  obtain r w where acc: "s_accept sys l (echo_world s) = (r, w)" by fastforce
  show ?case
  proof (cases r)
    case (Inl e)
    have "e = EINTR \<Longrightarrow> backlog w < backlog (echo_world s)"
      using prog acc Inl by (simp add: progress_laws_def)
    then show ?thesis
      using less [of "s\<lparr>echo_world := w\<rparr>"] acc Inl by (subst accept_conns.simps) auto
  next
    case (Inr conn)
    have "backlog w < backlog (echo_world s)"
      using prog acc Inr by (simp add: progress_laws_def)
    then have "backlog (echo_world (handle_connection sys conn (s\<lparr>echo_world := w\<rparr>))) < backlog (echo_world s)"
      using handle_connection_backlog [OF prog, of conn "s\<lparr>echo_world := w\<rparr>"] by simp
    then show ?thesis
      using less [of "handle_connection sys conn (s\<lparr>echo_world := w\<rparr>)"] acc Inr by (subst accept_conns.simps) simp
  qed
qed

lemma run_event_returns:
  assumes prog: "progress_laws sys backlog" and inv: "echo_inv v base l held rest s"
  shows "\<exists>s'. run_event sys fd s = Some s'"
proof (cases "g_waiters s fd")
  case None
  then show ?thesis by (simp add: run_event_def)
next
  case (Some h)
  then obtain p where "echo_frames s h = Some p"
    using inv unfolding echo_inv_def waiters_ok_def by blast
  then show ?thesis
    using Some write_back_returns [OF prog] accept_conns_returns [OF prog]
    by (auto simp: run_event_def echo_resume_def serve_request_def Let_def split: co_point.split prod.split sum.split)
qed

lemma run_events_returns:
  "echo_laws sys v \<Longrightarrow> progress_laws sys backlog \<Longrightarrow> echo_inv v base l {} rest s \<Longrightarrow> \<exists>s'. run_events sys evs s = Some s'"
proof (induction evs arbitrary: s rest)
  case Nil
  then show ?case by simp
next
  case (Cons ev evs)
  obtain fd m where ev: "ev = (fd, m)" by fastforce
  obtain s1 where s1: "run_event sys fd s = Some s1"
    using run_event_returns Cons.prems(2,3) by blast
  show ?case
    using Cons.IH [OF Cons.prems(1,2) run_event_inv [OF Cons.prems(1,3) s1]] s1 ev by simp
qed

end
