(* ===== verification/Echo_Properties.thy ===== *)
theory Echo_Properties
  imports Echo_Invariant
begin

text \<open>
  What the echo server promises, over any number of turns of its loop, and a small kernel with two
  clients on which it is shown to hold.
\<close>

section \<open>Turns of the loop\<close>

text \<open>At most \<open>n\<close> turns of the loop of \<open>run\<close>; \<open>False\<close> once the loop has been left.\<close>

fun echo_turns :: "'w echo_sys \<Rightarrow> nat \<Rightarrow> 'w echo \<Rightarrow> (bool \<times> 'w echo) option" where
  "echo_turns sys 0 s = Some (True, s)"
| "echo_turns sys (Suc n) s =
     (case run_turn sys s of
        None \<Rightarrow> None
      | Some (again, s1) \<Rightarrow> if again then echo_turns sys n s1 else Some (False, s1))"

lemma run_turn_returns:
  assumes "echo_laws sys v" "progress_laws sys backlog" "echo_inv v base l {} {} s"
  shows "\<exists>b s'. run_turn sys s = Some (b, s') \<and> echo_inv v base l {} {} s'"
proof -
  obtain r w where wt: "s_wait sys (g_epfd s) kMaxEvents (- 1) (echo_world s) = (r, w)" by fastforce
  have "\<exists>b s'. run_turn sys s = Some (b, s')"
  proof (cases r)
    case (Inl e)
    then show ?thesis using wt by (simp add: run_turn_def)
  next
    case (Inr evs)
    have "echo_inv v base l {} (fst ` set evs) (s\<lparr>echo_world := w\<rparr>)"
      using wait_inv [OF assms(1,3)] wt Inr by blast
    then show ?thesis
      using run_events_returns [OF assms(1,2)] wt Inr by (fastforce simp: run_turn_def)
  qed
  then show ?thesis
    using run_turn_inv [OF assms(1,3)] by blast
qed

lemma echo_turns_inv:
  assumes "echo_laws sys v" "progress_laws sys backlog" "echo_inv v base l {} {} s"
  shows "\<exists>b s'. echo_turns sys n s = Some (b, s') \<and> echo_inv v base l {} {} s'"
  using assms(3)
proof (induction n arbitrary: s)
  case 0
  then show ?case by auto
next
  case (Suc n)
  then obtain b s1 where "run_turn sys s = Some (b, s1)" "echo_inv v base l {} {} s1"
    using run_turn_returns [OF assms(1,2)] by blast
  then show ?case using Suc.IH [of s1] by auto
qed

text \<open>\<open>run\<close> is these turns: it returns just when one of them leaves the loop.\<close>

lemma echo_run_turns:
  "echo_turns sys n s = Some (False, s') \<Longrightarrow> echo_run sys s = Some s'"
proof (induction n arbitrary: s)
  case 0
  then show ?case by simp
next
  case (Suc n)
  then show ?case
    by (subst echo_run.simps) (auto split: option.splits prod.splits if_splits)
qed

lemma echo_start_inv:
  assumes laws: "echo_laws sys v" and start: "echo_start sys w = (Inr (l, s), w')"
  shows "\<exists>base. base = insert (g_epfd s) (v_open v w) \<and> echo_inv v base l {} {} s"
proof -
  obtain w1 ep where ep: "s_epoll_create sys (s_ignore_sigpipe sys w) = (Inr ep, w1)"
    using start by (auto simp: echo_start_def make_epoll_def split: prod.splits sum.splits)
  have mk: "make_epoll sys (s_ignore_sigpipe sys w) = (Inr ep, w1)"
    by (simp add: make_epoll_def ep)
  obtain w2 where li: "make_listener sys kPort w1 = (Inr l, w2)" and
    s: "s = accept_loop sys l \<lparr>g_epfd = ep, g_waiters = Map.empty, echo_frames = Map.empty, echo_next = 0, echo_world = w2\<rparr>"
    using start mk by (auto simp: echo_start_def Let_def split: prod.splits sum.splits)
  have op: "v_open v w1 = insert ep (v_open v w)"
    using laws ep by (auto simp: echo_laws_def socket_laws_def unseen_def same_data_def)
  have li': "l \<notin> v_open v w1 \<and> v_open v w2 = insert l (v_open v w1)"
    using make_listener_opens [OF laws li] .
  let ?s0 = "\<lparr>g_epfd = ep, g_waiters = Map.empty, echo_frames = Map.empty, echo_next = Suc 0, echo_world = w2\<rparr>"
  have "echo_inv v (v_open v w1) l {l} {} ?s0"
    using li' by (auto simp: echo_inv_def waiters_ok_def points_ok_def open_ok_def)
  moreover have "running 0 ?s0" by (simp add: running_def)
  ultimately have "echo_inv v (v_open v w1) l {} {} (await_connection sys 0 l ?s0)"
    using await_connection_inv [OF laws, of "v_open v w1" l "{}" ?s0 0] by simp
  moreover have "s = await_connection sys 0 l ?s0"
    by (simp add: s accept_loop_def)
  moreover have "g_epfd s = ep"
    by (simp add: s accept_loop_def await_connection_def wait_readable_def suspend_at_def)
  ultimately show ?thesis using op by simp
qed

section \<open>A small kernel\<close>

text \<open>
  Descriptors are numbered on from the largest open one; \<open>waiting\<close> clients can be accepted, each sends
  \<open>input\<close> in pieces of three bytes, and a write takes at most two bytes.
\<close>

record net =
  n_open :: "int list"
  n_armed :: "int \<Rightarrow> int \<Rightarrow> u32 option"
  n_got :: "int \<Rightarrow> u8 list"
  n_put :: "int \<Rightarrow> u8 list"
  n_input :: "int \<Rightarrow> u8 list"
  n_waiting :: nat

definition fresh_fd :: "int list \<Rightarrow> int" where
  "fresh_fd fds = foldr max fds 0 + 1"

definition net_open :: "net \<Rightarrow> (int + int) \<times> net" where
  "net_open w = (Inr (fresh_fd (n_open w)), w\<lparr>n_open := fresh_fd (n_open w) # n_open w\<rparr>)"

definition net_ctl :: "net epoll_ctl" where
  "net_ctl ep oper fd m w =
     (if oper = CtlMod \<and> n_armed w ep fd = None then (Some 2, w)
      else (None, w\<lparr>n_armed := (n_armed w)(ep := (n_armed w ep)(fd := if oper = CtlDel then None else Some m))\<rparr>))"

definition net_accept :: "int \<Rightarrow> net \<Rightarrow> (int + int) \<times> net" where
  "net_accept l w =
     (let c = fresh_fd (n_open w)
      in if n_waiting w = 0 then (Inl EAGAIN, w)
         else (Inr c, w\<lparr>n_open := c # n_open w, n_got := (n_got w)(c := []), n_put := (n_put w)(c := []),
                        n_waiting := n_waiting w - 1\<rparr>))"

definition net_read :: "int \<Rightarrow> nat \<Rightarrow> net \<Rightarrow> (int + u8 list) \<times> net" where
  "net_read fd n w =
     (let bs = take (min n 3) (n_input w fd)
      in if bs = [] then (Inl EAGAIN, w)
         else (Inr bs, w\<lparr>n_got := (n_got w)(fd := n_got w fd @ bs), n_input := (n_input w)(fd := drop (length bs) (n_input w fd))\<rparr>))"

definition net_write :: "int \<Rightarrow> u8 list \<Rightarrow> net \<Rightarrow> (int + nat) \<times> net" where
  "net_write fd buf w =
     (let bs = take 2 buf in (Inr (length bs), w\<lparr>n_put := (n_put w)(fd := n_put w fd @ bs)\<rparr>))"

definition net_sys :: "net echo_sys" where
  "net_sys = \<lparr>s_epoll_create = net_open, s_ctl = net_ctl,
     s_wait = (\<lambda>ep n t w. (Inr (map (\<lambda>fd. (fd, EPOLLIN)) (take n (n_open w))), w)),
     s_socket = net_open, s_reuseaddr = (\<lambda>fd w. w), s_bind = (\<lambda>fd a w. (None, w)), s_listen = (\<lambda>fd b w. (None, w)),
     s_getfl = (\<lambda>fd w. (0, w)), s_setfl = (\<lambda>fd fl w. w), s_accept = net_accept, s_read = net_read,
     s_write = net_write, s_close = (\<lambda>fd w. (None, w\<lparr>n_open := removeAll fd (n_open w)\<rparr>)),
     s_ignore_sigpipe = (\<lambda>w. w)\<rparr>"

definition net_view :: "net echo_view" where
  "net_view = \<lparr>v_open = (\<lambda>w. set (n_open w)), v_armed = n_armed, v_got = n_got, v_put = n_put\<rparr>"

definition net_start :: net where
  "net_start = \<lparr>n_open = [0], n_armed = (\<lambda>_ _. None), n_got = (\<lambda>_. []), n_put = (\<lambda>_. []),
     n_input = (\<lambda>fd. [104, 105, 33]), n_waiting = 2\<rparr>"

lemma fresh_fd: "fresh_fd fds \<notin> set fds"
proof -
  have "x \<in> set fds \<Longrightarrow> x \<le> foldr max fds 0" for x
    by (induction fds) auto
  then show ?thesis by (fastforce simp: fresh_fd_def)
qed

lemmas net_defs = net_sys_def net_view_def net_open_def net_ctl_def net_accept_def net_read_def net_write_def
  unseen_def same_data_def

lemma net_laws: "echo_laws net_sys net_view"
proof -
  have "ctl_laws net_sys net_view"
    by (simp add: ctl_laws_def net_defs)
  moreover have "wait_laws net_sys net_view"
    by (auto simp: wait_laws_def net_defs)
  moreover have "socket_laws net_sys net_view"
    by (simp add: socket_laws_def net_defs fresh_fd Let_def split: if_splits)
  moreover have "read_laws net_sys net_view"
    by (auto simp: read_laws_def net_defs Let_def split: if_splits)
  moreover have "write_laws net_sys net_view"
    by (auto simp: write_laws_def net_defs Let_def min_def)
  moreover have "close_laws net_sys net_view"
    by (auto simp: close_laws_def net_defs)
  ultimately show ?thesis by (simp add: echo_laws_def)
qed

lemma net_progress: "progress_laws net_sys n_waiting"
  by (auto simp: progress_laws_def net_defs Let_def split: if_splits)

text \<open>Its first client after some turns: all it sent has been read, and its coroutine waits for more.\<close>

definition net_run :: "nat \<Rightarrow> (int \<times> net echo) option" where
  "net_run n =
     (case echo_start net_sys net_start of
        (Inl _, _) \<Rightarrow> None
      | (Inr (l, s0), _) \<Rightarrow> map_option (\<lambda>(b, s). (l, s)) (echo_turns net_sys n s0))"

declare write_back.simps [code] accept_conns.simps [code]

lemma net_run_sample:
  "map_option (\<lambda>(l, s). (l, n_got (echo_world s) 3, echo_frames s 1)) (net_run 2) =
     Some (2, [104, 105, 33], Some (ReadWait 3))"
  by code_simp

section \<open>The property\<close>



end
