(* ===== verification/Supervisor.thy ===== *)
theory Supervisor
  imports Core
begin

text \<open>
  The crash supervisor of \<^verbatim>\<open>rain_tour/examples/process/crash_supervisor.cpp\<close>: a parent process that
  forks four workers, waits for them and replaces those that a signal kills until its alarm goes off.
  The system calls are parameters on a world \<open>'w\<close>; \<open>p_shutdown\<close> reads the flag \<open>g_shutdown\<close>, which the
  handler of \<open>SIGALRM\<close> sets. What the programs print is left out.
\<close>

section \<open>Constants and data\<close>

definition kWorkers :: nat where "kWorkers = 4"
definition kCrashAtBeat :: int where "kCrashAtBeat = 3"
definition kRunSeconds :: nat where "kRunSeconds = 3"
definition SIGTERM :: int where "SIGTERM = 15"

record outcome =
  crashed :: bool
  outcome_value :: int

record 'w proc_sys =
  p_no_core :: "'w \<Rightarrow> 'w"
  p_on_alarm :: "'w \<Rightarrow> 'w"
  p_alarm :: "nat \<Rightarrow> 'w \<Rightarrow> 'w"
  p_shutdown :: "'w \<Rightarrow> bool"
  p_fork :: "int \<times> int option \<Rightarrow> 'w \<Rightarrow> (int + int) \<times> 'w"
  p_waitpid :: "int \<Rightarrow> 'w \<Rightarrow> (int + int \<times> u32) \<times> 'w"
  p_kill :: "int \<Rightarrow> int \<Rightarrow> 'w \<Rightarrow> 'w"

record 'w supervisor =
  sup_pids :: "int list"
  sup_restarts :: int
  sup_world :: 'w

section \<open>Reading a wait status\<close>

text \<open>The macros of \<^verbatim>\<open>sys/wait.h\<close>: the low seven bits are the signal, 0 for an exit and 127 for a stop.\<close>

definition WTERMSIG :: "u32 \<Rightarrow> int" where
  "WTERMSIG status = uint (status AND 127)"

definition WIFSIGNALED :: "u32 \<Rightarrow> bool" where
  "WIFSIGNALED status \<longleftrightarrow> 0 < WTERMSIG status \<and> WTERMSIG status < 127"

definition WEXITSTATUS :: "u32 \<Rightarrow> int" where
  "WEXITSTATUS status = uint (drop_bit 8 (status AND 0xFF00))"

definition classify :: "u32 \<Rightarrow> outcome" where
  "classify status =
     (if WIFSIGNALED status then \<lparr>crashed = True, outcome_value = WTERMSIG status\<rparr>
      else \<lparr>crashed = False, outcome_value = WEXITSTATUS status\<rparr>)"

fun find_slot_from :: "nat \<Rightarrow> int list \<Rightarrow> int \<Rightarrow> nat option" where
  "find_slot_from i [] pid = None"
| "find_slot_from i (p # ps) pid = (if p = pid then Some i else find_slot_from (Suc i) ps pid)"

definition find_slot :: "int list \<Rightarrow> int \<Rightarrow> nat option" where
  "find_slot pids pid = find_slot_from 0 pids pid"

section \<open>A worker\<close>

text \<open>
  The first \<open>n\<close> beats of a worker, from beat number \<open>beat\<close> on: the beats it made, and whether it is still
  alive after them.
\<close>

definition crashes_at :: "int option \<Rightarrow> int \<Rightarrow> bool" where
  "crashes_at crash_at_beat beat = (case crash_at_beat of None \<Rightarrow> False | Some b \<Rightarrow> b \<le> beat)"

fun heartbeats :: "int option \<Rightarrow> int \<Rightarrow> nat \<Rightarrow> int list \<times> bool" where
  "heartbeats crash_at_beat beat 0 = ([], True)"
| "heartbeats crash_at_beat beat (Suc n) =
     (if crashes_at crash_at_beat beat then ([beat], False)
      else let (beats, alive) = heartbeats crash_at_beat (beat + 1) n in (beat # beats, alive))"

lemma heartbeats_crash:
  "beat \<le> b \<Longrightarrow> nat (b - beat) < n \<Longrightarrow> heartbeats (Some b) beat n = ([beat..b], False)"
proof (induction n arbitrary: beat)
  case (Suc n)
  show ?case
  proof (cases "beat = b")
    case True
    then show ?thesis by (simp add: crashes_at_def)
  next
    case False
    then have "heartbeats (Some b) (beat + 1) n = ([beat + 1..b], False)"
      using Suc.prems by (intro Suc.IH) auto
    then show ?thesis using False Suc.prems(1) by (simp add: crashes_at_def upto_rec1)
  qed
qed simp

lemma heartbeats_healthy: "snd (heartbeats None beat n)"
  by (induction n arbitrary: beat) (simp_all add: crashes_at_def split_beta)

section \<open>The supervisor\<close>

text \<open>The left side of a result is the code the program exits with.\<close>

definition spawn_worker :: "'w proc_sys \<Rightarrow> nat \<Rightarrow> int option \<Rightarrow> 'w \<Rightarrow> (int + int) \<times> 'w" where
  "spawn_worker sys slot crash_at_beat w =
     (case p_fork sys (int slot, crash_at_beat) w of
        (Inl _, w1) \<Rightarrow> (Inl 1, w1)
      | (Inr pid, w1) \<Rightarrow> (Inr pid, w1))"

fun spawn_all :: "'w proc_sys \<Rightarrow> nat list \<Rightarrow> int list \<Rightarrow> 'w \<Rightarrow> (int + int list) \<times> 'w" where
  "spawn_all sys [] pids w = (Inr pids, w)"
| "spawn_all sys (slot # slots) pids w =
     (case spawn_worker sys slot (if slot = 1 then Some kCrashAtBeat else None) w of
        (Inl code, w1) \<Rightarrow> (Inl code, w1)
      | (Inr pid, w1) \<Rightarrow> spawn_all sys slots (pids[slot := pid]) w1)"

text \<open>What the loop does with a child that has ended.\<close>

definition handle_exit :: "'w proc_sys \<Rightarrow> int \<Rightarrow> u32 \<Rightarrow> 'w supervisor \<Rightarrow> int + 'w supervisor" where
  "handle_exit sys pid status s =
     (case find_slot (sup_pids s) pid of
        None \<Rightarrow> Inr s
      | Some slot \<Rightarrow>
          if crashed (classify status)
          then (case spawn_worker sys slot None (sup_world s) of
                  (Inl code, _) \<Rightarrow> Inl code
                | (Inr new_pid, w1) \<Rightarrow>
                    Inr (s\<lparr>sup_pids := (sup_pids s)[slot := new_pid], sup_restarts := sup_restarts s + 1, sup_world := w1\<rparr>))
          else Inr (s\<lparr>sup_pids := (sup_pids s)[slot := 0]\<rparr>))"

text \<open>One turn of the loop: \<open>(again, s)\<close>, or the code of an exit.\<close>

definition supervise_turn :: "'w proc_sys \<Rightarrow> 'w supervisor \<Rightarrow> int + bool \<times> 'w supervisor" where
  "supervise_turn sys s =
     (if p_shutdown sys (sup_world s) then Inr (False, s)
      else case p_waitpid sys (- 1) (sup_world s) of
             (Inl e, w) \<Rightarrow> Inr (e = EINTR, s\<lparr>sup_world := w\<rparr>)
           | (Inr (pid, status), w) \<Rightarrow> map_sum id (Pair True) (handle_exit sys pid status (s\<lparr>sup_world := w\<rparr>)))"

partial_function (option) supervise :: "'w proc_sys \<Rightarrow> 'w supervisor \<Rightarrow> (int + 'w supervisor) option" where
  "supervise sys s =
     (case supervise_turn sys s of
        Inl code \<Rightarrow> Some (Inl code)
      | Inr (again, s1) \<Rightarrow> if again then supervise sys s1 else Some (Inr s1))"

definition kill_all :: "'w proc_sys \<Rightarrow> int list \<Rightarrow> 'w \<Rightarrow> 'w" where
  "kill_all sys pids w = fold (\<lambda>pid w. if 0 < pid then p_kill sys pid SIGTERM w else w) pids w"

definition reap_all :: "'w proc_sys \<Rightarrow> int list \<Rightarrow> 'w \<Rightarrow> 'w" where
  "reap_all sys pids w = fold (\<lambda>pid w. if 0 < pid then snd (p_waitpid sys pid w) else w) pids w"

definition start_supervisor :: "'w proc_sys \<Rightarrow> 'w \<Rightarrow> int + 'w supervisor" where
  "start_supervisor sys w =
     (case spawn_all sys [0..<kWorkers] (replicate kWorkers 0) (p_on_alarm sys (p_no_core sys w)) of
        (Inl code, _) \<Rightarrow> Inl code
      | (Inr pids, w1) \<Rightarrow> Inr \<lparr>sup_pids = pids, sup_restarts = 0, sup_world = p_alarm sys kRunSeconds w1\<rparr>)"

text \<open>\<open>main\<close>: the exit code of a failed fork, or the restarts it reports and the world it leaves.\<close>

definition supervisor_main :: "'w proc_sys \<Rightarrow> 'w \<Rightarrow> (int + int \<times> 'w) option" where
  "supervisor_main sys w =
     (case start_supervisor sys w of
        Inl code \<Rightarrow> Some (Inl code)
      | Inr s \<Rightarrow>
          map_option (map_sum id (\<lambda>s. (sup_restarts s, reap_all sys (sup_pids s) (kill_all sys (sup_pids s) (sup_world s)))))
            (supervise sys s))"

end
