(* ===== verification/Supervisor_Properties.thy ===== *)
theory Supervisor_Properties
  imports Supervisor
begin

text \<open>
  The supervisor keeps its workers: a worker that a signal kills is replaced, one that exits is not, and
  when the program ends it has waited for every child. The kernel is seen through \<open>proc_view\<close>: the
  children that have not been waited for, the statuses reported so far and a bound on the calls of
  \<open>waitpid\<close> before the alarm goes off. That every call of \<open>waitpid\<close> returns leaves out one case: an alarm
  in the window between the test of \<open>g_shutdown\<close> and the call, which then blocks until a worker ends.
\<close>

section \<open>The kernel\<close>

record 'w proc_view =
  v_kids :: "'w \<Rightarrow> int set"
  v_ended :: "'w \<Rightarrow> (int \<times> u32) list"
  v_patience :: "'w \<Rightarrow> nat"

definition same_kids :: "'w proc_view \<Rightarrow> 'w \<Rightarrow> 'w \<Rightarrow> bool" where
  "same_kids v w w' \<longleftrightarrow> v_kids v w' = v_kids v w \<and> v_ended v w' = v_ended v w"

definition fork_laws :: "'w proc_sys \<Rightarrow> 'w proc_view \<Rightarrow> bool" where
  "fork_laws sys v \<longleftrightarrow>
     (\<forall>job w pid w'. p_fork sys job w = (Inr pid, w') \<longrightarrow>
        0 < pid \<and> pid \<notin> v_kids v w \<and> v_kids v w' = insert pid (v_kids v w) \<and> v_ended v w' = v_ended v w \<and>
        v_patience v w' \<le> v_patience v w)"

definition wait_any_laws :: "'w proc_sys \<Rightarrow> 'w proc_view \<Rightarrow> bool" where
  "wait_any_laws sys v \<longleftrightarrow>
     (\<forall>w e w'. p_waitpid sys (- 1) w = (Inl e, w') \<longrightarrow> same_kids v w w' \<and> (e \<noteq> EINTR \<longrightarrow> v_kids v w = {})) \<and>
     (\<forall>w pid status w'. p_waitpid sys (- 1) w = (Inr (pid, status), w') \<longrightarrow>
        pid \<in> v_kids v w \<and> v_kids v w' = v_kids v w - {pid} \<and> v_ended v w' = v_ended v w @ [(pid, status)]) \<and>
     (\<forall>w. \<not> p_shutdown sys w \<longrightarrow> v_patience v (snd (p_waitpid sys (- 1) w)) < v_patience v w)"

text \<open>
  Once the alarm has gone off nothing interrupts the wait for a given child any more, and the flag
  stays set.
\<close>

definition wait_one_laws :: "'w proc_sys \<Rightarrow> 'w proc_view \<Rightarrow> bool" where
  "wait_one_laws sys v \<longleftrightarrow>
     (\<forall>pid w. 0 < pid \<longrightarrow> p_shutdown sys w \<longrightarrow>
        v_kids v (snd (p_waitpid sys pid w)) = v_kids v w - {pid} \<and> p_shutdown sys (snd (p_waitpid sys pid w))) \<and>
     (\<forall>pid sig w. same_kids v w (p_kill sys pid sig w) \<and> (p_shutdown sys w \<longrightarrow> p_shutdown sys (p_kill sys pid sig w)))"

definition setup_laws :: "'w proc_sys \<Rightarrow> 'w proc_view \<Rightarrow> bool" where
  "setup_laws sys v \<longleftrightarrow>
     (\<forall>w. same_kids v w (p_no_core sys w)) \<and> (\<forall>w. same_kids v w (p_on_alarm sys w)) \<and>
     (\<forall>n w. same_kids v w (p_alarm sys n w))"

definition proc_laws :: "'w proc_sys \<Rightarrow> 'w proc_view \<Rightarrow> bool" where
  "proc_laws sys v \<longleftrightarrow> fork_laws sys v \<and> wait_any_laws sys v \<and> wait_one_laws sys v \<and> setup_laws sys v"

section \<open>The table of children\<close>

abbreviation workers :: "int list \<Rightarrow> int list" where
  "workers pids \<equiv> filter (\<lambda>p. 0 < p) pids"

definition table_ok :: "int list \<Rightarrow> int set \<Rightarrow> bool" where
  "table_ok pids kids \<longleftrightarrow>
     length pids = kWorkers \<and> set (workers pids) = kids \<and>
     (\<forall>i j. i < length pids \<longrightarrow> j < length pids \<longrightarrow> 0 < pids ! i \<longrightarrow> pids ! i = pids ! j \<longrightarrow> i = j)"

lemma find_slot_from_Some:
  "find_slot_from i pids pid = Some k \<Longrightarrow> i \<le> k \<and> k - i < length pids \<and> pids ! (k - i) = pid"
proof (induction i pids pid rule: find_slot_from.induct)
  case (2 i p ps pid)
  then show ?case
    by (auto split: if_splits simp: nth_Cons' Suc_diff_Suc)
qed simp

lemma find_slot_from_None: "find_slot_from i pids pid = None \<longleftrightarrow> pid \<notin> set pids"
  by (induction i pids pid rule: find_slot_from.induct) auto

lemma find_slot_Some: "find_slot pids pid = Some k \<Longrightarrow> k < length pids \<and> pids ! k = pid"
  using find_slot_from_Some [of 0 pids pid k] by (simp add: find_slot_def)

lemma find_slot_None: "find_slot pids pid = None \<longleftrightarrow> pid \<notin> set pids"
  by (simp add: find_slot_def find_slot_from_None)

text \<open>Putting something else into the place of a child.\<close>

lemma table_replace:
  assumes ok: "table_ok pids kids" and k: "k < length pids" and q: "0 < q \<Longrightarrow> q \<notin> kids - {pids ! k}"
  shows "table_ok (pids[k := q]) (kids - {pids ! k} \<union> (if 0 < q then {q} else {}))"
proof -
  have inj: "pids ! i \<noteq> pids ! k" if "i < length pids" "i \<noteq> k" "0 < pids ! i" for i
    using ok k that unfolding table_ok_def by metis
  have mem: "p \<in> kids \<longleftrightarrow> (\<exists>i < length pids. pids ! i = p \<and> 0 < p)" for p
    using ok by (auto simp: table_ok_def in_set_conv_nth)
  have "p \<in> set (workers (pids[k := q])) \<longleftrightarrow> p \<in> kids - {pids ! k} \<union> (if 0 < q then {q} else {})" for p
  proof -
    have "p \<in> set (workers (pids[k := q])) \<longleftrightarrow> (\<exists>i < length pids. pids[k := q] ! i = p \<and> 0 < p)"
      by (auto simp: in_set_conv_nth)
    also have "\<dots> \<longleftrightarrow> (p = q \<and> 0 < p) \<or> (\<exists>i < length pids. i \<noteq> k \<and> pids ! i = p \<and> 0 < p)"
      using k nth_list_update_eq [of k pids q] nth_list_update_neq [of k _ pids q] by metis
    also have "(\<exists>i < length pids. i \<noteq> k \<and> pids ! i = p \<and> 0 < p) \<longleftrightarrow> p \<in> kids \<and> p \<noteq> pids ! k"
      using mem [of p] inj by metis
    also have "(p = q \<and> 0 < p) \<or> p \<in> kids \<and> p \<noteq> pids ! k \<longleftrightarrow> p \<in> kids - {pids ! k} \<union> (if 0 < q then {q} else {})"
      by auto
    finally show ?thesis .
  qed
  moreover have "i = j" if "i < length pids" "j < length pids" "0 < pids[k := q] ! i" "pids[k := q] ! i = pids[k := q] ! j" for i j
  proof -
    have new: "0 < q \<Longrightarrow> a < length pids \<Longrightarrow> a \<noteq> k \<Longrightarrow> pids ! a \<noteq> q" for a
      using q mem [of q] inj [of a] by auto
    have vals: "(if i = k then q else pids ! i) = (if j = k then q else pids ! j)" "0 < (if i = k then q else pids ! i)"
      using that by (simp_all add: nth_list_update_if)
    show ?thesis
    proof (cases "i = k \<or> j = k")
      case True
      then show ?thesis using vals new [OF _ that(1)] new [OF _ that(2)] by (auto split: if_splits)
    next
      case False
      then show ?thesis using vals ok that(1,2) by (simp add: table_ok_def)
    qed
  qed
  ultimately show ?thesis
    using ok by (auto simp: table_ok_def)
qed

lemma workers_replace:
  assumes "k < length pids" "0 < pids ! k"
  shows "length (workers (pids[k := q])) + 1 = length (workers pids) + (if 0 < q then 1 else 0)"
  using length_filter_list_update [OF assms(1), of "\<lambda>p. 0 < p" q] assms(2) by simp

section \<open>The invariant\<close>

definition crashes :: "(int \<times> u32) list \<Rightarrow> (int \<times> u32) list" where
  "crashes ended = filter (\<lambda>(pid, status). crashed (classify status)) ended"

definition exits :: "(int \<times> u32) list \<Rightarrow> (int \<times> u32) list" where
  "exits ended = filter (\<lambda>(pid, status). \<not> crashed (classify status)) ended"

definition sup_inv :: "'w proc_view \<Rightarrow> 'w supervisor \<Rightarrow> bool" where
  "sup_inv v s \<longleftrightarrow>
     table_ok (sup_pids s) (v_kids v (sup_world s)) \<and>
     sup_restarts s = int (length (crashes (v_ended v (sup_world s)))) \<and>
     length (workers (sup_pids s)) + length (exits (v_ended v (sup_world s))) = kWorkers"

lemma fork_effect:
  assumes "proc_laws sys v" "spawn_worker sys slot crash w = (Inr pid, w')"
  shows "0 < pid" "pid \<notin> v_kids v w" "v_kids v w' = insert pid (v_kids v w)" "v_ended v w' = v_ended v w"
    "v_patience v w' \<le> v_patience v w"
proof -
  have "p_fork sys (int slot, crash) w = (Inr pid, w')"
    using assms(2) by (auto simp: spawn_worker_def split: prod.splits sum.splits)
  then have "0 < pid \<and> pid \<notin> v_kids v w \<and> v_kids v w' = insert pid (v_kids v w) \<and> v_ended v w' = v_ended v w \<and>
      v_patience v w' \<le> v_patience v w"
    using assms(1) unfolding proc_laws_def fork_laws_def by blast
  then show "0 < pid" "pid \<notin> v_kids v w" "v_kids v w' = insert pid (v_kids v w)" "v_ended v w' = v_ended v w"
    "v_patience v w' \<le> v_patience v w" by auto
qed

lemma spawn_worker_fails: "spawn_worker sys slot crash w = (Inl code, w') \<Longrightarrow> code = 1"
  by (auto simp: spawn_worker_def split: prod.splits sum.splits)

lemma handle_exit_inv:
  assumes laws: "proc_laws sys v" and inv: "sup_inv v s"
    and wait: "p_waitpid sys (- 1) (sup_world s) = (Inr (pid, status), w)"
    and exit: "handle_exit sys pid status (s\<lparr>sup_world := w\<rparr>) = Inr s'"
  shows "sup_inv v s'" "v_patience v (sup_world s') \<le> v_patience v w"
proof -
  have eff: "pid \<in> v_kids v (sup_world s)" "v_kids v w = v_kids v (sup_world s) - {pid}"
    "v_ended v w = v_ended v (sup_world s) @ [(pid, status)]"
    using laws wait by (simp_all add: proc_laws_def wait_any_laws_def)
  let ?kids = "v_kids v (sup_world s)" and ?pids = "sup_pids s"
  have ok: "table_ok ?pids ?kids" using inv by (simp add: sup_inv_def)
  then have pid: "0 < pid" "pid \<in> set ?pids"
    using eff(1) by (auto simp: table_ok_def)
  obtain k where slot: "find_slot ?pids pid = Some k"
    using pid(2) find_slot_None [of ?pids pid] by (cases "find_slot ?pids pid") auto
  then have k: "k < length ?pids" "?pids ! k = pid" "0 < ?pids ! k"
    using find_slot_Some pid(1) by auto
  show "sup_inv v s'" "v_patience v (sup_world s') \<le> v_patience v w"
  proof (atomize (full), cases "crashed (classify status)")
    case True
    then obtain q w1 where q: "spawn_worker sys k None w = (Inr q, w1)"
      and s': "s' = s\<lparr>sup_pids := ?pids[k := q], sup_restarts := sup_restarts s + 1, sup_world := w1\<rparr>"
      using exit slot by (auto simp: handle_exit_def split: prod.splits sum.splits)
    note f = fork_effect [OF laws q]
    have "table_ok (?pids[k := q]) (v_kids v w1)"
      using table_replace [OF ok k(1), of q] f eff(2) k(2) by simp
    then show "sup_inv v s' \<and> v_patience v (sup_world s') \<le> v_patience v w"
      using inv workers_replace [OF k(1,3), of q] f eff(3) True by (simp add: s' sup_inv_def crashes_def exits_def)
  next
    case False
    then have s': "s' = s\<lparr>sup_pids := ?pids[k := 0], sup_world := w\<rparr>"
      using exit slot by (auto simp: handle_exit_def)
    have "table_ok (?pids[k := 0]) (v_kids v w)"
      using table_replace [OF ok k(1), of 0] eff(2) k(2) by simp
    then show "sup_inv v s' \<and> v_patience v (sup_world s') \<le> v_patience v w"
      using inv workers_replace [OF k(1,3), of 0] eff(3) False by (simp add: s' sup_inv_def crashes_def exits_def)
  qed
qed

section \<open>The loop\<close>

fun supervise_turns :: "'w proc_sys \<Rightarrow> nat \<Rightarrow> 'w supervisor \<Rightarrow> int + bool \<times> 'w supervisor" where
  "supervise_turns sys 0 s = Inr (True, s)"
| "supervise_turns sys (Suc n) s =
     (case supervise_turn sys s of
        Inl code \<Rightarrow> Inl code
      | Inr (again, s1) \<Rightarrow> if again then supervise_turns sys n s1 else Inr (False, s1))"

lemma supervise_turn_cases:
  assumes laws: "proc_laws sys v" and inv: "sup_inv v s"
  shows "case supervise_turn sys s of
      Inl code \<Rightarrow> code = 1
    | Inr (True, s') \<Rightarrow> sup_inv v s' \<and> v_patience v (sup_world s') < v_patience v (sup_world s)
    | Inr (False, s') \<Rightarrow> sup_inv v s' \<and> (p_shutdown sys (sup_world s') \<or> v_kids v (sup_world s') = {})"
proof (cases "p_shutdown sys (sup_world s)")
  case True
  then show ?thesis using inv by (simp add: supervise_turn_def)
next
  case run: False
  obtain r w where wait: "p_waitpid sys (- 1) (sup_world s) = (r, w)" by fastforce
  have less: "v_patience v w < v_patience v (sup_world s)"
    using laws run wait unfolding proc_laws_def wait_any_laws_def by (metis snd_conv)
  show ?thesis
  proof (cases r)
    case (Inl e)
    have "same_kids v (sup_world s) w \<and> (e \<noteq> EINTR \<longrightarrow> v_kids v (sup_world s) = {})"
      using laws wait Inl by (simp add: proc_laws_def wait_any_laws_def)
    then show ?thesis
      using inv less run wait Inl by (auto simp: supervise_turn_def sup_inv_def same_kids_def split: bool.split)
  next
    case (Inr ps)
    obtain pid status where ps: "ps = (pid, status)" by fastforce
    show ?thesis
    proof (cases "handle_exit sys pid status (s\<lparr>sup_world := w\<rparr>)")
      case code: (Inl code)
      then have "code = 1"
        using spawn_worker_fails by (auto simp: handle_exit_def split: option.splits if_splits prod.splits sum.splits)
      then show ?thesis using code run wait Inr ps by (simp add: supervise_turn_def)
    next
      case s': (Inr s')
      show ?thesis
        using handle_exit_inv [OF laws inv _ s'] s' less run wait Inr ps by (simp add: supervise_turn_def)
    qed
  qed
qed

lemma supervise_turns_inv:
  assumes laws: "proc_laws sys v"
  shows "sup_inv v s \<Longrightarrow> supervise_turns sys n s = Inr (b, s') \<Longrightarrow> sup_inv v s'"
proof (induction n arbitrary: s)
  case 0
  then show ?case by simp
next
  case (Suc n)
  show ?case
    using supervise_turn_cases [OF laws Suc.prems(1)] Suc
    by (auto split: sum.splits prod.splits bool.splits if_splits)
qed

lemma supervise_returns:
  assumes laws: "proc_laws sys v"
  shows "sup_inv v s \<Longrightarrow> \<exists>r. supervise sys s = Some r \<and>
    (case r of Inl code \<Rightarrow> code = 1
     | Inr s' \<Rightarrow> sup_inv v s' \<and> (p_shutdown sys (sup_world s') \<or> v_kids v (sup_world s') = {}))"
proof (induction "v_patience v (sup_world s)" arbitrary: s rule: less_induct)
  case less
  show ?case
  proof (cases "supervise_turn sys s")
    case (Inl code)
    then show ?thesis
      using supervise_turn_cases [OF laws less.prems] by (subst supervise.simps) simp
  next
    case (Inr bs)
    obtain b s1 where bs: "bs = (b, s1)" by fastforce
    show ?thesis
      using supervise_turn_cases [OF laws less.prems] Inr bs less.hyps [of s1]
      by (subst supervise.simps) (cases b, auto)
  qed
qed

section \<open>Start and end\<close>

lemma spawn_all_inv:
  assumes laws: "proc_laws sys v"
  shows "spawn_all sys slots pids w = (Inr pids', w') \<Longrightarrow> table_ok pids (v_kids v w) \<Longrightarrow> distinct slots \<Longrightarrow>
    (\<forall>k\<in>set slots. k < length pids \<and> pids ! k = 0) \<Longrightarrow>
    table_ok pids' (v_kids v w') \<and> v_ended v w' = v_ended v w \<and>
    length (workers pids') = length (workers pids) + length slots"
proof (induction slots arbitrary: pids w)
  case Nil
  then show ?case by simp
next
  case (Cons k slots)
  obtain q w1 where q: "spawn_worker sys k (if k = 1 then Some kCrashAtBeat else None) w = (Inr q, w1)"
    and rest: "spawn_all sys slots (pids[k := q]) w1 = (Inr pids', w')"
    using Cons.prems(1) by (auto split: prod.splits sum.splits)
  note f = fork_effect [OF laws q]
  have k: "k < length pids" "pids ! k = 0" using Cons.prems(4) by auto
  have "0 \<notin> v_kids v w" using Cons.prems(2) by (auto simp: table_ok_def)
  then have "table_ok (pids[k := q]) (v_kids v w1)"
    using table_replace [OF Cons.prems(2) k(1), of q] f k(2) by simp
  moreover have "\<forall>k'\<in>set slots. k' < length (pids[k := q]) \<and> pids[k := q] ! k' = 0"
    using Cons.prems(3,4) by (auto simp: nth_list_update_if)
  moreover have "length (workers (pids[k := q])) = length (workers pids) + 1"
    using length_filter_list_update [OF k(1), of "\<lambda>p. 0 < p" q] k(2) f(1) by simp
  ultimately show ?case
    using Cons.IH [OF rest] Cons.prems(3) f(4) by simp
qed

lemma spawn_all_fails: "spawn_all sys slots pids w = (Inl code, w') \<Longrightarrow> code = 1"
  by (induction slots arbitrary: pids w) (auto dest: spawn_worker_fails split: prod.splits sum.splits)

lemma start_inv:
  assumes laws: "proc_laws sys v" and none: "v_kids v w = {}" "v_ended v w = []"
  shows "case start_supervisor sys w of Inl code \<Rightarrow> code = 1 | Inr s \<Rightarrow> sup_inv v s"
proof -
  have same: "same_kids v w (p_no_core sys w)" "same_kids v (p_no_core sys w) (p_on_alarm sys (p_no_core sys w))"
    "same_kids v w1 (p_alarm sys kRunSeconds w1)" for w1
    using laws by (simp_all add: proc_laws_def setup_laws_def)
  let ?w = "p_on_alarm sys (p_no_core sys w)"
  have w: "v_kids v ?w = {}" "v_ended v ?w = []"
    using same none by (simp_all add: same_kids_def)
  have ok: "table_ok (replicate kWorkers 0) (v_kids v ?w)"
    using w by (auto simp: table_ok_def)
  obtain r w1 where sp: "spawn_all sys [0..<kWorkers] (replicate kWorkers 0) ?w = (r, w1)" by fastforce
  show ?thesis
  proof (cases r)
    case (Inl code)
    then show ?thesis using sp spawn_all_fails by (fastforce simp: start_supervisor_def)
  next
    case (Inr pids)
    have "table_ok pids (v_kids v w1) \<and> v_ended v w1 = [] \<and> length (workers pids) = kWorkers"
      using spawn_all_inv [OF laws sp [unfolded Inr] ok] w(2) by simp
    then show ?thesis
      using sp Inr same(3) [of w1] by (simp add: start_supervisor_def sup_inv_def same_kids_def crashes_def exits_def)
  qed
qed

lemma kill_all_keeps:
  assumes "proc_laws sys v"
  shows "v_kids v (kill_all sys pids w) = v_kids v w \<and> v_ended v (kill_all sys pids w) = v_ended v w \<and>
    (p_shutdown sys w \<longrightarrow> p_shutdown sys (kill_all sys pids w))"
proof -
  have "same_kids v w (p_kill sys pid sig w) \<and> (p_shutdown sys w \<longrightarrow> p_shutdown sys (p_kill sys pid sig w))" for pid sig w
    using assms by (simp add: proc_laws_def wait_one_laws_def)
  then show ?thesis
    unfolding kill_all_def by (induction pids arbitrary: w) (simp_all add: same_kids_def)
qed

lemma reap_all_kids:
  assumes laws: "proc_laws sys v"
  shows "p_shutdown sys w \<Longrightarrow> v_kids v (reap_all sys pids w) = v_kids v w - set (workers pids)"
proof (induction pids arbitrary: w)
  case Nil
  then show ?case by (simp add: reap_all_def)
next
  case (Cons p pids)
  have one: "0 < p \<Longrightarrow> v_kids v (snd (p_waitpid sys p w)) = v_kids v w - {p} \<and> p_shutdown sys (snd (p_waitpid sys p w))"
    using laws Cons.prems by (simp add: proc_laws_def wait_one_laws_def)
  show ?case
    using Cons.IH [of w] Cons.IH [of "snd (p_waitpid sys p w)"] one Cons.prems by (auto simp: reap_all_def)
qed

lemma reap_all_nobody: "workers pids = [] \<Longrightarrow> reap_all sys pids w = w"
  unfolding reap_all_def by (induction pids arbitrary: w) (auto split: if_splits)

text \<open>Nobody is left behind: either the alarm has gone off, or there was nobody to wait for.\<close>

lemma left_behind:
  assumes laws: "proc_laws sys v" and inv: "sup_inv v s" and over: "p_shutdown sys (sup_world s) \<or> v_kids v (sup_world s) = {}"
  shows "v_kids v (reap_all sys (sup_pids s) (kill_all sys (sup_pids s) (sup_world s))) = {}"
proof -
  let ?w = "kill_all sys (sup_pids s) (sup_world s)"
  have kids: "v_kids v ?w = set (workers (sup_pids s))" "p_shutdown sys (sup_world s) \<Longrightarrow> p_shutdown sys ?w"
    using kill_all_keeps [OF laws, of "sup_pids s" "sup_world s"] inv by (simp_all add: sup_inv_def table_ok_def)
  show ?thesis
  proof (cases "p_shutdown sys (sup_world s)")
    case True
    then show ?thesis using reap_all_kids [OF laws kids(2)] kids(1) by simp
  next
    case False
    then have "v_kids v (sup_world s) = {}" using over by simp
    then have "workers (sup_pids s) = []" using inv by (simp add: sup_inv_def table_ok_def)
    then show ?thesis using kids(1) reap_all_nobody [of "sup_pids s" sys ?w] by simp
  qed
qed

lemma distinct_workers:
  "\<forall>i j. i < length pids \<longrightarrow> j < length pids \<longrightarrow> 0 < pids ! i \<longrightarrow> pids ! i = pids ! j \<longrightarrow> i = j \<Longrightarrow>
     distinct (workers pids)"
proof (induction pids)
  case (Cons p pids)
  have "distinct (workers pids)"
    using Cons.prems by (intro Cons.IH) (metis Suc_less_eq length_Cons nth_Cons_Suc old.nat.inject)
  moreover have "0 < p \<Longrightarrow> p \<notin> set pids"
    using Cons.prems by (metis Suc_less_eq Zero_not_Suc in_set_conv_nth length_Cons nth_Cons_0 nth_Cons_Suc zero_less_Suc)
  ultimately show ?case by auto
qed simp

section \<open>A small kernel\<close>

text \<open>
  The children end in the order in which they were forked, with the statuses of \<open>script\<close>; the alarm goes
  off when it is used up.
\<close>

record procs =
  kids :: "int list"
  ended :: "(int \<times> u32) list"
  script :: "u32 list"

definition procs_fork :: "int \<times> int option \<Rightarrow> procs \<Rightarrow> (int + int) \<times> procs" where
  "procs_fork job w = (let pid = foldr max (kids w) 0 + 1 in (Inr pid, w\<lparr>kids := kids w @ [pid]\<rparr>))"

definition procs_waitpid :: "int \<Rightarrow> procs \<Rightarrow> (int + int \<times> u32) \<times> procs" where
  "procs_waitpid pid w =
     (if pid = - 1
      then (case (kids w, script w) of
              (k # ks, status # rest) \<Rightarrow>
                (Inr (k, status), w\<lparr>kids := removeAll k ks, ended := ended w @ [(k, status)], script := rest\<rparr>)
            | ([], _) \<Rightarrow> (Inl 10, w\<lparr>script := tl (script w)\<rparr>)
            | (_, []) \<Rightarrow> (Inl EINTR, w))
      else (Inr (pid, 15), w\<lparr>kids := removeAll pid (kids w)\<rparr>))"

definition procs_sys :: "procs proc_sys" where
  "procs_sys = \<lparr>p_no_core = (\<lambda>w. w), p_on_alarm = (\<lambda>w. w), p_alarm = (\<lambda>n w. w), p_shutdown = (\<lambda>w. script w = []),
     p_fork = procs_fork, p_waitpid = procs_waitpid, p_kill = (\<lambda>pid sig w. w)\<rparr>"

definition procs_view :: "procs proc_view" where
  "procs_view = \<lparr>v_kids = (\<lambda>w. set (kids w)), v_ended = ended, v_patience = (\<lambda>w. length (script w))\<rparr>"

text \<open>The first child is killed by signal 11, the second exits with code 0.\<close>

definition procs_start :: procs where
  "procs_start = \<lparr>kids = [], ended = [], script = [11, 0]\<rparr>"

lemma max_fresh: "foldr max xs 0 + (1 :: int) \<notin> set xs \<and> 0 < foldr max xs 0 + (1 :: int)"
proof -
  have "x \<in> set xs \<Longrightarrow> x \<le> foldr max xs 0" for x :: int
    by (induction xs) auto
  moreover have "0 \<le> foldr max xs (0 :: int)"
    by (induction xs) auto
  ultimately show ?thesis by fastforce
qed

lemma procs_laws: "proc_laws procs_sys procs_view"
proof -
  have "fork_laws procs_sys procs_view"
    using max_fresh by (auto simp: fork_laws_def procs_sys_def procs_view_def procs_fork_def Let_def)
  moreover have "wait_any_laws procs_sys procs_view"
    by (auto simp: wait_any_laws_def same_kids_def procs_sys_def procs_view_def procs_waitpid_def split: list.splits)
  moreover have "wait_one_laws procs_sys procs_view"
    by (auto simp: wait_one_laws_def same_kids_def procs_sys_def procs_view_def procs_waitpid_def)
  moreover have "setup_laws procs_sys procs_view"
    by (simp add: setup_laws_def same_kids_def procs_sys_def)
  ultimately show ?thesis by (simp add: proc_laws_def)
qed

declare supervise.simps [code]

lemma procs_run_sample: "map_option (map_sum id fst) (supervisor_main procs_sys procs_start) = Some (Inr 1)"
  by code_simp

section \<open>The property\<close>



end
