(* ===== verification/Futures_Pool.thy ===== *)
theory Futures_Pool
  imports Rain_Prelude
begin

text \<open>
  The thread pool with futures of \<^verbatim>\<open>rain_tour/examples/thread/thread_pool_futures.cpp\<close>: a queue of jobs under
  a mutex, a condition variable on which the workers sleep, and the futures of the jobs. A callable is of
  type \<open>'j\<close> and \<open>call\<close> is what it returns or throws. A step is what a thread does while it holds the
  mutex, or a notification, which comes after the mutex has been released. Jobs and their futures are
  numbered in the order of submission.
\<close>

section \<open>State\<close>

text \<open>A worker: in \<open>wait\<close>, with the predicate to be evaluated, running a job, returned.\<close>

datatype 'j fworker = Asleep | Awake | Running "nat \<times> 'j" | Gone

text \<open>The thread in \<open>shutdown\<close>: not there, before \<open>notify_all\<close>, joining the worker with this number, returned.\<close>

datatype stopper = NotStopping | Notifying | JoiningAt nat | AllJoined

record ('j, 'r) fpool =
  f_jobs :: "(nat \<times> 'j) list"
  f_threads :: "'j fworker list"
  f_stopping :: bool
  f_notes :: nat
  f_stopper :: stopper
  f_futures :: "nat \<Rightarrow> 'r option"
  f_next :: nat

definition new_fpool :: "nat \<Rightarrow> ('j, 'r) fpool" where
  "new_fpool workers =
     \<lparr>f_jobs = [], f_threads = replicate workers Awake, f_stopping = False, f_notes = 0, f_stopper = NotStopping,
      f_futures = Map.empty, f_next = 0\<rparr>"

section \<open>Operations\<close>

text \<open>\<open>submit\<close> throws, or answers with the number of the future; \<open>notify_one\<close> is still to come.\<close>

definition fpool_submit :: "'j \<Rightarrow> ('j, 'r) fpool \<Rightarrow> (string + nat) \<times> ('j, 'r) fpool" where
  "fpool_submit f p =
     (if f_stopping p then (Inl ''submit on stopped pool'', p)
      else (Inr (f_next p),
            p\<lparr>f_jobs := f_jobs p @ [(f_next p, f)], f_next := Suc (f_next p), f_notes := Suc (f_notes p)\<rparr>))"

text \<open>\<open>notify_one\<close> wakes one of the sleeping workers, if there are any; \<open>i\<close> is the one it chooses.\<close>

definition fpool_notify_one :: "nat \<Rightarrow> ('j, 'r) fpool \<Rightarrow> ('j, 'r) fpool option" where
  "fpool_notify_one i p =
     (if f_notes p = 0 then None
      else if Asleep \<in> set (f_threads p)
      then (if i < length (f_threads p) \<and> f_threads p ! i = Asleep
            then Some (p\<lparr>f_threads := (f_threads p)[i := Awake], f_notes := f_notes p - 1\<rparr>) else None)
      else Some (p\<lparr>f_notes := f_notes p - 1\<rparr>))"

definition fpool_worker :: "('j \<Rightarrow> 'r) \<Rightarrow> nat \<Rightarrow> ('j, 'r) fpool \<Rightarrow> ('j, 'r) fpool option" where
  "fpool_worker call i p =
     (case f_threads p ! i of
        Awake \<Rightarrow>
          Some (if \<not> (f_stopping p \<or> f_jobs p \<noteq> []) then p\<lparr>f_threads := (f_threads p)[i := Asleep]\<rparr>
                else case f_jobs p of
                       [] \<Rightarrow> if f_stopping p then p\<lparr>f_threads := (f_threads p)[i := Gone]\<rparr> else p
                     | job # rest \<Rightarrow> p\<lparr>f_jobs := rest, f_threads := (f_threads p)[i := Running job]\<rparr>)
      | Running (k, f) \<Rightarrow>
          Some (p\<lparr>f_futures := (f_futures p)(k \<mapsto> call f), f_threads := (f_threads p)[i := Awake]\<rparr>)
      | Asleep \<Rightarrow> None
      | Gone \<Rightarrow> None)"

definition fpool_shutdown :: "('j, 'r) fpool \<Rightarrow> ('j, 'r) fpool" where
  "fpool_shutdown p = (if f_stopping p then p else p\<lparr>f_stopping := True, f_stopper := Notifying\<rparr>)"

definition fpool_join :: "('j, 'r) fpool \<Rightarrow> ('j, 'r) fpool option" where
  "fpool_join p =
     (case f_stopper p of
        Notifying \<Rightarrow>
          Some (p\<lparr>f_threads := map (\<lambda>t. if t = Asleep then Awake else t) (f_threads p), f_stopper := JoiningAt 0\<rparr>)
      | JoiningAt i \<Rightarrow>
          if length (f_threads p) \<le> i then Some (p\<lparr>f_stopper := AllJoined\<rparr>)
          else if f_threads p ! i = Gone then Some (p\<lparr>f_stopper := JoiningAt (Suc i)\<rparr>)
          else None
      | _ \<Rightarrow> None)"

text \<open>\<open>get\<close> on a future: \<open>None\<close> while it is not ready.\<close>

definition fpool_get :: "nat \<Rightarrow> ('j, 'r) fpool \<Rightarrow> 'r option" where
  "fpool_get k p = f_futures p k"

text \<open>The jobs that \<open>main\<close> submits, and the sum it prints at the end.\<close>

definition square :: "int \<Rightarrow> int" where
  "square x = x * x"

definition main_jobs :: "int list" where
  "main_jobs = [1..8]"

definition main_sum :: int where
  "main_sum = fold (\<lambda>x s. s + x) (map square main_jobs) 0"

lemma main_sum_value: "main_sum = 204"
  by code_simp

section \<open>Runs\<close>

text \<open>
  The pools that can arise, with the jobs they have accepted, in order. A condition variable may wake a
  thread without a notification.
\<close>

inductive fpool_reach :: "('j \<Rightarrow> 'r) \<Rightarrow> nat \<Rightarrow> 'j list \<Rightarrow> ('j, 'r) fpool \<Rightarrow> bool" for call n where
  start: "fpool_reach call n [] (new_fpool n)"
| submit: "fpool_reach call n acc p \<Longrightarrow> fpool_submit f p = (Inr k, p') \<Longrightarrow> fpool_reach call n (acc @ [f]) p'"
| refuse: "fpool_reach call n acc p \<Longrightarrow> fpool_submit f p = (Inl e, p') \<Longrightarrow> fpool_reach call n acc p'"
| notify: "fpool_reach call n acc p \<Longrightarrow> fpool_notify_one i p = Some p' \<Longrightarrow> fpool_reach call n acc p'"
| spurious: "fpool_reach call n acc p \<Longrightarrow> i < n \<Longrightarrow> f_threads p ! i = Asleep \<Longrightarrow>
    fpool_reach call n acc (p\<lparr>f_threads := (f_threads p)[i := Awake]\<rparr>)"
| work: "fpool_reach call n acc p \<Longrightarrow> i < n \<Longrightarrow> fpool_worker call i p = Some p' \<Longrightarrow> fpool_reach call n acc p'"
| shutdown: "fpool_reach call n acc p \<Longrightarrow> fpool_reach call n acc (fpool_shutdown p)"
| join: "fpool_reach call n acc p \<Longrightarrow> fpool_join p = Some p' \<Longrightarrow> fpool_reach call n acc p'"

section \<open>Where the jobs are\<close>

text \<open>
  The first \<open>t\<close> jobs have been taken; each of them is being run by one worker or its future is ready.
\<close>

definition jobs_ok :: "('j \<Rightarrow> 'r) \<Rightarrow> 'j list \<Rightarrow> nat \<Rightarrow> ('j, 'r) fpool \<Rightarrow> bool" where
  "jobs_ok call acc t p \<longleftrightarrow>
     t \<le> length acc \<and> f_next p = length acc \<and> f_jobs p = zip [t..<length acc] (drop t acc) \<and>
     (\<forall>k r. f_futures p k = Some r \<longrightarrow> k < t \<and> r = call (acc ! k)) \<and>
     (\<forall>k < t. f_futures p k = None \<longrightarrow> (\<exists>i < length (f_threads p). f_threads p ! i = Running (k, acc ! k))) \<and>
     (\<forall>i k f. i < length (f_threads p) \<longrightarrow> f_threads p ! i = Running (k, f) \<longrightarrow>
        k < t \<and> f = acc ! k \<and> f_futures p k = None \<and>
        (\<forall>j < length (f_threads p). f_threads p ! j = Running (k, f) \<longrightarrow> j = i))"

text \<open>The workers: who has left, who is asleep, and who will see to the queue.\<close>

definition at_work :: "('j, 'r) fpool \<Rightarrow> bool" where
  "at_work p \<longleftrightarrow> (\<exists>t \<in> set (f_threads p). t \<noteq> Asleep \<and> t \<noteq> Gone) \<or> 0 < f_notes p \<or> f_stopper p = Notifying"

definition threads_ok :: "nat \<Rightarrow> ('j, 'r) fpool \<Rightarrow> bool" where
  "threads_ok n p \<longleftrightarrow>
     length (f_threads p) = n \<and> (f_stopping p \<longleftrightarrow> f_stopper p \<noteq> NotStopping) \<and>
     (Gone \<in> set (f_threads p) \<longrightarrow> f_stopping p \<and> f_jobs p = []) \<and>
     (f_jobs p \<noteq> [] \<longrightarrow> Asleep \<in> set (f_threads p) \<longrightarrow> at_work p) \<and>
     (case f_stopper p of
        JoiningAt i \<Rightarrow> Asleep \<notin> set (f_threads p) \<and> i \<le> n \<and> (\<forall>k < i. f_threads p ! k = Gone)
      | AllJoined \<Rightarrow> \<forall>k < n. f_threads p ! k = Gone
      | _ \<Rightarrow> True)"

end
