(* ===== verification/Futures_Properties.thy ===== *)
theory Futures_Properties
  imports Futures_Pool
begin

text \<open>
  Every job submitted to the pool with futures is run once, its future gets what it returns, no wake-up is
  lost and the destructor drains the queue.
\<close>

section \<open>The steps of a worker\<close>

lemma fpool_worker_cases:
  assumes "fpool_worker call i p = Some p'"
  obtains (sleep) "f_threads p ! i = Awake" "f_jobs p = []" "\<not> f_stopping p"
      "p' = p\<lparr>f_threads := (f_threads p)[i := Asleep]\<rparr>"
    | (leave) "f_threads p ! i = Awake" "f_jobs p = []" "f_stopping p" "p' = p\<lparr>f_threads := (f_threads p)[i := Gone]\<rparr>"
    | (take) job rest where "f_threads p ! i = Awake" "f_jobs p = job # rest"
      "p' = p\<lparr>f_jobs := rest, f_threads := (f_threads p)[i := Running job]\<rparr>"
    | (run) k f where "f_threads p ! i = Running (k, f)"
      "p' = p\<lparr>f_futures := (f_futures p)(k \<mapsto> call f), f_threads := (f_threads p)[i := Awake]\<rparr>"
  using assms
  by (cases "f_threads p ! i"; cases "f_jobs p") (auto simp: fpool_worker_def split: if_splits)

section \<open>Jobs\<close>

lemma jobs_okI:
  assumes "t \<le> length acc" "f_next p = length acc" "f_jobs p = zip [t..<length acc] (drop t acc)"
    and "\<And>k r. f_futures p k = Some r \<Longrightarrow> k < t \<and> r = call (acc ! k)"
    and "\<And>k. k < t \<Longrightarrow> f_futures p k = None \<Longrightarrow> \<exists>i < length (f_threads p). f_threads p ! i = Running (k, acc ! k)"
    and "\<And>i k f. i < length (f_threads p) \<Longrightarrow> f_threads p ! i = Running (k, f) \<Longrightarrow>
      k < t \<and> f = acc ! k \<and> f_futures p k = None \<and>
      (\<forall>j < length (f_threads p). f_threads p ! j = Running (k, f) \<longrightarrow> j = i)"
  shows "jobs_ok call acc t p"
  unfolding jobs_ok_def using assms by blast

lemma jobs_okD:
  assumes "jobs_ok call acc t p"
  shows "t \<le> length acc" "f_next p = length acc" "f_jobs p = zip [t..<length acc] (drop t acc)"
    and "f_futures p k = Some r \<Longrightarrow> k < t \<and> r = call (acc ! k)"
    and "k < t \<Longrightarrow> f_futures p k = None \<Longrightarrow> \<exists>i < length (f_threads p). f_threads p ! i = Running (k, acc ! k)"
    and "i < length (f_threads p) \<Longrightarrow> f_threads p ! i = Running (k, f) \<Longrightarrow>
      k < t \<and> f = acc ! k \<and> f_futures p k = None \<and>
      (\<forall>j < length (f_threads p). f_threads p ! j = Running (k, f) \<longrightarrow> j = i)"
  using assms unfolding jobs_ok_def by blast+

lemma jobs_ok_frame:
  assumes ok: "jobs_ok call acc t p"
    and len: "length (f_threads p') = length (f_threads p)"
    and same: "\<And>i x. i < length (f_threads p) \<Longrightarrow> f_threads p' ! i = Running x \<longleftrightarrow> f_threads p ! i = Running x"
    and rest: "f_jobs p' = f_jobs p" "f_next p' = f_next p" "f_futures p' = f_futures p"
  shows "jobs_ok call acc t p'"
proof -
  note D = jobs_okD [OF ok]
  show ?thesis
  proof (rule jobs_okI)
    show "k < t \<Longrightarrow> f_futures p' k = None \<Longrightarrow> \<exists>i < length (f_threads p'). f_threads p' ! i = Running (k, acc ! k)" for k
      using D(5) [of k] same unfolding rest len by blast
    show "i < length (f_threads p') \<Longrightarrow> f_threads p' ! i = Running (k, f) \<Longrightarrow>
        k < t \<and> f = acc ! k \<and> f_futures p' k = None \<and>
        (\<forall>j < length (f_threads p'). f_threads p' ! j = Running (k, f) \<longrightarrow> j = i)" for i k f
      using D(6) [of i k f] same unfolding rest len by blast
  qed (use D(1,2,3,4) rest in auto)
qed

lemma jobs_ok_idle:
  assumes "jobs_ok call acc t p" "\<And>x. f_threads p ! i \<noteq> Running x" "\<And>x. y \<noteq> Running x"
  shows "jobs_ok call acc t (p\<lparr>f_threads := (f_threads p)[i := y]\<rparr>)"
  by (rule jobs_ok_frame [OF assms(1)]) (use assms(2,3) in \<open>auto simp: nth_list_update_if\<close>)

lemma jobs_ok_submit:
  assumes ok: "jobs_ok call acc t p" and sub: "fpool_submit f p = (Inr k, p')"
  shows "jobs_ok call (acc @ [f]) t p'"
proof -
  have p': "p' = p\<lparr>f_jobs := f_jobs p @ [(f_next p, f)], f_next := Suc (f_next p), f_notes := Suc (f_notes p)\<rparr>"
    using sub by (auto simp: fpool_submit_def split: if_splits)
  note D = jobs_okD [OF ok]
  have app: "k < t \<Longrightarrow> (acc @ [f]) ! k = acc ! k" for k
    using D(1) by (simp add: nth_append)
  show ?thesis
  proof (rule jobs_okI)
    show "t \<le> length (acc @ [f])" "f_next p' = length (acc @ [f])" using D(1,2) by (simp_all add: p')
    show "f_jobs p' = zip [t..<length (acc @ [f])] (drop t (acc @ [f]))"
      using D(1,2,3) by (simp add: p')
    show "f_futures p' k = Some r \<Longrightarrow> k < t \<and> r = call ((acc @ [f]) ! k)" for k r
      using D(4) app by (simp add: p')
    show "k < t \<Longrightarrow> f_futures p' k = None \<Longrightarrow>
        \<exists>i < length (f_threads p'). f_threads p' ! i = Running (k, (acc @ [f]) ! k)" for k
      using D(5) app by (simp add: p')
    show "i < length (f_threads p') \<Longrightarrow> f_threads p' ! i = Running (k, g) \<Longrightarrow>
        k < t \<and> g = (acc @ [f]) ! k \<and> f_futures p' k = None \<and>
        (\<forall>j < length (f_threads p'). f_threads p' ! j = Running (k, g) \<longrightarrow> j = i)" for i k g
      using D(6) [of i k g] app [of k] by (simp add: p')
  qed
qed

lemma jobs_ok_take:
  assumes ok: "jobs_ok call acc t p" and i: "i < length (f_threads p)" "f_threads p ! i = Awake"
    and jobs: "f_jobs p = job # rest"
  shows "jobs_ok call acc (Suc t) (p\<lparr>f_jobs := rest, f_threads := (f_threads p)[i := Running job]\<rparr>)"
    (is "jobs_ok _ _ _ ?p")
proof -
  note D = jobs_okD [OF ok]
  have z: "zip [t..<length acc] (drop t acc) = job # rest" and t: "t \<le> length acc"
    using D(1,3) jobs by simp_all
  then have lt: "t < length acc" by (cases "t < length acc") auto
  then have head: "job = (t, acc ! t)" "rest = zip [Suc t..<length acc] (drop (Suc t) acc)"
    using z by (simp_all add: upt_conv_Cons Cons_nth_drop_Suc [symmetric])
  have none: "f_futures p t = None"
    using D(4) [of t] by (cases "f_futures p t") auto
  have others: "f_threads p ! j \<noteq> Running (t, g)" if "j < length (f_threads p)" for j g
    using D(6) [OF that, of t g] by auto
  let ?th = "(f_threads p)[i := Running job]"
  have th: "?th ! j = (if j = i then Running (t, acc ! t) else f_threads p ! j)" if "j < length (f_threads p)" for j
    using that by (simp add: nth_list_update_if head(1))
  have found: "\<exists>j < length (f_threads p). ?th ! j = Running (k, acc ! k)" if kt: "k < Suc t" "f_futures p k = None" for k
  proof (cases "k = t")
    case True
    then show ?thesis using i th [OF i(1)] by (intro exI [of _ i]) simp
  next
    case False
    then obtain j where "j < length (f_threads p)" "f_threads p ! j = Running (k, acc ! k)"
      using D(5) [of k] kt by auto
    then show ?thesis using i(2) th [of j] by (intro exI [of _ j]) auto
  qed
  have one: "k < Suc t \<and> f = acc ! k \<and> f_futures p k = None \<and>
      (\<forall>b < length (f_threads p). ?th ! b = Running (k, f) \<longrightarrow> b = a)"
    if a: "a < length (f_threads p)" "?th ! a = Running (k, f)" for a k f
  proof (cases "a = i")
    case True
    then have kf: "k = t" "f = acc ! t" using a th [OF a(1)] head(1) by auto
    moreover have "b = a" if "b < length (f_threads p)" "?th ! b = Running (k, f)" for b
      using that th [OF that(1)] others [OF that(1)] True kf by (auto split: if_splits)
    ultimately show ?thesis using none by simp
  next
    case False
    then have run: "f_threads p ! a = Running (k, f)" using a th [OF a(1)] by simp
    then have old: "k < t \<and> f = acc ! k \<and> f_futures p k = None \<and>
        (\<forall>b < length (f_threads p). f_threads p ! b = Running (k, f) \<longrightarrow> b = a)"
      using D(6) [OF a(1)] by simp
    moreover have "b = a" if "b < length (f_threads p)" "?th ! b = Running (k, f)" for b
      using that th [OF that(1)] old by (auto split: if_splits)
    ultimately show ?thesis by simp
  qed
  have sel: "f_threads ?p = ?th" "f_futures ?p = f_futures p" by simp_all
  show ?thesis
  proof (rule jobs_okI)
    show "Suc t \<le> length acc" using lt by simp
    show "f_futures ?p k = Some r \<Longrightarrow> k < Suc t \<and> r = call (acc ! k)" for k r
      using D(4) [of k r] by simp
    show "k < Suc t \<Longrightarrow> f_futures ?p k = None \<Longrightarrow> \<exists>a < length (f_threads ?p). f_threads ?p ! a = Running (k, acc ! k)" for k
      using found [of k] by simp
    show "a < length (f_threads ?p) \<Longrightarrow> f_threads ?p ! a = Running (k, f) \<Longrightarrow>
        k < Suc t \<and> f = acc ! k \<and> f_futures ?p k = None \<and>
        (\<forall>b < length (f_threads ?p). f_threads ?p ! b = Running (k, f) \<longrightarrow> b = a)" for a k f
      unfolding sel length_list_update by (rule one)
  qed (simp_all add: D(2) head(2))
qed

lemma jobs_ok_run:
  assumes ok: "jobs_ok call acc t p" and i: "i < length (f_threads p)" "f_threads p ! i = Running (k, f)"
  shows "jobs_ok call acc t (p\<lparr>f_futures := (f_futures p)(k \<mapsto> call f), f_threads := (f_threads p)[i := Awake]\<rparr>)"
    (is "jobs_ok _ _ _ ?p")
proof -
  note D = jobs_okD [OF ok]
  have k: "k < t" "f = acc ! k" "f_futures p k = None"
    and only: "\<And>j. j < length (f_threads p) \<Longrightarrow> f_threads p ! j = Running (k, f) \<Longrightarrow> j = i"
    using D(6) [OF i] by simp_all
  let ?th = "(f_threads p)[i := Awake]"
  have th: "?th ! j = (if j = i then Awake else f_threads p ! j)" if "j < length (f_threads p)" for j
    using that by (simp add: nth_list_update_if)
  have found: "\<exists>j < length (f_threads p). ?th ! j = Running (k', acc ! k')" if kt: "k' < t" "k' \<noteq> k" "f_futures p k' = None" for k'
  proof -
    obtain j where "j < length (f_threads p)" "f_threads p ! j = Running (k', acc ! k')"
      using D(5) [of k'] kt by auto
    then show ?thesis using i(2) th [of j] that(2) by (intro exI [of _ j]) auto
  qed
  have one: "k' < t \<and> g = acc ! k' \<and> ((f_futures p)(k \<mapsto> call f)) k' = None \<and>
      (\<forall>b < length (f_threads p). ?th ! b = Running (k', g) \<longrightarrow> b = a)"
    if a: "a < length (f_threads p)" "?th ! a = Running (k', g)" for a k' g
  proof -
    have run: "a \<noteq> i" "f_threads p ! a = Running (k', g)" using a th [OF a(1)] by (auto split: if_splits)
    then have old: "k' < t \<and> g = acc ! k' \<and> f_futures p k' = None \<and>
        (\<forall>b < length (f_threads p). f_threads p ! b = Running (k', g) \<longrightarrow> b = a)"
      using D(6) [OF a(1)] by simp
    moreover have "b = a" if "b < length (f_threads p)" "?th ! b = Running (k', g)" for b
      using that th [OF that(1)] old by (auto split: if_splits)
    moreover have "k' \<noteq> k" using run only [OF a(1)] old k(2) by auto
    ultimately show ?thesis by simp
  qed
  have sel: "f_threads ?p = ?th" "f_futures ?p = (f_futures p)(k \<mapsto> call f)" by simp_all
  show ?thesis
  proof (rule jobs_okI)
    show "f_futures ?p k' = Some r \<Longrightarrow> k' < t \<and> r = call (acc ! k')" for k' r
      using D(4) [of k' r] k by (auto split: if_splits)
    show "k' < t \<Longrightarrow> f_futures ?p k' = None \<Longrightarrow> \<exists>a < length (f_threads ?p). f_threads ?p ! a = Running (k', acc ! k')" for k'
      using found [of k'] by (simp split: if_splits)
    show "a < length (f_threads ?p) \<Longrightarrow> f_threads ?p ! a = Running (k', g) \<Longrightarrow>
        k' < t \<and> g = acc ! k' \<and> f_futures ?p k' = None \<and>
        (\<forall>b < length (f_threads ?p). f_threads ?p ! b = Running (k', g) \<longrightarrow> b = a)" for a k' g
      unfolding sel length_list_update by (rule one)
  qed (simp_all add: D(1,2,3))
qed

section \<open>Threads\<close>

text \<open>A worker that has not left changes into one that is awake or running: somebody is at work.\<close>

lemma threads_ok_active:
  assumes ok: "threads_ok n p" and i: "i < n" "f_threads p ! i \<noteq> Gone" and y: "y \<noteq> Asleep" "y \<noteq> Gone"
    and q: "f_threads q = (f_threads p)[i := y]" "f_stopping q = f_stopping p" "f_stopper q = f_stopper p"
    and jobs: "f_jobs p = [] \<Longrightarrow> f_jobs q = []"
  shows "threads_ok n q"
proof -
  have len: "length (f_threads p) = n" using ok by (simp add: threads_ok_def)
  have sub: "x \<in> set (f_threads q) \<Longrightarrow> x = y \<or> x \<in> set (f_threads p)" for x
    unfolding q(1) by (rule set_list_update_subset)
  have "y \<in> set (f_threads q)" unfolding q(1) using i(1) len by (simp add: set_update_memI)
  then have work: "at_work q" using y by (auto simp: at_work_def)
  have keep: "f_threads p ! k = Gone \<Longrightarrow> f_threads q ! k = Gone" if "k < n" for k
    using that i len by (auto simp: q(1) nth_list_update_if)
  have "case f_stopper q of
        JoiningAt i \<Rightarrow> Asleep \<notin> set (f_threads q) \<and> i \<le> n \<and> (\<forall>k < i. f_threads q ! k = Gone)
      | AllJoined \<Rightarrow> \<forall>k < n. f_threads q ! k = Gone
      | _ \<Rightarrow> True"
    using ok sub [of Asleep] keep y by (cases "f_stopper p") (auto simp: threads_ok_def q)
  then show ?thesis
    using ok work sub [of Gone] y jobs len by (auto simp: threads_ok_def q)
qed

lemma threads_ok_sleep:
  assumes ok: "threads_ok n p" and i: "i < n" "f_threads p ! i = Awake" and idle: "f_jobs p = []" "\<not> f_stopping p"
  shows "threads_ok n (p\<lparr>f_threads := (f_threads p)[i := Asleep]\<rparr>)"
  using ok idle set_list_update_subset [of Gone "f_threads p" i Asleep] by (auto simp: threads_ok_def)

lemma threads_ok_leave:
  assumes ok: "threads_ok n p" and i: "i < n" "f_threads p ! i = Awake" and idle: "f_jobs p = []" "f_stopping p"
  shows "threads_ok n (p\<lparr>f_threads := (f_threads p)[i := Gone]\<rparr>)"
proof -
  have len: "length (f_threads p) = n" using ok by (simp add: threads_ok_def)
  have "f_threads p ! k = Gone \<Longrightarrow> (f_threads p)[i := Gone] ! k = Gone" if "k < n" for k
    using that len by (simp add: nth_list_update_if)
  then show ?thesis
    using ok idle set_list_update_subset [of Asleep "f_threads p" i Gone]
    by (cases "f_stopper p") (auto simp: threads_ok_def)
qed

lemma threads_ok_join:
  assumes ok: "threads_ok n p" and join: "fpool_join p = Some p'"
  shows "threads_ok n p'"
proof (cases "f_stopper p")
  case Notifying
  then have p': "p' = p\<lparr>f_threads := map (\<lambda>t. if t = Asleep then Awake else t) (f_threads p), f_stopper := JoiningAt 0\<rparr>"
    using join by (simp add: fpool_join_def)
  have "Asleep \<notin> set (f_threads p')" "Gone \<in> set (f_threads p') \<longleftrightarrow> Gone \<in> set (f_threads p)"
    by (force simp: p')+
  then show ?thesis using ok Notifying by (simp add: threads_ok_def p')
next
  case (JoiningAt i)
  then show ?thesis
    using ok join by (auto simp: threads_ok_def fpool_join_def at_work_def less_Suc_eq split: if_splits)
qed (use join in \<open>simp_all add: fpool_join_def\<close>)

section \<open>Every run\<close>

lemma new_fpool_ok: "jobs_ok call [] 0 (new_fpool n)" "threads_ok n (new_fpool n)"
  by (rule jobs_okI) (simp_all add: new_fpool_def threads_ok_def)

lemma fpool_notify_one_cases:
  assumes "fpool_notify_one i p = Some p'"
  obtains (wake) "i < length (f_threads p)" "f_threads p ! i = Asleep"
      "p' = p\<lparr>f_threads := (f_threads p)[i := Awake], f_notes := f_notes p - 1\<rparr>"
    | (nobody) "Asleep \<notin> set (f_threads p)" "p' = p\<lparr>f_notes := f_notes p - 1\<rparr>"
  using assms by (auto simp: fpool_notify_one_def split: if_splits)

lemma fpool_reach_ok: "fpool_reach call n acc p \<Longrightarrow> threads_ok n p \<and> (\<exists>t. jobs_ok call acc t p)"
proof (induction rule: fpool_reach.induct)
  case start
  show ?case using new_fpool_ok by blast
next
  case (submit acc p f k p')
  then have p': "p' = p\<lparr>f_jobs := f_jobs p @ [(f_next p, f)], f_next := Suc (f_next p), f_notes := Suc (f_notes p)\<rparr>"
    and run: "\<not> f_stopping p" by (auto simp: fpool_submit_def split: if_splits)
  have "threads_ok n p'"
    using submit.IH run by (auto simp: threads_ok_def at_work_def p' split: stopper.split)
  then show ?case using submit.IH jobs_ok_submit [OF _ submit.hyps(2)] by blast
next
  case (refuse acc p f e p')
  then show ?case by (auto simp: fpool_submit_def split: if_splits)
next
  case (notify acc p i p')
  from notify.hyps(2) show ?case
  proof (cases rule: fpool_notify_one_cases)
    case wake
    have ok: "threads_ok n p" "i < n" using notify.IH wake(1) by (auto simp: threads_ok_def)
    have "threads_ok n p'"
      by (rule threads_ok_active [where p = p and y = Awake and i = i]) (use ok wake in simp_all)
    moreover have "jobs_ok call acc t p'" if "jobs_ok call acc t p" for t
      by (rule jobs_ok_frame [OF that]) (use wake in \<open>auto simp: nth_list_update_if\<close>)
    ultimately show ?thesis using notify.IH by blast
  next
    case nobody
    have "jobs_ok call acc t p'" if "jobs_ok call acc t p" for t
      by (rule jobs_ok_frame [OF that]) (simp_all add: nobody)
    moreover have "threads_ok n p'" using notify.IH nobody by (auto simp: threads_ok_def split: stopper.split)
    ultimately show ?thesis using notify.IH by blast
  qed
next
  case (spurious acc p i)
  have "threads_ok n (p\<lparr>f_threads := (f_threads p)[i := Awake]\<rparr>)"
    by (rule threads_ok_active [where p = p and y = Awake and i = i]) (use spurious in simp_all)
  moreover have "jobs_ok call acc t (p\<lparr>f_threads := (f_threads p)[i := Awake]\<rparr>)" if "jobs_ok call acc t p" for t
    by (rule jobs_ok_idle [OF that]) (simp_all add: spurious.hyps(3))
  ultimately show ?case using spurious.IH by blast
next
  case (work acc p i p')
  then obtain t where ok: "threads_ok n p" "jobs_ok call acc t p" by blast
  have i: "i < length (f_threads p)" using work.hyps(2) ok(1) by (simp add: threads_ok_def)
  from work.hyps(3) show ?case
  proof (cases rule: fpool_worker_cases)
    case sleep
    then show ?thesis
      using threads_ok_sleep [OF ok(1) work.hyps(2)] jobs_ok_idle [OF ok(2), of i Asleep] by auto
  next
    case leave
    then show ?thesis
      using threads_ok_leave [OF ok(1) work.hyps(2)] jobs_ok_idle [OF ok(2), of i Gone] by auto
  next
    case (take job rest)
    have "threads_ok n p'"
      by (rule threads_ok_active [where p = p and y = "Running job" and i = i]) (use take ok work.hyps(2) in simp_all)
    then show ?thesis using jobs_ok_take [OF ok(2) i take(1,2)] take(3) by blast
  next
    case (run k f)
    have "threads_ok n p'"
      by (rule threads_ok_active [where p = p and y = Awake and i = i]) (use run ok work.hyps(2) in simp_all)
    then show ?thesis using jobs_ok_run [OF ok(2) i run(1)] run(2) by blast
  qed
next
  case (shutdown acc p)
  have "jobs_ok call acc t (fpool_shutdown p)" if "jobs_ok call acc t p" for t
    by (rule jobs_ok_frame [OF that]) (simp_all add: fpool_shutdown_def)
  moreover have "threads_ok n (fpool_shutdown p)"
    using shutdown.IH by (auto simp: threads_ok_def fpool_shutdown_def at_work_def)
  ultimately show ?case using shutdown.IH by blast
next
  case (join acc p p')
  have "jobs_ok call acc t p'" if "jobs_ok call acc t p" for t
    by (rule jobs_ok_frame [OF that])
      (use join.hyps(2) in \<open>auto simp: fpool_join_def split: stopper.splits if_splits\<close>)
  then show ?case using join.IH threads_ok_join [OF _ join.hyps(2)] by blast
qed

section \<open>The property\<close>

text \<open>What is left to do: every turn of a worker makes it smaller.\<close>

fun fworker_turns :: "'j fworker \<Rightarrow> nat" where
  "fworker_turns (Running job) = 2"
| "fworker_turns Awake = 1"
| "fworker_turns Asleep = 0"
| "fworker_turns Gone = 0"

definition fpool_left :: "('j, 'r) fpool \<Rightarrow> nat" where
  "fpool_left p = 2 * length (f_jobs p) + sum_list (map fworker_turns (f_threads p))"

lemma sum_turns_update:
  "i < length ts \<Longrightarrow>
     sum_list (map fworker_turns (ts[i := y])) + fworker_turns (ts ! i) = sum_list (map fworker_turns ts) + fworker_turns y"
  by (induction ts arbitrary: i) (auto simp: nth_Cons split: nat.split)

lemma fpool_worker_decreases:
  assumes "fpool_worker call i p = Some p'" "i < length (f_threads p)"
  shows "fpool_left p' < fpool_left p"
  using assms(1)
proof (cases rule: fpool_worker_cases)
  case (take job rest)
  then show ?thesis
    using sum_turns_update [OF assms(2), of "Running job"] by (simp add: fpool_left_def)
next
  case (run k f)
  then show ?thesis using sum_turns_update [OF assms(2), of Awake] by (simp add: fpool_left_def)
next
  case sleep
  then show ?thesis using sum_turns_update [OF assms(2), of Asleep] by (simp add: fpool_left_def)
next
  case leave
  then show ?thesis using sum_turns_update [OF assms(2), of Gone] by (simp add: fpool_left_def)
qed

lemma fpool_worker_moves:
  "f_threads p ! i \<noteq> Asleep \<Longrightarrow> f_threads p ! i \<noteq> Gone \<Longrightarrow> fpool_worker call i p \<noteq> None"
  by (cases "f_threads p ! i") (auto simp: fpool_worker_def)

text \<open>
  C38. The pool with futures runs every accepted job once, in the order of submission, and its future gets
  what the job returned. In every state that submissions, workers, notifications, spurious wake-ups and a
  shutdown can produce in any interleaving: with \<open>t\<close> jobs taken, the others are queued in order, and each
  taken one is being run by exactly one worker or its future is ready with what the job returned. No wake-up is lost: while a
  job is queued and a worker sleeps, some worker is awake or busy, or a notification is on its way. A
  shutdown cannot hang: while it waits for a worker, that worker can take a turn, and every turn brings the
  end closer. When it has returned, with at least one worker, every future is ready and submitting throws.
\<close>

theorem futures_arrive:
  assumes "fpool_reach call n acc p"
  shows "(\<exists>t \<le> length acc. f_jobs p = zip [t..<length acc] (drop t acc) \<and>
      (\<forall>k. (fpool_get k p \<noteq> None \<longrightarrow> k < t \<and> fpool_get k p = Some (call (acc ! k))) \<and>
        (k < t \<and> fpool_get k p = None \<longleftrightarrow> (\<exists>!i. i < n \<and> (\<exists>f. f_threads p ! i = Running (k, f)))))) \<and>
    (f_jobs p \<noteq> [] \<and> Asleep \<in> set (f_threads p) \<longrightarrow>
      (\<exists>i < n. fpool_worker call i p \<noteq> None) \<or> 0 < f_notes p \<or> f_stopper p = Notifying) \<and>
    (\<forall>i p'. i < n \<and> fpool_worker call i p = Some p' \<longrightarrow> fpool_left p' < fpool_left p) \<and>
    (f_stopper p = Notifying \<longrightarrow> fpool_join p \<noteq> None) \<and>
    (\<forall>i. f_stopper p = JoiningAt i \<longrightarrow> fpool_join p \<noteq> None \<or> fpool_worker call i p \<noteq> None) \<and>
    (f_stopper p = AllJoined \<and> 0 < n \<longrightarrow>
      (\<forall>k < length acc. fpool_get k p = Some (call (acc ! k))) \<and>
      (\<forall>f. fpool_submit f p = (Inl ''submit on stopped pool'', p)))"
proof -
  obtain t where th: "threads_ok n p" and jobs: "jobs_ok call acc t p"
    using fpool_reach_ok [OF assms] by blast
  note D = jobs_okD [OF jobs]
  have len: "length (f_threads p) = n" using th by (simp add: threads_ok_def)
  have futures: "fpool_get k p \<noteq> None \<longrightarrow> k < t \<and> fpool_get k p = Some (call (acc ! k))" for k
    using D(4) [of k] by (cases "f_futures p k") (auto simp: fpool_get_def)
  have taken: "k < t \<and> fpool_get k p = None \<longleftrightarrow> (\<exists>!i. i < n \<and> (\<exists>f. f_threads p ! i = Running (k, f)))" for k
  proof
    assume "k < t \<and> fpool_get k p = None"
    then obtain i where i: "i < n" "f_threads p ! i = Running (k, acc ! k)"
      using D(5) [of k] len by (auto simp: fpool_get_def)
    moreover have "j = i" if "j < n" "f_threads p ! j = Running (k, f)" for j f
    proof -
      have "f = acc ! k" using D(6) [of j k f] that unfolding len by blast
      then show ?thesis using D(6) [of i k "acc ! k"] i that unfolding len by blast
    qed
    ultimately show "\<exists>!i. i < n \<and> (\<exists>f. f_threads p ! i = Running (k, f))" by blast
  next
    assume "\<exists>!i. i < n \<and> (\<exists>f. f_threads p ! i = Running (k, f))"
    then obtain i f where "i < n" "f_threads p ! i = Running (k, f)" by blast
    then show "k < t \<and> fpool_get k p = None"
      using D(6) [of i k f] unfolding len fpool_get_def by blast
  qed
  have queue: "\<exists>t \<le> length acc. f_jobs p = zip [t..<length acc] (drop t acc) \<and>
      (\<forall>k. (fpool_get k p \<noteq> None \<longrightarrow> k < t \<and> fpool_get k p = Some (call (acc ! k))) \<and>
        (k < t \<and> fpool_get k p = None \<longleftrightarrow> (\<exists>!i. i < n \<and> (\<exists>f. f_threads p ! i = Running (k, f)))))"
    by (intro exI [of _ t] conjI allI D(1) D(3) futures taken)
  have wake: "(\<exists>i < n. fpool_worker call i p \<noteq> None) \<or> 0 < f_notes p \<or> f_stopper p = Notifying"
    if "f_jobs p \<noteq> []" "Asleep \<in> set (f_threads p)"
  proof -
    have "at_work p" using th that by (simp add: threads_ok_def)
    then show ?thesis
      using fpool_worker_moves len unfolding at_work_def by (metis in_set_conv_nth)
  qed
  have joining: "fpool_join p \<noteq> None \<or> fpool_worker call i p \<noteq> None" if "f_stopper p = JoiningAt i" for i
  proof (cases "i < n \<and> f_threads p ! i \<noteq> Gone")
    case True
    moreover have "Asleep \<notin> set (f_threads p)" using th that by (simp add: threads_ok_def)
    ultimately have "f_threads p ! i \<noteq> Asleep" using len by (metis nth_mem)
    then show ?thesis using True fpool_worker_moves by blast
  next
    case False
    then show ?thesis using that len by (auto simp: fpool_join_def)
  qed
  have final: "(\<forall>k < length acc. fpool_get k p = Some (call (acc ! k))) \<and>
      (\<forall>f. fpool_submit f p = (Inl ''submit on stopped pool'', p))" if st: "f_stopper p = AllJoined" "0 < n"
  proof -
    have gone: "\<forall>k < n. f_threads p ! k = Gone" and stop: "f_stopping p" using th st(1) by (simp_all add: threads_ok_def)
    then have "Gone \<in> set (f_threads p)" using st(2) len by (metis nth_mem)
    then have "f_jobs p = []" using th by (simp add: threads_ok_def)
    then have "t = length acc" using D(1,3) by (cases "t < length acc") (auto simp: upt_conv_Cons Cons_nth_drop_Suc [symmetric])
    moreover have "fpool_get k p \<noteq> None" if "k < t" for k
      using taken [of k] gone that by auto
    ultimately show ?thesis using futures stop by (simp add: fpool_submit_def)
  qed
  have notifying: "f_stopper p = Notifying \<Longrightarrow> fpool_join p \<noteq> None"
    by (simp add: fpool_join_def)
  have less: "i < n \<and> fpool_worker call i p = Some p' \<Longrightarrow> fpool_left p' < fpool_left p" for i p'
    using fpool_worker_decreases [of call i p p'] len by simp
  show ?thesis
    by (intro conjI allI impI queue joining notifying; (elim conjE)?)
      (use wake final less in blast)+
qed

theorem futures_arrive_witness:
  "\<exists>p. fpool_reach square 1 [7, 8] p \<and> f_stopper p = AllJoined \<and> fpool_get 0 p = Some 49 \<and> fpool_get 1 p = Some 64"
proof -
  let ?R = "fpool_reach square 1"
  define w where "w p = the (fpool_worker square 0 p)" for p
  define j where "j p = the (fpool_join p)" for p :: "(int, int) fpool"
  define p2 where "p2 = snd (fpool_submit (8 :: int) (snd (fpool_submit 7 (w (new_fpool 1)))))"
  define p3 where "p3 = the (fpool_notify_one 0 p2)"
  define p4 where "p4 = w (w (w (w (w (j (fpool_shutdown p3))))))"
  define p5 where "p5 = j (j p4)"
  note ev = p5_def p4_def p3_def p2_def w_def j_def fpool_submit_def new_fpool_def fpool_worker_def fpool_join_def
    fpool_notify_one_def fpool_shutdown_def
  have step: "?R acc p \<Longrightarrow> fpool_worker square 0 p \<noteq> None \<Longrightarrow> ?R acc (w p)" for acc p
    by (erule fpool_reach.work [where i = 0]) (auto simp: w_def)
  have joined: "?R acc p \<Longrightarrow> fpool_join p \<noteq> None \<Longrightarrow> ?R acc (j p)" for acc p
    by (erule fpool_reach.join) (auto simp: j_def)
  have sub: "?R acc p \<Longrightarrow> \<not> f_stopping p \<Longrightarrow> ?R (acc @ [x]) (snd (fpool_submit x p))" for acc p x
    by (erule fpool_reach.submit) (simp add: fpool_submit_def)
  have "?R [] (w (new_fpool 1))"
    by (intro step fpool_reach.start) (simp add: ev)
  then have "?R ([] @ [7]) (snd (fpool_submit 7 (w (new_fpool 1))))"
    by (rule sub) (simp add: ev)
  then have "?R (([] @ [7]) @ [8]) p2"
    unfolding p2_def by (rule sub) (simp add: ev)
  then have "?R [7, 8] p2" by simp
  then have "?R [7, 8] p3"
    by (rule fpool_reach.notify [where i = 0]) (simp add: ev)
  then have "?R [7, 8] p5"
    unfolding p5_def p4_def by (intro joined step fpool_reach.shutdown) (simp_all add: ev)
  moreover have stop: "f_stopper p5 = AllJoined" by (simp add: ev)
  ultimately have "\<forall>k < length [7, 8 :: int]. fpool_get k p5 = Some (square ([7, 8] ! k))"
    using futures_arrive [of square 1 "[7, 8]" p5] by blast
  then have "fpool_get 0 p5 = Some 49" "fpool_get 1 p5 = Some 64"
    by (auto simp: square_def)
  with \<open>?R [7, 8] p5\<close> stop show ?thesis by blast
qed

end
