(* ===== verification/Diagnostics.thy ===== *)
theory Diagnostics
  imports Core
begin

text \<open>
  The text forms of errors and events: \<open>SystemError::format\<close> of \<^verbatim>\<open>src/core/result.hpp\<close> and the ready-made
  \<open>StderrSink\<close> of \<^verbatim>\<open>src/core/diagnostics.hpp\<close>, with the guards that install a sink and count a
  connection for a scope. What \<open>std::system_category().message\<close> says of an error number is the
  parameter \<open>strerror\<close>; the file and line of a \<open>source_location\<close> are arguments. Standard error is the
  string of what has been written to it.
\<close>

section \<open>Decimal numbers\<close>

definition digit :: "nat \<Rightarrow> char" where
  "digit d = char_of (48 + d)"

fun dec_nat :: "nat \<Rightarrow> string" where
  "dec_nat n = (if n < 10 then [digit n] else dec_nat (n div 10) @ [digit (n mod 10)])"

declare dec_nat.simps [simp del]

definition dec_int :: "int \<Rightarrow> string" where
  "dec_int i = (if i < 0 then CHR ''-'' # dec_nat (nat (- i)) else dec_nat (nat i))"

text \<open>Reading a number back.\<close>

definition digit_value :: "char \<Rightarrow> nat" where
  "digit_value c = of_char c - 48"

definition read_nat :: "string \<Rightarrow> nat" where
  "read_nat s = foldl (\<lambda>n c. 10 * n + digit_value c) 0 s"

definition read_int :: "string \<Rightarrow> int" where
  "read_int s = (case s of [] \<Rightarrow> 0 | c # cs \<Rightarrow> if c = CHR ''-'' then - int (read_nat cs) else int (read_nat s))"

lemma digit_value_digit [simp]: "d < 10 \<Longrightarrow> digit_value (digit d) = d"
  by (simp add: digit_value_def digit_def)

lemma read_dec_nat [simp]: "read_nat (dec_nat n) = n"
proof (induction n rule: dec_nat.induct)
  case (1 n)
  show ?case
  proof (cases "n < 10")
    case True
    then show ?thesis by (subst dec_nat.simps) (simp add: read_nat_def)
  next
    case False
    then have "read_nat (dec_nat (n div 10)) = n div 10" by (rule "1.IH")
    then show ?thesis using False by (subst dec_nat.simps) (simp add: read_nat_def)
  qed
qed

lemma dec_nat_head: "\<exists>d cs. dec_nat n = digit d # cs \<and> d < 10"
proof (induction n rule: dec_nat.induct)
  case (1 n)
  then show ?case by (subst dec_nat.simps) (cases "n < 10", auto)
qed

lemma digit_not_minus: "d < 10 \<Longrightarrow> digit d \<noteq> CHR ''-''"
proof
  assume "d < 10" "digit d = CHR ''-''"
  then have "of_char (digit d) = (45 :: nat)" by simp
  then show False using \<open>d < 10\<close> by (simp add: digit_def)
qed

lemma read_dec_int [simp]: "read_int (dec_int i) = i"
proof (cases "i < 0")
  case True
  then show ?thesis by (simp add: dec_int_def read_int_def)
next
  case False
  obtain d cs where "dec_nat (nat i) = digit d # cs" "d < 10" using dec_nat_head by blast
  then show ?thesis
    using False digit_not_minus read_dec_nat [of "nat i"] by (simp add: dec_int_def read_int_def)
qed

section \<open>Errors as text (core/result.hpp)\<close>

definition message_text :: "(int \<Rightarrow> string) \<Rightarrow> err_msg \<Rightarrow> string" where
  "message_text strerror m = (case m of Text s \<Rightarrow> s | StrError e \<Rightarrow> strerror e)"

definition error_format :: "(int \<Rightarrow> string) \<Rightarrow> string \<Rightarrow> nat \<Rightarrow> system_error \<Rightarrow> string" where
  "error_format strerror file line e =
     file @ '':'' @ dec_nat line @ '' ['' @ dec_int (err_value e) @ ''] '' @ message_text strerror (err_message e)"

definition error_to_string :: "(int \<Rightarrow> string) \<Rightarrow> string \<Rightarrow> nat \<Rightarrow> system_error \<Rightarrow> string" where
  "error_to_string = error_format"

section \<open>The sink on standard error (core/diagnostics.hpp)\<close>

fun severity_name :: "severity \<Rightarrow> string" where
  "severity_name Trace = ''TRACE''"
| "severity_name Debug = ''DEBUG''"
| "severity_name Info = ''INFO''"
| "severity_name Warn = ''WARN''"
| "severity_name Error = ''ERROR''"

text \<open>\<open>%s\<close>, with or without a precision, stops at the first zero character.\<close>

definition c_text :: "string \<Rightarrow> string" where
  "c_text s = takeWhile (\<lambda>c. c \<noteq> CHR 0x00) s"

definition field_value :: "field \<Rightarrow> string" where
  "field_value f = (if f_kind f = Str then c_text (f_sval f) else dec_int (sint (f_ival f)))"

definition field_text :: "field \<Rightarrow> string" where
  "field_text f = '' '' @ c_text (f_key f) @ ''='' @ field_value f"

definition error_text :: "(int \<Rightarrow> string) \<Rightarrow> system_error option \<Rightarrow> string" where
  "error_text strerror err =
     (case err of None \<Rightarrow> []
      | Some e \<Rightarrow> '' errno='' @ dec_int (err_value e) @ '' msg='' @ c_text (message_text strerror (err_message e)))"

definition event_line :: "(int \<Rightarrow> string) \<Rightarrow> event \<Rightarrow> string" where
  "event_line strerror e =
     ''['' @ severity_name (ev_severity e) @ ''] '' @ c_text (ev_code e) @ error_text strerror (ev_error e) @
     concat (map field_text (ev_fields e)) @ [CHR 0x0A]"

definition stderr_emit :: "(int \<Rightarrow> string) \<Rightarrow> string \<Rightarrow> event \<Rightarrow> string" where
  "stderr_emit strerror out e = out @ event_line strerror e"

section \<open>Guards\<close>

definition scoped_sink_enter :: "('s \<Rightarrow> event \<Rightarrow> 's) \<Rightarrow> 's sink \<Rightarrow> 's sink" where
  "scoped_sink_enter f g_sink = install_sink f g_sink"

definition scoped_sink_exit :: "'s sink \<Rightarrow> 's sink" where
  "scoped_sink_exit g_sink = reset_sink g_sink"

section \<open>What a reader of the log can rely on\<close>

text \<open>
  A numeric field reads back as the value it was made with, except that an unsigned value of \<open>2 ^ 63\<close>
  or more is printed through a signed conversion and reads back negative.
\<close>

theorem stderr_numbers:
  "read_int (field_value (field_i k v)) = sint v"
  "read_int (field_value (field_u k v)) = uint v \<longleftrightarrow> uint v < 2 ^ 63"
  "2 ^ 63 \<le> uint v \<Longrightarrow> read_int (field_value (field_u k v)) = uint v - 2 ^ 64"
proof -
  show "read_int (field_value (field_i k v)) = sint v"
    by (simp add: field_value_def field_i_def)
  have p: "read_int (field_value (field_u k v)) = sint v"
    by (simp add: field_value_def field_u_def)
  have s: "sint v = (if uint v < 2 ^ 63 then uint v else uint v - 2 ^ 64)"
  proof -
    have "uint v < 2 ^ 63 \<or> uint v div 2 ^ 63 = 1"
      using uint_lt2p [of v] by simp linarith
    then show ?thesis
      using uint_lt2p [of v] uint_ge_0 [of v]
      by (auto simp: sint_uint signed_take_bit_eq_take_bit_minus take_bit_int_eq_self bit_iff_odd not_less)
  qed
  show "read_int (field_value (field_u k v)) = uint v \<longleftrightarrow> uint v < 2 ^ 63"
    "2 ^ 63 \<le> uint v \<Longrightarrow> read_int (field_value (field_u k v)) = uint v - 2 ^ 64"
    unfolding p s by simp_all
qed

text \<open>Leaving the scope of a guard takes the sink away, also when an outer guard had installed one.\<close>

lemma scoped_sink_nested: "scoped_sink_exit (scoped_sink_enter g (scoped_sink_enter f s)) = None"
  by (simp add: scoped_sink_exit_def reset_sink_def)

lemma inflight_guard_balanced: "inflight_exit (inflight_enter g_metrics) = g_metrics"
  by (cases g_metrics) (simp_all add: inflight_exit_def inflight_enter_def count_def)

text \<open>A core's counters are visited once while it is registered, and not at all afterwards.\<close>

lemma registry_lifetime:
  "m \<notin> set cores \<Longrightarrow> registry_remove m (registry_add m cores) = cores"
  "m \<notin> set (registry_remove m cores)"
  by (auto simp: registry_remove_def registry_add_def filter_id_conv)

end
