(* ===== verification/Spec2Isabelle.thy ===== *)
theory Spec2Isabelle
  imports Timer_Properties Loop_Properties Task_Properties Channel_Monitor Spinlock Combinator_Properties Race_Properties Tcp_Properties Fs_Properties Fs_Whole Bridge_Properties Fs_Async Executor_Properties Runtime Echo_Properties Supervisor_Properties Futures_Properties Diagnostics
begin

text \<open>
  A verification of Rain, an asynchronous runtime for C++23 that consists of headers under \<^verbatim>\<open>src/\<close>, and of
  the three example programs under \<^verbatim>\<open>rain_tour/examples/\<close>.

  \<^bold>\<open>The program.\<close> A coroutine is a \<open>Task\<close>. Each core runs one \<open>EventLoop\<close>, which owns an epoll reactor and a
  timer wheel; a coroutine that has to wait hands its handle to one or both of them through an awaiter
  and is resumed by the loop when the first of them finds its wait state pending. An \<open>Executor\<close> runs one
  loop per core, a \<open>Runtime\<close> adds a pool of threads for blocking calls, and the bridge between them wakes
  a coroutine through an eventfd when its blocking call has ended. Sockets and files are built on these
  parts: streams and listeners on the awaiters, file operations on the blocking pool. Errors are values
  (\<open>Result\<close>) throughout.

  \<^bold>\<open>Conventions.\<close> An object that the code reaches through a reference or a thread-local pointer is an explicit
  argument and result of the operation. A struct is a record, an enum a datatype, \<open>Result<T>\<close> the sum
  \<open>system_error + 'a\<close>. A coroutine handle is the number of its frame. The kernel, the clock and the C
  library are parameters, functions on a world \<open>'w\<close>, and what a theorem needs of them is a named
  hypothesis (\<open>eventfd_laws\<close>, \<open>socket_law\<close>, \<open>echo_laws\<close>, \<dots>) that every witness shows to be satisfiable. What
  the body of a coroutine or a callable does is a parameter as well. Where threads interleave, a step
  is what one thread does while it holds the lock or in one atomic operation, and an inductive
  predicate (\<open>pool_reach\<close>, \<open>blocking_reach\<close>, \<open>exec_reach\<close>, \<open>fpool_reach\<close>) generates the states that can arise.

  \<^bold>\<open>The theories\<close>, with the code they model and what they show.

  \<^item> \<open>Rain_Prelude\<close>: the machine integers of \<^verbatim>\<open>core/types.hpp\<close>, the collections of rewrite rules and lemmas on
    lists and words that several components use.
  \<^item> \<open>Core\<close>, \<open>Diagnostics\<close>: \<^verbatim>\<open>core/result.hpp\<close> and \<^verbatim>\<open>core/diagnostics.hpp\<close>. Numbers in the log read back as the
    values they were made from, but for large unsigned ones; guards and the registry are balanced.
  \<^item> \<open>Concepts\<close>: \<^verbatim>\<open>async/concepts.hpp\<close>.
  \<^item> \<open>Timer_Slotmap\<close>, \<open>Timer_Wheel\<close>: \<^verbatim>\<open>async/timer.hpp\<close>. The slot table is an interpretation of the locale
    \<open>timer_table\<close>: an id that was released never resolves again. \<open>Wheel_Invariant\<close>, \<open>Wheel_Tick\<close> and \<open>Wheel_Run\<close>
    carry the invariant of the four levels over whole runs, \<open>Wheel_Early\<close> treats the exception to exact
    firing, and \<open>Timer_Properties\<close> states the results: exact firing, the effects of a tick, final cancellation,
    that \<open>advance_to\<close> ends, \<open>next_deadline\<close>, and the timer that fires early.
  \<^item> \<open>Reactor\<close>: \<^verbatim>\<open>async/io_reactor.hpp\<close>. \<open>Reactor_Proof\<close> and \<open>Reactor_Properties\<close> show that the reactor refines a
    table of waiters, that a registration is atomic and that the kernel always waits for what is pending.
  \<^item> \<open>Wake_Source\<close>: a locale for whatever may wake a suspended coroutine, interpreted on the reactor and
    on the wheel; \<open>Awaiters\<close> (\<^verbatim>\<open>net/io_awaiters.hpp\<close> and the sleep awaiter) and \<open>Awaiter_Properties\<close>, with a third
    interpretation on a whole core: a suspended coroutine is woken exactly once.
  \<^item> \<open>Task\<close>, \<open>Task_Properties\<close>: \<^verbatim>\<open>async/task.hpp\<close>. Each frame has one owner, results and stop requests arrive.
  \<^item> \<open>Signal\<close>: \<^verbatim>\<open>async/signal.hpp\<close>; closing a signal set restores the mask.
  \<^item> \<open>Event_Loop\<close>, \<open>Loop_Properties\<close>: \<^verbatim>\<open>async/event_loop.hpp\<close>. No task is lost in any interleaving with other
    threads, the poll timeout stays in its bounds, and a graceful stop requested elsewhere strands a waiter.
  \<^item> \<open>Combinators\<close>, \<open>Combinator_Properties\<close>, \<open>Race_Properties\<close>: \<^verbatim>\<open>async/combinators.hpp\<close>. The laws of the pipe operators,
    the number of attempts of \<open>retry\<close>, and for \<open>when_all\<close>, \<open>when_any\<close> and \<open>timeout\<close> who wins and who is woken.
  \<^item> \<open>Channel\<close>, \<open>Channel_Monitor\<close>, \<open>Spinlock\<close>: \<^verbatim>\<open>sync/\<close>. The channel is an interpretation of the locale
    \<open>closable_queue\<close>; under any interleaving it is a bounded queue and loses no wake-up. The spin lock excludes.
  \<^item> \<open>Address\<close>, \<open>Tcp\<close>, \<open>Stream_Io\<close>: \<^verbatim>\<open>net/\<close>. \<open>Stream_Properties\<close> shows through the locale \<open>chunk_sender\<close>, interpreted on the
    plain and on the timed write, that \<open>write_all\<close> delivers; \<open>Tcp_Properties\<close> that no descriptor is leaked.
  \<^item> \<open>Fs\<close>, \<open>Fs_File\<close>, \<open>Fs_Async\<close>: \<^verbatim>\<open>fs/\<close>. \<open>Fs_Properties\<close> and \<open>Fs_Whole\<close> show that reads and writes transfer exactly what they
    should however the kernel splits them, and that every descriptor is closed on every path.
  \<^item> \<open>Thread_Pool\<close>: \<^verbatim>\<open>runtime/thread_pool.hpp\<close>; every accepted job runs once and a shutdown drains.
  \<^item> \<open>Bridge\<close>, \<open>Bridge_Poll\<close>, \<open>Bridge_Invariant\<close>, \<open>Bridge_Call\<close>, \<open>Bridge_Properties\<close>: \<^verbatim>\<open>runtime/bridge.hpp\<close> over the modelled core
    and pool; the coroutine is woken once, after the call, with its result.
  \<^item> \<open>Executor\<close>, \<open>Executor_Properties\<close>: \<^verbatim>\<open>runtime/executor.hpp\<close>; a failing core is recorded once and stops the others.
  \<^item> \<open>Runtime\<close>: \<^verbatim>\<open>runtime/runtime.hpp\<close>, the builder, \<open>block_on\<close> and the global functions, over all of the above.
  \<^item> \<open>Echo_Server\<close>, \<open>Echo_Invariant\<close>, \<open>Echo_Properties\<close>: \<^verbatim>\<open>echo_server.cpp\<close>; every byte comes back, in order.
  \<^item> \<open>Supervisor\<close>, \<open>Supervisor_Properties\<close>: \<^verbatim>\<open>crash_supervisor.cpp\<close>; no crash costs a worker, no child is left behind.
  \<^item> \<open>Futures_Pool\<close>, \<open>Futures_Properties\<close>: \<^verbatim>\<open>thread_pool_futures.cpp\<close>; every future gets its value, also at shutdown.

  \<^bold>\<open>Loops and bounds.\<close> A loop that the code bounds is a recursive function with a termination proof
  (\<open>advance_to\<close>, \<open>cascade\<close>, the loops over descriptors and buffers). A loop that lasts as long as the kernel
  refuses is a \<open>partial_function\<close> into \<open>option\<close>, where \<open>None\<close> is not returning: \<open>run\<close>, \<open>read_some\<close>, \<open>read_at_loop\<close>, \<open>echo_run\<close>,
  \<open>supervise\<close> and others; the theorems about the file transfers, \<open>write_all\<close>, the turns of the echo server and the
  supervisor prove that they return, from a hypothesis that bounds the interruptions of the kernel by
  a natural number of the world. \<open>echo_turns\<close> and \<open>supervise_turns\<close> count the turns of a loop and hold for
  every number of them. Word arithmetic is kept at its width for timer ids, generations, event masks,
  ports, file offsets and counters; clock readings are unbounded integers of nanoseconds.

  \<^bold>\<open>Not modelled.\<close> \<^verbatim>\<open>core/types.hpp\<close> and \<^verbatim>\<open>core/concepts.hpp\<close> name types and state compile-time constraints. Deleted
  and defaulted members, accessors that return a reference to a member, casts between views of the same
  bytes, \<open>cpu_pause\<close> and the memory order of atomic operations have no counterpart in the model: atomics
  are sequentially consistent. Text written to the console is left out, but for the log sink. The
  default handler for exceptions of pool jobs only writes to standard error. Tests, benchmarks and
  scripts are no part of the library.
\<close>

end
